(* ===== verification/JsPrelude.thy ===== *)
theory JsPrelude
  imports
    Complex_Main
    "HOL-Library.AList"
    "HOL-Library.Char_ord"
    "HOL-Library.List_Lexorder"
    "HOL-Library.Product_Lexorder"
    "HOL-Library.Multiset"
begin

text \<open>
  The JavaScript the modelled modules are written in: strings, arrays, comparators and
  plain objects.  A string is a \<^typ>\<open>char list\<close>, one \<^typ>\<open>char\<close> per UTF-16 code unit, so the
  development speaks about texts whose code units are below 256 (the Latin-1 range); white
  space, letter case and comparison follow ECMAScript on that range.  An array is a list, an
  object the list of its own entries in enumeration order, a \<open>Map\<close> an association list in
  insertion order.  \<open>Array.prototype.sort\<close> is a stable insertion sort by the same comparator,
  which is what ECMAScript prescribes for a consistent comparator; the locale \<open>comparator\<close>
  says what consistency is and carries the facts about the result.
\<close>

named_theorems js_simps \<open>evaluation of the JavaScript string and array operations\<close>
named_theorems sort_simps \<open>what sorting keeps of a list\<close>

section \<open>Characters\<close>

abbreviation code :: "char \<Rightarrow> nat" where
  "code c \<equiv> of_char c"

abbreviation NL :: char where "NL \<equiv> CHR 0x0A"
abbreviation CR :: char where "CR \<equiv> CHR 0x0D"
abbreviation SLASH :: char where "SLASH \<equiv> CHR 0x2F"
abbreviation DQUOTE :: char where "DQUOTE \<equiv> CHR 0x22"
abbreviation SQUOTE :: char where "SQUOTE \<equiv> CHR 0x27"
abbreviation BACKSLASH :: char where "BACKSLASH \<equiv> CHR 0x5C"
abbreviation BACKTICK :: char where "BACKTICK \<equiv> CHR 0x60"

text \<open>The class \<open>\s\<close> of a regular expression, which is also what \<open>trim\<close> removes.\<close>

definition is_space :: "char \<Rightarrow> bool" where
  "is_space c \<longleftrightarrow> code c \<in> {9, 10, 11, 12, 13, 32, 160}"

definition is_digit :: "char \<Rightarrow> bool" where
  "is_digit c \<longleftrightarrow> 48 \<le> code c \<and> code c \<le> 57"

definition is_upper :: "char \<Rightarrow> bool" where
  "is_upper c \<longleftrightarrow> 65 \<le> code c \<and> code c \<le> 90"

definition is_lower :: "char \<Rightarrow> bool" where
  "is_lower c \<longleftrightarrow> 97 \<le> code c \<and> code c \<le> 122"

definition is_alnum :: "char \<Rightarrow> bool" where
  "is_alnum c \<longleftrightarrow> is_digit c \<or> is_upper c \<or> is_lower c"

text \<open>The classes \<open>[A-Za-z0-9_-]\<close> and \<open>\w\<close>.\<close>

definition is_key_char :: "char \<Rightarrow> bool" where
  "is_key_char c \<longleftrightarrow> is_alnum c \<or> c = CHR ''_'' \<or> c = CHR ''-''"

definition is_word_char :: "char \<Rightarrow> bool" where
  "is_word_char c \<longleftrightarrow> is_alnum c \<or> c = CHR ''_''"

definition char_lower :: "char \<Rightarrow> char" where
  "char_lower c =
     (if is_upper c \<or> (192 \<le> code c \<and> code c \<le> 222 \<and> code c \<noteq> 215)
      then char_of (code c + 32) else c)"

definition lower :: "string \<Rightarrow> string" where
  "lower s = map char_lower s"

lemma length_lower [simp]: "length (lower s) = length s"
  by (simp add: lower_def)

lemma char_lower_idem [simp]: "char_lower (char_lower c) = char_lower c"
proof -
  have "code c < 256" by simp
  then show ?thesis
    by (auto simp: char_lower_def is_upper_def)
qed

lemma lower_idem [simp]: "lower (lower s) = lower s"
  by (simp add: lower_def)

lemma lower_append [simp]: "lower (s @ t) = lower s @ lower t"
  by (simp add: lower_def)

section \<open>Substrings\<close>

text \<open>A text that may be missing, read as true or false.\<close>

definition nonempty :: "string option \<Rightarrow> string option" where
  "nonempty s = (case s of Some t \<Rightarrow> if t = [] then None else Some t | None \<Rightarrow> None)"

definition starts_with :: "'a list \<Rightarrow> 'a list \<Rightarrow> bool" where
  "starts_with s p \<longleftrightarrow> take (length p) s = p"

definition ends_with :: "'a list \<Rightarrow> 'a list \<Rightarrow> bool" where
  "ends_with s p \<longleftrightarrow> starts_with (rev s) (rev p)"

text \<open>\<open>indexOf\<close>: the least position at which the needle starts.\<close>

fun index_of :: "'a list \<Rightarrow> 'a list \<Rightarrow> nat option" where
  "index_of [] p = (if p = [] then Some 0 else None)"
| "index_of (x # xs) p =
     (if starts_with (x # xs) p then Some 0 else map_option Suc (index_of xs p))"

definition index_of_from :: "'a list \<Rightarrow> 'a list \<Rightarrow> nat \<Rightarrow> nat option" where
  "index_of_from s p i =
     (let j = min i (length s) in map_option (\<lambda>k. j + k) (index_of (drop j s) p))"

definition contains :: "'a list \<Rightarrow> 'a list \<Rightarrow> bool" where
  "contains s p \<longleftrightarrow> index_of s p \<noteq> None"

text \<open>\<open>lastIndexOf\<close> of a one-character string.\<close>

fun last_index_of :: "'a list \<Rightarrow> 'a \<Rightarrow> nat option" where
  "last_index_of [] c = None"
| "last_index_of (x # xs) c =
     (case last_index_of xs c of Some i \<Rightarrow> Some (Suc i) | None \<Rightarrow> if x = c then Some 0 else None)"

definition slice :: "nat \<Rightarrow> nat \<Rightarrow> 'a list \<Rightarrow> 'a list" where
  "slice i j s = take (j - i) (drop i s)"

definition drop_trailing :: "('a \<Rightarrow> bool) \<Rightarrow> 'a list \<Rightarrow> 'a list" where
  "drop_trailing P s = rev (dropWhile P (rev s))"

definition trim_start :: "string \<Rightarrow> string" where
  "trim_start s = dropWhile is_space s"

definition trim_end :: "string \<Rightarrow> string" where
  "trim_end s = drop_trailing is_space s"

definition trim :: "string \<Rightarrow> string" where
  "trim s = trim_end (trim_start s)"

lemma starts_with_append [simp]: "starts_with (p @ s) p"
  by (simp add: starts_with_def)

lemma starts_with_Nil [simp]: "starts_with s []"
  by (simp add: starts_with_def)

lemma starts_with_iff: "starts_with s p \<longleftrightarrow> (\<exists>t. s = p @ t)"
  by (metis append_eq_conv_conj append_take_drop_id starts_with_def)

lemma starts_with_Cons [simp]:
  "starts_with (x # xs) (y # ys) \<longleftrightarrow> x = y \<and> starts_with xs ys"
  by (auto simp: starts_with_def)

lemma starts_with_Nil_Cons [simp]: "\<not> starts_with [] (y # ys)"
  by (simp add: starts_with_def)

lemma ends_with_iff: "ends_with s p \<longleftrightarrow> (\<exists>t. s = t @ p)"
  unfolding ends_with_def starts_with_iff by (metis rev_append rev_rev_ident)

lemma ends_with_append [simp]: "ends_with (s @ p) p"
  by (auto simp: ends_with_iff)

text \<open>What \<open>index_of\<close> finds is an occurrence, and the first one.\<close>

lemma index_of_Some:
  "index_of s p = Some i \<Longrightarrow> i + length p \<le> length s \<and> take (length p) (drop i s) = p"
proof (induction s p arbitrary: i rule: index_of.induct)
  case (1 p)
  then show ?case by (auto split: if_splits)
next
  case (2 x xs p)
  show ?case
  proof (cases "starts_with (x # xs) p")
    case True
    with 2 have "i = 0" by simp
    moreover from True have "length p \<le> length (x # xs)"
      unfolding starts_with_iff by (metis le_add1 length_append)
    ultimately show ?thesis using True by (simp add: starts_with_def)
  next
    case False
    with 2 obtain j where "index_of xs p = Some j" and "i = Suc j" by auto
    with 2 False show ?thesis by auto
  qed
qed

lemma index_of_first:
  "index_of s p = Some i \<Longrightarrow> j < i \<Longrightarrow> take (length p) (drop j s) \<noteq> p"
proof (induction s p arbitrary: i j rule: index_of.induct)
  case (1 p)
  then show ?case by (auto split: if_splits)
next
  case (2 x xs p)
  then show ?case
    by (cases j) (auto simp: starts_with_def split: if_splits)
qed

lemma index_of_None:
  "index_of s p = None \<longleftrightarrow> (\<forall>j \<le> length s. take (length p) (drop j s) \<noteq> p)"
proof (induction s p rule: index_of.induct)
  case (1 p)
  then show ?case by auto
next
  case (2 x xs p)
  show ?case
  proof (cases "starts_with (x # xs) p")
    case True
    then show ?thesis by (auto simp: starts_with_def intro!: exI [of _ 0])
  next
    case False
    then have z: "take (length p) (drop 0 (x # xs)) \<noteq> p" by (simp add: starts_with_def)
    have "(\<forall>j \<le> length (x # xs). take (length p) (drop j (x # xs)) \<noteq> p)
        \<longleftrightarrow> (\<forall>j \<le> length xs. take (length p) (drop j xs) \<noteq> p)"
    proof
      assume "\<forall>j \<le> length (x # xs). take (length p) (drop j (x # xs)) \<noteq> p"
      then show "\<forall>j \<le> length xs. take (length p) (drop j xs) \<noteq> p"
        by (metis Suc_le_mono drop_Suc_Cons length_Cons)
    next
      assume r: "\<forall>j \<le> length xs. take (length p) (drop j xs) \<noteq> p"
      show "\<forall>j \<le> length (x # xs). take (length p) (drop j (x # xs)) \<noteq> p"
      proof (intro allI impI)
        fix j assume "j \<le> length (x # xs)"
        then show "take (length p) (drop j (x # xs)) \<noteq> p"
          using z r by (cases j) auto
      qed
    qed
    with False 2 show ?thesis by simp
  qed
qed

lemma contains_iff: "contains s p \<longleftrightarrow> (\<exists>a b. s = a @ p @ b)"
proof
  assume "contains s p"
  then obtain i where "index_of s p = Some i" by (auto simp: contains_def)
  from index_of_Some [OF this] have "s = take i s @ p @ drop (length p) (drop i s)"
    by (metis append_take_drop_id)
  then show "\<exists>a b. s = a @ p @ b" by blast
next
  assume "\<exists>a b. s = a @ p @ b"
  then obtain a b where "s = a @ p @ b" by blast
  then have "length a \<le> length s \<and> take (length p) (drop (length a) s) = p" by simp
  then show "contains s p"
    unfolding contains_def index_of_None not_all by blast
qed

subsection \<open>Trimming\<close>

lemma drop_trailing_simps [simp]:
  "drop_trailing P [] = []"
  "drop_trailing P (xs @ [x]) = (if P x then drop_trailing P xs else xs @ [x])"
  by (simp_all add: drop_trailing_def)

lemma drop_trailing_id: "xs = [] \<or> \<not> P (last xs) \<Longrightarrow> drop_trailing P xs = xs"
  by (cases xs rule: rev_cases) auto

lemma drop_trailing_last: "drop_trailing P xs \<noteq> [] \<Longrightarrow> \<not> P (last (drop_trailing P xs))"
  by (metis drop_trailing_def hd_dropWhile last_rev rev_is_Nil_conv)

lemma drop_trailing_prefix: "\<exists>ys. xs = drop_trailing P xs @ ys \<and> (\<forall>y \<in> set ys. P y)"
proof -
  have "xs = rev (dropWhile P (rev xs)) @ rev (takeWhile P (rev xs))"
    by (metis rev_append rev_rev_ident takeWhile_dropWhile_id)
  moreover have "\<forall>y \<in> set (rev (takeWhile P (rev xs))). P y"
    by (auto dest: set_takeWhileD)
  ultimately show ?thesis unfolding drop_trailing_def by blast
qed

lemma drop_trailing_idem [simp]: "drop_trailing P (drop_trailing P xs) = drop_trailing P xs"
  by (cases "drop_trailing P xs = []") (simp_all add: drop_trailing_id drop_trailing_last)

lemma drop_trailing_all: "\<forall>x \<in> set xs. P x \<Longrightarrow> drop_trailing P xs = []"
  by (simp add: drop_trailing_def dropWhile_eq_Nil_conv)

lemma drop_trailing_append_all:
  "\<forall>y \<in> set ys. P y \<Longrightarrow> drop_trailing P (xs @ ys) = drop_trailing P xs"
  by (induction ys rule: rev_induct) (auto simp flip: append_assoc)

lemma hd_drop_trailing: "drop_trailing P xs \<noteq> [] \<Longrightarrow> hd (drop_trailing P xs) = hd xs"
  by (metis append_is_Nil_conv drop_trailing_prefix hd_append2)

text \<open>A string is trimmed when white space is neither first nor last.\<close>

definition trimmed :: "string \<Rightarrow> bool" where
  "trimmed s \<longleftrightarrow> s = [] \<or> (\<not> is_space (hd s) \<and> \<not> is_space (last s))"

lemma trimmed_Nil [simp]: "trimmed []"
  by (simp add: trimmed_def)

lemma trimmed_trim [simp]: "trimmed (trim s)"
proof (cases "trim s = []")
  case True
  then show ?thesis by simp
next
  case False
  then have ne: "dropWhile is_space s \<noteq> []"
    by (metis drop_trailing_simps(1) trim_def trim_end_def trim_start_def)
  have "hd (trim s) = hd (dropWhile is_space s)"
    using False by (simp add: trim_def trim_end_def trim_start_def hd_drop_trailing)
  then have "\<not> is_space (hd (trim s))" using ne by (simp add: hd_dropWhile)
  moreover have "\<not> is_space (last (trim s))"
    using False by (simp add: trim_def trim_end_def drop_trailing_last)
  ultimately show ?thesis by (simp add: trimmed_def)
qed

lemma trim_trimmed: "trimmed s \<Longrightarrow> trim s = s"
  by (cases s) (auto simp: trimmed_def trim_def trim_end_def trim_start_def drop_trailing_id)

lemma trim_idem [simp]: "trim (trim s) = trim s"
  by (rule trim_trimmed) (rule trimmed_trim)

lemma trim_Nil [simp]: "trim [] = []"
  by (simp add: trim_trimmed)

lemma trim_eq_Nil: "trim s = [] \<longleftrightarrow> (\<forall>c \<in> set s. is_space c)"
proof
  assume "trim s = []"
  then have "\<forall>c \<in> set (dropWhile is_space s). is_space c"
    using drop_trailing_prefix [of "dropWhile is_space s" is_space]
    by (auto simp: trim_def trim_end_def trim_start_def)
  then have "dropWhile is_space s = []"
    by (metis hd_dropWhile hd_in_set)
  then show "\<forall>c \<in> set s. is_space c" by (simp add: dropWhile_eq_Nil_conv)
next
  assume "\<forall>c \<in> set s. is_space c"
  then have "dropWhile is_space s = []" by (simp add: dropWhile_eq_Nil_conv)
  then show "trim s = []"
    unfolding trim_def trim_end_def trim_start_def by (simp only: drop_trailing_simps)
qed

section \<open>Splitting and joining\<close>

fun split_on :: "'a \<Rightarrow> 'a list \<Rightarrow> 'a list list" where
  "split_on c [] = [[]]"
| "split_on c (x # xs) =
     (if x = c then [] # split_on c xs
      else (case split_on c xs of [] \<Rightarrow> [[x]] | y # ys \<Rightarrow> (x # y) # ys))"

fun join_with :: "'a list \<Rightarrow> 'a list list \<Rightarrow> 'a list" where
  "join_with sep [] = []"
| "join_with sep [x] = x"
| "join_with sep (x # y # ys) = x @ sep @ join_with sep (y # ys)"

lemma split_on_ne [simp]: "split_on c s \<noteq> []"
  by (induction s) (auto split: list.splits)

lemma join_with_Cons: "ys \<noteq> [] \<Longrightarrow> join_with sep (x # ys) = x @ sep @ join_with sep ys"
  by (cases ys) auto

lemma join_with_append:
  "xs \<noteq> [] \<Longrightarrow> ys \<noteq> [] \<Longrightarrow> join_with sep (xs @ ys) = join_with sep xs @ sep @ join_with sep ys"
  by (induction xs rule: induct_list012) (auto simp: join_with_Cons)

lemma join_split [simp]: "join_with [c] (split_on c s) = s"
proof (induction s)
  case Nil
  then show ?case by simp
next
  case (Cons x s)
  obtain y ys where "split_on c s = y # ys" by (cases "split_on c s") auto
  with Cons show ?case by (cases ys) (auto simp: join_with_Cons)
qed

lemma split_on_notin: "c \<notin> set s \<Longrightarrow> split_on c s = [s]"
  by (induction s) auto

lemma split_on_append:
  "c \<notin> set s \<Longrightarrow> split_on c (s @ c # t) = s # split_on c t"
  by (induction s) auto

lemma split_on_join:
  "xs \<noteq> [] \<Longrightarrow> \<forall>x \<in> set xs. c \<notin> set x \<Longrightarrow> split_on c (join_with [c] xs) = xs"
  by (induction xs rule: induct_list012) (auto simp: split_on_append split_on_notin)

lemma split_on_parts: "x \<in> set (split_on c s) \<Longrightarrow> c \<notin> set x"
  by (induction s arbitrary: x) (auto split: list.splits if_splits)

lemma split_on_hd_last:
  "split_on c (s @ t) =
     butlast (split_on c s) @ (last (split_on c s) @ hd (split_on c t)) # tl (split_on c t)"
proof (induction s)
  case Nil
  show ?case by (cases "split_on c t") auto
next
  case (Cons x s)
  obtain y ys where "split_on c s = y # ys" by (cases "split_on c s") auto
  with Cons show ?case by (cases ys) auto
qed

text \<open>\<open>split\<close> is injective: two texts with the same parts are the same text.\<close>

lemma split_on_inject: "split_on c s = split_on c t \<longleftrightarrow> s = t"
  by (metis join_split)

section \<open>Arrays\<close>

text \<open>\<open>[...new Set(xs)]\<close>: first occurrences, in order.\<close>

fun uniq :: "'a list \<Rightarrow> 'a list" where
  "uniq [] = []"
| "uniq (x # xs) = x # filter (\<lambda>y. y \<noteq> x) (uniq xs)"

lemma set_uniq [simp]: "set (uniq xs) = set xs"
  by (induction xs) auto

lemma distinct_uniq [simp]: "distinct (uniq xs)"
  by (induction xs) auto

lemma uniq_distinct: "distinct xs \<Longrightarrow> uniq xs = xs"
  by (induction xs) (auto simp: filter_id_conv)

subsection \<open>Sorting with a comparator\<close>

fun js_insert :: "('a \<Rightarrow> 'a \<Rightarrow> int) \<Rightarrow> 'a \<Rightarrow> 'a list \<Rightarrow> 'a list" where
  "js_insert cmp x [] = [x]"
| "js_insert cmp x (y # ys) = (if cmp x y \<le> 0 then x # y # ys else y # js_insert cmp x ys)"

fun js_sort :: "('a \<Rightarrow> 'a \<Rightarrow> int) \<Rightarrow> 'a list \<Rightarrow> 'a list" where
  "js_sort cmp [] = []"
| "js_sort cmp (x # xs) = js_insert cmp x (js_sort cmp xs)"

text \<open>JavaScript's \<open>a || b\<close> on the results of two comparators.\<close>

definition cmp_or :: "int \<Rightarrow> int \<Rightarrow> int" where
  "cmp_or a b = (if a \<noteq> 0 then a else b)"

text \<open>\<open>a < b ? -1 : a > b ? 1 : 0\<close>, the comparison of strings by code unit.\<close>

definition code_unit_cmp :: "string \<Rightarrow> string \<Rightarrow> int" where
  "code_unit_cmp a b = (if a < b then -1 else if b < a then 1 else 0)"

lemma mset_js_insert: "mset (js_insert cmp x xs) = add_mset x (mset xs)"
  by (induction xs) auto

lemma mset_js_sort [sort_simps]: "mset (js_sort cmp xs) = mset xs"
  by (induction xs) (auto simp: mset_js_insert)

lemma set_js_sort [simp, sort_simps]: "set (js_sort cmp xs) = set xs"
  by (metis mset_js_sort set_mset_mset)

lemma length_js_sort [simp, sort_simps]: "length (js_sort cmp xs) = length xs"
  by (metis mset_js_sort size_mset)

lemma distinct_js_sort [sort_simps]: "distinct (js_sort cmp xs) = distinct xs"
  by (metis mset_eq_imp_distinct_iff mset_js_sort)

lemma js_sort_eq_Nil [simp]: "js_sort cmp xs = [] \<longleftrightarrow> xs = []"
  by (metis length_0_conv length_js_sort)

lemma find_sound: "find P xs = Some x \<Longrightarrow> x \<in> set xs \<and> P x"
  by (auto simp: find_Some_iff)

lemma list_Nil_iff: "xs = [] \<longleftrightarrow> (\<forall>x. x \<notin> set xs)"
  by (cases xs) auto

lemma sort_key_eq_Nil [simp, sort_simps]: "sort_key f xs = [] \<longleftrightarrow> xs = []"
  using length_sort [of f xs] by (metis length_0_conv)

locale comparator =
  fixes cmp :: "'a \<Rightarrow> 'a \<Rightarrow> int"
  assumes cmp_swap: "cmp x y < 0 \<longleftrightarrow> 0 < cmp y x"
    and cmp_trans: "cmp x y \<le> 0 \<Longrightarrow> cmp y z \<le> 0 \<Longrightarrow> cmp x z \<le> 0"
begin

lemma cmp_refl [simp]: "cmp x x = 0"
  using cmp_swap [of x x] by auto

lemma cmp_zero_sym: "cmp x y = 0 \<longleftrightarrow> cmp y x = 0"
  using cmp_swap [of x y] cmp_swap [of y x] by auto

lemma cmp_le_swap: "\<not> cmp x y \<le> 0 \<Longrightarrow> cmp y x \<le> 0"
  using cmp_swap [of y x] by auto

lemma sorted_js_insert:
  "sorted_wrt (\<lambda>x y. cmp x y \<le> 0) xs \<Longrightarrow> sorted_wrt (\<lambda>x y. cmp x y \<le> 0) (js_insert cmp x xs)"
proof (induction xs)
  case Nil
  then show ?case by simp
next
  case (Cons y ys)
  have set_ins: "set (js_insert cmp x ys) = insert x (set ys)"
    by (metis mset_js_insert set_mset_add_mset_insert set_mset_mset)
  show ?case
  proof (cases "cmp x y \<le> 0")
    case True
    with Cons.prems show ?thesis by (auto intro: cmp_trans [of x y])
  next
    case False
    then have "cmp y x \<le> 0" by (rule cmp_le_swap)
    with False Cons set_ins show ?thesis by auto
  qed
qed

lemma sorted_js_sort: "sorted_wrt (\<lambda>x y. cmp x y \<le> 0) (js_sort cmp xs)"
  by (induction xs) (auto simp: sorted_js_insert)

lemma js_insert_front: "\<forall>y \<in> set ys. cmp x y \<le> 0 \<Longrightarrow> js_insert cmp x ys = x # ys"
  by (cases ys) auto

lemma js_sort_sorted: "sorted_wrt (\<lambda>x y. cmp x y \<le> 0) xs \<Longrightarrow> js_sort cmp xs = xs"
  by (induction xs) (auto simp: js_insert_front)

lemma js_sort_idem [simp]: "js_sort cmp (js_sort cmp xs) = js_sort cmp xs"
  by (rule js_sort_sorted) (rule sorted_js_sort)

lemma filter_js_insert_skip: "\<not> P x \<Longrightarrow> filter P (js_insert cmp x xs) = filter P xs"
  by (induction xs) auto

lemma filter_js_insert_eq:
  "cmp z x = 0 \<Longrightarrow>
     filter (\<lambda>y. cmp z y = 0) (js_insert cmp x xs) = x # filter (\<lambda>y. cmp z y = 0) xs"
proof (induction xs)
  case Nil
  then show ?case by simp
next
  case (Cons y ys)
  show ?case
  proof (cases "cmp x y \<le> 0")
    case True
    with Cons show ?thesis by simp
  next
    case False
    have "cmp z y \<noteq> 0"
    proof
      assume "cmp z y = 0"
      with Cons.prems have "cmp x z \<le> 0" and "cmp z y \<le> 0"
        using cmp_zero_sym [of x z] by simp_all
      then have "cmp x y \<le> 0" by (rule cmp_trans)
      with False show False by simp
    qed
    with False Cons show ?thesis by simp
  qed
qed

text \<open>Stability: elements the comparator does not tell apart keep their order.\<close>

lemma js_sort_stable:
  "filter (\<lambda>y. cmp z y = 0) (js_sort cmp xs) = filter (\<lambda>y. cmp z y = 0) xs"
proof (induction xs)
  case Nil
  then show ?case by simp
next
  case (Cons x xs)
  then show ?case
    by (cases "cmp z x = 0") (simp_all add: filter_js_insert_eq filter_js_insert_skip)
qed

text \<open>
  Where the comparator separates the elements of a list, the order it started in does not
  matter: the sorted list is the same.
\<close>

lemma sorted_unique:
  assumes "mset xs = mset ys"
    and "sorted_wrt (\<lambda>x y. cmp x y \<le> 0) xs" "sorted_wrt (\<lambda>x y. cmp x y \<le> 0) ys"
    and sep: "\<forall>x \<in> set xs. \<forall>y \<in> set xs. cmp x y = 0 \<longrightarrow> x = y"
  shows "xs = ys"
  using assms
proof (induction xs arbitrary: ys)
  case Nil
  then show ?case by simp
next
  case (Cons x xs)
  then obtain y ys' where ys: "ys = y # ys'" by (cases ys) auto
  have same: "set (x # xs) = set ys" using Cons.prems(1) by (metis set_mset_mset)
  have "x = y"
  proof (rule ccontr)
    assume ne: "x \<noteq> y"
    from same ys have y_in: "y \<in> set (x # xs)" by simp
    from same have x_in: "x \<in> set ys" by auto
    from ne y_in Cons.prems(2) have "cmp x y \<le> 0" by auto
    moreover from ne x_in ys Cons.prems(3) have "cmp y x \<le> 0" by auto
    ultimately have "cmp x y = 0" using cmp_swap [of x y] cmp_swap [of y x] by linarith
    with Cons.prems(4) y_in ne show False by auto
  qed
  moreover have "xs = ys'"
    using Cons.prems ys \<open>x = y\<close> by (intro Cons.IH) auto
  ultimately show ?case by (simp add: ys)
qed

lemma js_sort_perm:
  assumes "mset xs = mset ys" "\<forall>x \<in> set xs. \<forall>y \<in> set xs. cmp x y = 0 \<longrightarrow> x = y"
  shows "js_sort cmp xs = js_sort cmp ys"
  using assms by (intro sorted_unique) (auto simp: sort_simps sorted_js_sort)

end

text \<open>A comparator that tells every two different elements apart.\<close>

locale strict_comparator = comparator +
  assumes cmp_eq: "cmp x y = 0 \<Longrightarrow> x = y"
begin

lemma js_sort_cong: "mset xs = mset ys \<Longrightarrow> js_sort cmp xs = js_sort cmp ys"
  by (rule js_sort_perm) (auto dest: cmp_eq)

end

interpretation cu: strict_comparator code_unit_cmp
  by unfold_locales (auto simp: code_unit_cmp_def split: if_splits)

text \<open>Consistency survives the ways the code builds comparators.\<close>

lemma comparator_key: "comparator c \<Longrightarrow> comparator (\<lambda>x y. c (f x) (f y))"
  unfolding comparator_def by blast

lemma comparator_int_key: "comparator (\<lambda>x y. (f x :: int) - f y)"
  by unfold_locales auto

lemma comparator_int_key_desc: "comparator (\<lambda>x y. (f y :: int) - f x)"
  by unfold_locales auto

lemma comparator_cmp_or:
  assumes "comparator c" and "comparator d"
  shows "comparator (\<lambda>x y. cmp_or (c x y) (d x y))"
proof -
  note cs = comparator.cmp_swap [OF assms(1)] comparator.cmp_trans [OF assms(1)]
    comparator.cmp_zero_sym [OF assms(1)]
  note ds = comparator.cmp_swap [OF assms(2)] comparator.cmp_trans [OF assms(2)]
  show ?thesis
  proof
    fix x y
    show "cmp_or (c x y) (d x y) < 0 \<longleftrightarrow> 0 < cmp_or (c y x) (d y x)"
      using cs(1) [of x y] cs(3) [of x y] ds(1) [of x y] by (auto simp: cmp_or_def)
  next
    fix x y z
    assume xy: "cmp_or (c x y) (d x y) \<le> 0" and yz: "cmp_or (c y z) (d y z) \<le> 0"
    have "c x y \<le> 0" and "c y z \<le> 0" using xy yz by (auto simp: cmp_or_def split: if_splits)
    then have xz: "c x z \<le> 0" by (rule cs(2))
    show "cmp_or (c x z) (d x z) \<le> 0"
    proof (cases "c x z = 0")
      case False
      with xz show ?thesis by (simp add: cmp_or_def)
    next
      case True
      then have "c z x \<le> 0" using cs(3) [of x z] by simp
      then have "c z y \<le> 0" "c y x \<le> 0"
        using cs(2) \<open>c x y \<le> 0\<close> \<open>c y z \<le> 0\<close> by blast+
      then have "c x y = 0" "c y z = 0"
        using \<open>c x y \<le> 0\<close> \<open>c y z \<le> 0\<close> cs(1) [of x y] cs(1) [of y z] by linarith+
      with xy yz have "d x z \<le> 0" by (auto simp: cmp_or_def intro: ds(2))
      with True show ?thesis by (simp add: cmp_or_def)
    qed
  qed
qed

section \<open>Numbers as text\<close>

fun show_nat :: "nat \<Rightarrow> string" where
  "show_nat n = (if n < 10 then [char_of (48 + n)] else show_nat (n div 10) @ [char_of (48 + n mod 10)])"

declare show_nat.simps [simp del]

definition show_int :: "int \<Rightarrow> string" where
  "show_int i = (if i < 0 then CHR ''-'' # show_nat (nat (- i)) else show_nat (nat i))"

definition digits_value :: "string \<Rightarrow> nat" where
  "digits_value s = foldl (\<lambda>n c. 10 * n + (code c - 48)) 0 s"

lemma show_nat_ne [simp]: "show_nat n \<noteq> []"
  by (subst show_nat.simps) simp

lemma show_nat_digits: "c \<in> set (show_nat n) \<Longrightarrow> is_digit c"
proof (induction n rule: show_nat.induct)
  case (1 n)
  then show ?case
    by (subst (asm) show_nat.simps) (auto simp: is_digit_def split: if_splits)
qed

lemma digits_value_snoc [simp]: "digits_value (s @ [c]) = 10 * digits_value s + (code c - 48)"
  by (simp add: digits_value_def)

lemma digits_value_show_nat [simp]: "digits_value (show_nat n) = n"
proof (induction n rule: show_nat.induct)
  case (1 n)
  show ?case
  proof (cases "n < 10")
    case True
    then show ?thesis by (subst show_nat.simps) (simp add: digits_value_def)
  next
    case False
    with 1 have "digits_value (show_nat (n div 10)) = n div 10" by simp
    with False show ?thesis by (subst show_nat.simps) simp
  qed
qed

section \<open>Slugs\<close>

text \<open>
  The three slug makers of the program share two regular expressions: runs of characters
  outside \<open>[a-z0-9]\<close> become one dash, and dashes at the ends are dropped.
\<close>

abbreviation DASH :: char where "DASH \<equiv> CHR ''-''"

definition is_slug_char :: "char \<Rightarrow> bool" where
  "is_slug_char c \<longleftrightarrow> is_lower c \<or> is_digit c"

lemma length_dropWhile_less [termination_simp]: "length (dropWhile P xs) < Suc (length xs)"
  by (simp add: le_imp_less_Suc length_dropWhile_le)

fun dash_runs :: "string \<Rightarrow> string" where
  "dash_runs [] = []"
| "dash_runs (c # cs) =
     (if is_slug_char c then c # dash_runs cs
      else DASH # dash_runs (dropWhile (\<lambda>d. \<not> is_slug_char d) cs))"

definition strip_dashes :: "string \<Rightarrow> string" where
  "strip_dashes s = drop_trailing (\<lambda>c. c = DASH) (dropWhile (\<lambda>c. c = DASH) s)"

lemma set_dash_runs: "c \<in> set (dash_runs s) \<Longrightarrow> is_slug_char c \<or> c = DASH"
  by (induction s rule: dash_runs.induct) (auto split: if_splits)

lemma set_drop_trailing: "set (drop_trailing P xs) \<subseteq> set xs"
  by (metis Un_upper1 drop_trailing_prefix set_append)

lemma set_strip_dashes: "set (strip_dashes s) \<subseteq> set s"
  unfolding strip_dashes_def by (meson set_drop_trailing set_dropWhileD subset_iff)

lemma not_slug_char_DASH [simp]: "\<not> is_slug_char DASH"
  by (simp add: is_slug_char_def is_lower_def is_digit_def)

lemma dash_runs_slug: "\<forall>c \<in> set s. is_slug_char c \<Longrightarrow> dash_runs s = s"
  by (induction s rule: dash_runs.induct) auto

lemma strip_dashes_ends:
  "strip_dashes s \<noteq> [] \<Longrightarrow> hd (strip_dashes s) \<noteq> DASH \<and> last (strip_dashes s) \<noteq> DASH"
proof -
  assume ne: "strip_dashes s \<noteq> []"
  then have "hd (strip_dashes s) = hd (dropWhile (\<lambda>c. c = DASH) s)"
    unfolding strip_dashes_def by (rule hd_drop_trailing)
  moreover have "dropWhile (\<lambda>c. c = DASH) s \<noteq> []"
    using ne unfolding strip_dashes_def by (metis drop_trailing_simps(1))
  ultimately show ?thesis
    using ne drop_trailing_last [of "\<lambda>c. c = DASH"] hd_dropWhile
    by (metis (full_types) strip_dashes_def)
qed

section \<open>Objects\<close>

text \<open>
  An object is the list of its own enumerable string-keyed properties in the order
  \<open>Object.entries\<close> gives them: array-index keys ascending, then the others in the order they
  were created.  An assignment \<open>o[k] = v\<close> to the key \<open>__proto__\<close> creates no own property
  (it calls the inherited setter), while a spread or \<open>Object.fromEntries\<close> does.
\<close>

type_synonym 'v obj = "(string \<times> 'v) list"

definition is_array_index :: "string \<Rightarrow> bool" where
  "is_array_index k \<longleftrightarrow>
     k \<noteq> [] \<and> (\<forall>c \<in> set k. is_digit c) \<and> (hd k = CHR ''0'' \<longrightarrow> k = ''0'')
     \<and> digits_value k < 4294967295"

definition before_key :: "string \<Rightarrow> string \<times> 'v \<Rightarrow> bool" where
  "before_key k e \<longleftrightarrow> is_array_index (fst e) \<and> digits_value (fst e) < digits_value k"

definition obj_define :: "string \<Rightarrow> 'v \<Rightarrow> 'v obj \<Rightarrow> 'v obj" where
  "obj_define k v ob =
     (if k \<in> fst ` set ob then AList.update k v ob
      else if is_array_index k
      then takeWhile (before_key k) ob @ (k, v) # dropWhile (before_key k) ob
      else ob @ [(k, v)])"

definition obj_set :: "string \<Rightarrow> 'v \<Rightarrow> 'v obj \<Rightarrow> 'v obj" where
  "obj_set k v ob = (if k = ''__proto__'' then ob else obj_define k v ob)"

definition obj_delete :: "string \<Rightarrow> 'v obj \<Rightarrow> 'v obj" where
  "obj_delete k ob = filter (\<lambda>e. fst e \<noteq> k) ob"

definition obj_spread :: "'v obj \<Rightarrow> 'v obj \<Rightarrow> 'v obj" where
  "obj_spread ob new = foldl (\<lambda>acc e. obj_define (fst e) (snd e) acc) ob new"

abbreviation keys_of :: "'v obj \<Rightarrow> string list" where
  "keys_of ob \<equiv> map fst ob"

text \<open>The names every object inherits, which the operator \<open>in\<close> also finds.\<close>

definition object_prototype_keys :: "string list" where
  "object_prototype_keys =
     [''constructor'', ''__defineGetter__'', ''__defineSetter__'', ''hasOwnProperty'',
      ''__lookupGetter__'', ''__lookupSetter__'', ''isPrototypeOf'', ''propertyIsEnumerable'',
      ''toString'', ''valueOf'', ''__proto__'', ''toLocaleString'']"

definition obj_in :: "string \<Rightarrow> 'v obj \<Rightarrow> bool" where
  "obj_in k ob \<longleftrightarrow> k \<in> set (keys_of ob) \<or> k \<in> set object_prototype_keys"

lemma map_of_insert_middle:
  "k \<notin> fst ` set xs \<Longrightarrow> map_of (xs @ (k, v) # ys) = (map_of (xs @ ys))(k \<mapsto> v)"
  by (induction xs) auto

lemma map_of_obj_define [simp]: "map_of (obj_define k v ob) = (map_of ob)(k \<mapsto> v)"
proof (cases "k \<in> fst ` set ob")
  case True
  then show ?thesis by (simp add: obj_define_def update_conv')
next
  case False
  then have "k \<notin> fst ` set (takeWhile (before_key k) ob)" by (auto dest: set_takeWhileD)
  from map_of_insert_middle [OF this, of v "dropWhile (before_key k) ob"]
    map_of_insert_middle [OF False, of v "[]"] False
  show ?thesis by (simp add: obj_define_def)
qed

lemma keys_obj_define: "set (keys_of (obj_define k v ob)) = insert k (set (keys_of ob))"
  by (metis dom_fun_upd dom_map_of_conv_image_fst list.set_map map_of_obj_define option.distinct(1))

lemma distinct_obj_define:
  "distinct (keys_of ob) \<Longrightarrow> distinct (keys_of (obj_define k v ob))"
proof -
  assume d: "distinct (keys_of ob)"
  show ?thesis
  proof (cases "k \<in> fst ` set ob")
    case True
    with d show ?thesis by (simp add: obj_define_def distinct_update)
  next
    case False
    let ?t = "takeWhile (before_key k) ob" and ?d = "dropWhile (before_key k) ob"
    have "keys_of ?t @ keys_of ?d = keys_of ob" by (metis map_append takeWhile_dropWhile_id)
    with d have "distinct (keys_of ?t @ keys_of ?d)" by metis
    moreover have "k \<notin> set (keys_of ?t)" "k \<notin> set (keys_of ?d)"
      using False by (auto dest: set_takeWhileD set_dropWhileD)
    ultimately have "distinct (keys_of ?t @ k # keys_of ?d)" by auto
    with False d show ?thesis by (simp add: obj_define_def)
  qed
qed

lemma map_of_obj_set:
  "map_of (obj_set k v ob) = (if k = ''__proto__'' then map_of ob else (map_of ob)(k \<mapsto> v))"
  by (simp add: obj_set_def)

lemma distinct_obj_set: "distinct (keys_of ob) \<Longrightarrow> distinct (keys_of (obj_set k v ob))"
  by (simp add: obj_set_def distinct_obj_define)

lemma map_of_obj_delete [simp]: "map_of (obj_delete k ob) = (map_of ob)(k := None)"
  by (induction ob) (auto simp: obj_delete_def)

lemma distinct_obj_delete: "distinct (keys_of ob) \<Longrightarrow> distinct (keys_of (obj_delete k ob))"
  by (induction ob) (auto simp: obj_delete_def)

lemma map_of_obj_spread: "map_of (obj_spread ob new) = map_of ob ++ map_of (rev new)"
  by (induction new arbitrary: ob)
     (auto simp: obj_spread_def map_add_def fun_eq_iff map_of_append split: option.splits)

lemma distinct_obj_spread:
  "distinct (keys_of ob) \<Longrightarrow> distinct (keys_of (obj_spread ob new))"
  by (induction new arbitrary: ob) (auto simp: obj_spread_def distinct_obj_define)

lemma obj_define_append:
  "k \<notin> set (keys_of ob) \<Longrightarrow> \<not> is_array_index k \<Longrightarrow> obj_define k v ob = ob @ [(k, v)]"
  by (auto simp: obj_define_def)

subsection \<open>Enumeration order\<close>

text \<open>
  An object lists its own properties in the order a spread into an empty one recreates; every
  operation on objects keeps that.
\<close>

definition js_object :: "'v obj \<Rightarrow> bool" where
  "js_object ob \<longleftrightarrow> distinct (keys_of ob) \<and> obj_spread [] ob = ob"

lemma code_digit: "is_digit c \<Longrightarrow> char_of (48 + (code c - 48)) = c"
  by (simp add: is_digit_def)

text \<open>A numeral without leading zeros is what its value prints as.\<close>

lemma show_digits_value:
  "k \<noteq> [] \<Longrightarrow> \<forall>c \<in> set k. is_digit c \<Longrightarrow> hd k = CHR ''0'' \<longrightarrow> k = ''0'' \<Longrightarrow> show_nat (digits_value k) = k"
proof (induction k rule: rev_induct)
  case Nil
  then show ?case by simp
next
  case (snoc c xs)
  from snoc.prems have c: "is_digit c" by simp
  then have small: "code c - 48 < 10" by (auto simp: is_digit_def)
  show ?case
  proof (cases "xs = []")
    case True
    with c small show ?thesis by (subst show_nat.simps) (simp add: digits_value_def code_digit)
  next
    case False
    with snoc.prems have hd: "hd xs \<noteq> CHR ''0''" by (cases xs) auto
    with snoc False have ih: "show_nat (digits_value xs) = xs" by simp
    have "digits_value xs \<noteq> 0"
    proof
      assume "digits_value xs = 0"
      with ih have "xs = show_nat 0" by simp
      moreover have "char_of (48 :: nat) = CHR ''0''" using code_digit [of "CHR ''0''"] by (simp add: is_digit_def)
      ultimately have "xs = ''0''" by (subst (asm) show_nat.simps) simp
      with hd show False by simp
    qed
    with small have "(10 * digits_value xs + (code c - 48)) div 10 = digits_value xs"
      "(10 * digits_value xs + (code c - 48)) mod 10 = code c - 48" "\<not> 10 * digits_value xs + (code c - 48) < 10"
      by auto
    then show ?thesis using ih code_digit [OF c] by (subst show_nat.simps) simp
  qed
qed

lemma array_index_inj:
  "is_array_index j \<Longrightarrow> is_array_index k \<Longrightarrow> digits_value j = digits_value k \<Longrightarrow> j = k"
  unfolding is_array_index_def by (metis show_digits_value)

text \<open>The shape of such a list: array indexes ascending, then the other keys.\<close>

definition index_before :: "string \<times> 'v \<Rightarrow> string \<times> 'v \<Rightarrow> bool" where
  "index_before a b \<longleftrightarrow> (is_array_index (fst b) \<longrightarrow> is_array_index (fst a) \<and> digits_value (fst a) < digits_value (fst b))"

definition enumerated :: "'v obj \<Rightarrow> bool" where
  "enumerated ob \<longleftrightarrow> distinct (keys_of ob) \<and> sorted_wrt index_before ob"

lemma before_key_index: "is_array_index (fst e) \<Longrightarrow> index_before a e \<longleftrightarrow> before_key (fst e) a"
  by (auto simp: index_before_def before_key_def)

lemma enumerated_snoc:
  "enumerated (ob @ [(k, v)]) \<Longrightarrow> obj_define k v ob = ob @ [(k, v)]"
proof -
  assume e: "enumerated (ob @ [(k, v)])"
  then have fresh: "k \<notin> set (keys_of ob)" and s: "\<forall>a \<in> set ob. index_before a (k, v)"
    by (auto simp: enumerated_def sorted_wrt_append)
  show ?thesis
  proof (cases "is_array_index k")
    case False
    with fresh show ?thesis by (rule obj_define_append)
  next
    case True
    with s have "\<forall>a \<in> set ob. before_key k a" using before_key_index [of "(k, v)"] by auto
    then have "takeWhile (before_key k) ob = ob" "dropWhile (before_key k) ob = []" by simp_all
    with fresh True show ?thesis by (auto simp: obj_define_def)
  qed
qed

lemma enumerated_append: "enumerated (xs @ ys) \<Longrightarrow> enumerated xs"
  by (auto simp: enumerated_def sorted_wrt_append)

lemma enumerated_spread: "enumerated ob \<Longrightarrow> obj_spread [] ob = ob"
proof (induction ob rule: rev_induct)
  case Nil
  then show ?case by (simp add: obj_spread_def)
next
  case (snoc e ob)
  then have "obj_spread [] ob = ob" using enumerated_append by blast
  with enumerated_snoc [of ob "fst e" "snd e"] snoc.prems show ?case by (simp add: obj_spread_def)
qed

lemma enumerated_js_object: "enumerated ob \<Longrightarrow> js_object ob"
  using enumerated_spread by (auto simp: js_object_def enumerated_def)

lemma index_before_keys:
  "(\<forall>z \<in> set zs. index_before w z) \<longleftrightarrow>
     (\<forall>k \<in> set (keys_of zs). is_array_index k \<longrightarrow> is_array_index (fst w) \<and> digits_value (fst w) < digits_value k)"
  by (auto simp: index_before_def)

lemma sorted_wrt_same_keys:
  "keys_of xs = keys_of ys \<Longrightarrow> sorted_wrt index_before xs \<longleftrightarrow> sorted_wrt index_before ys"
proof (induction xs arbitrary: ys)
  case Nil
  then show ?case by simp
next
  case (Cons x xs)
  then obtain y ys' where ys: "ys = y # ys'" "fst x = fst y" "keys_of xs = keys_of ys'" by (cases ys) auto
  then have "(\<forall>z \<in> set xs. index_before x z) \<longleftrightarrow> (\<forall>z \<in> set ys'. index_before y z)"
    unfolding index_before_keys by simp
  with Cons.IH [OF ys(3)] ys(1) show ?case by simp
qed

lemma keys_update_mem: "k \<in> fst ` set ob \<Longrightarrow> keys_of (AList.update k v ob) = keys_of ob"
  by (induction ob) auto

lemma enumerated_define: "enumerated ob \<Longrightarrow> enumerated (obj_define k v ob)"
proof -
  assume e: "enumerated ob"
  then have d: "distinct (keys_of (obj_define k v ob))" by (simp add: enumerated_def distinct_obj_define)
  have s: "sorted_wrt index_before ob" using e by (simp add: enumerated_def)
  have "sorted_wrt index_before (obj_define k v ob)"
  proof (cases "k \<in> fst ` set ob")
    case True
    then have "obj_define k v ob = AList.update k v ob" by (simp add: obj_define_def)
    with sorted_wrt_same_keys [OF keys_update_mem [OF True, of v]] s show ?thesis by simp
  next
    case fresh: False
    show ?thesis
    proof (cases "is_array_index k")
      case False
      with fresh have "obj_define k v ob = ob @ [(k, v)]" by (intro obj_define_append) auto
      with False s show ?thesis by (simp add: sorted_wrt_append index_before_def)
    next
      case True
      let ?t = "takeWhile (before_key k) ob" and ?d = "dropWhile (before_key k) ob"
      have ob: "ob = ?t @ ?d" by simp
      with s have td: "sorted_wrt index_before ?t" "sorted_wrt index_before ?d"
        "\<forall>a \<in> set ?t. \<forall>b \<in> set ?d. index_before a b" by (metis sorted_wrt_append)+
      have "\<forall>a \<in> set ?t. index_before a (k, v)"
        using True by (auto simp: index_before_def before_key_def dest: set_takeWhileD)
      moreover have "\<forall>b \<in> set ?d. index_before (k, v) b"
      proof (cases ?d)
        case Nil
        then show ?thesis unfolding Nil by simp
      next
        case (Cons h r)
        have "\<not> before_key k h" using Cons by (metis hd_dropWhile list.distinct(1) list.sel(1))
        have h: "fst h \<noteq> k" using fresh Cons set_dropWhileD [of h "before_key k" ob] by (metis image_eqI list.set_intros(1))
        have hk: "index_before (k, v) h"
        proof (cases "is_array_index (fst h)")
          case ix: True
          with \<open>\<not> before_key k h\<close> have "digits_value k \<le> digits_value (fst h)" by (auto simp: before_key_def)
          moreover have "digits_value k \<noteq> digits_value (fst h)" using array_index_inj [OF True ix] h by auto
          ultimately show ?thesis using True by (simp add: index_before_def)
        qed (simp add: index_before_def)
        have "index_before (k, v) b" if "b \<in> set r" for b
        proof (cases "is_array_index (fst b)")
          case ib: True
          from td(2) Cons that have "index_before h b" by simp
          with ib hk show ?thesis by (auto simp: index_before_def)
        qed (simp add: index_before_def)
        with hk show ?thesis unfolding Cons by simp
      qed
      ultimately have "sorted_wrt index_before (?t @ (k, v) # ?d)" using td by (auto simp: sorted_wrt_append)
      with fresh True show ?thesis by (auto simp: obj_define_def)
    qed
  qed
  with d show ?thesis by (simp add: enumerated_def)
qed

lemma enumerated_set: "enumerated ob \<Longrightarrow> enumerated (obj_set k v ob)"
  by (simp add: obj_set_def enumerated_define)

lemma enumerated_delete: "enumerated ob \<Longrightarrow> enumerated (obj_delete k ob)"
  by (simp add: enumerated_def distinct_obj_delete) (simp add: obj_delete_def sorted_wrt_filter)

lemma enumerated_spread_into: "enumerated ob \<Longrightarrow> enumerated (obj_spread ob new)"
  by (induction new arbitrary: ob) (simp_all add: obj_spread_def enumerated_define)

lemma enumerated_Nil [simp]: "enumerated []"
  by (simp add: enumerated_def)

lemma map_of_rev_distinct: "distinct (keys_of ob) \<Longrightarrow> map_of (rev ob) = map_of ob"
proof (induction ob)
  case Nil
  then show ?case by simp
next
  case (Cons e ob)
  then have "map_of (rev ob) (fst e) = None" by (simp add: map_of_eq_None_iff)
  with Cons show ?case by (auto simp: map_add_def fun_eq_iff map_of_append split: option.splits)
qed

lemma map_of_spread_self: "distinct (keys_of ob) \<Longrightarrow> map_of (obj_spread [] ob) = map_of ob"
  by (simp add: map_of_obj_spread map_of_rev_distinct)

end
