(* ===== verification/Roles.thy ===== *)
theory Roles
  imports JsPrelude
begin

text \<open>
  Who may do what on a brain: the pure rule of \<open>src/lib/orgs.ts\<close>.  A role is one of four
  tokens ordered by \<open>ROLE_RANK\<close>; \<open>effectiveBrainRole\<close> combines the caller's organization role,
  their explicit grant, the brain's visibility and its read-only flag into the role they hold
  on the brain, or none.  The rule is compared with \<open>access_spec\<close>: the highest of the sources
  that admit the caller, under the lowest ceiling that applies to them.
\<close>

datatype role = Viewer | Editor | Admin | Owner

fun ROLE_RANK :: "role \<Rightarrow> nat" where
  "ROLE_RANK Viewer = 0"
| "ROLE_RANK Editor = 1"
| "ROLE_RANK Admin = 2"
| "ROLE_RANK Owner = 3"

lemma ROLE_RANK_inject [simp]: "ROLE_RANK a = ROLE_RANK b \<longleftrightarrow> a = b"
  by (cases a; cases b) auto

instantiation role :: linorder
begin

definition less_eq_role :: "role \<Rightarrow> role \<Rightarrow> bool" where
  "less_eq_role a b \<longleftrightarrow> ROLE_RANK a \<le> ROLE_RANK b"

definition less_role :: "role \<Rightarrow> role \<Rightarrow> bool" where
  "less_role a b \<longleftrightarrow> ROLE_RANK a < ROLE_RANK b"

instance
  by standard (auto simp: less_eq_role_def less_role_def)

end

lemma role_le [simp]:
  "Viewer \<le> r" "r \<le> Owner" "\<not> Editor \<le> Viewer" "Editor \<le> Admin" "\<not> Admin \<le> Viewer"
  "\<not> Admin \<le> Editor" "\<not> Owner \<le> Viewer" "\<not> Owner \<le> Editor" "\<not> Owner \<le> Admin"
  by (cases r; simp add: less_eq_role_def)+

definition ASSIGNABLE_ROLES :: "role list" where
  "ASSIGNABLE_ROLES = [Viewer, Editor, Admin]"

definition ASSIGNABLE_BRAIN_ROLES :: "role list" where
  "ASSIGNABLE_BRAIN_ROLES = [Viewer, Editor, Admin]"

fun roleLabel :: "role \<Rightarrow> string" where
  "roleLabel Viewer = ''Viewer''"
| "roleLabel Editor = ''Editor''"
| "roleLabel Admin = ''Admin''"
| "roleLabel Owner = ''Owner''"

text \<open>The lower-case token the database stores, which is the TypeScript value itself.\<close>

fun role_token :: "role \<Rightarrow> string" where
  "role_token Viewer = ''viewer''"
| "role_token Editor = ''editor''"
| "role_token Admin = ''admin''"
| "role_token Owner = ''owner''"

definition parseRole :: "string \<Rightarrow> role option" where
  "parseRole input =
     (let t = lower (trim input)
      in find (\<lambda>r. role_token r = t) [Viewer, Editor, Admin, Owner])"

definition roleAtLeast :: "role \<Rightarrow> role \<Rightarrow> bool" where
  "roleAtLeast actual required \<longleftrightarrow> ROLE_RANK actual \<ge> ROLE_RANK required"

definition maxRole :: "role \<Rightarrow> role \<Rightarrow> role" where
  "maxRole a b = (if ROLE_RANK a \<ge> ROLE_RANK b then a else b)"

definition minRole :: "role \<Rightarrow> role \<Rightarrow> role" where
  "minRole a b = (if ROLE_RANK a \<le> ROLE_RANK b then a else b)"

definition GUEST_ROLE_CAP :: role where "GUEST_ROLE_CAP = Editor"

abbreviation is_private :: "string \<Rightarrow> bool" where
  "is_private visibility \<equiv> visibility = ''private''"

definition effectiveBrainRole ::
  "string \<Rightarrow> role option \<Rightarrow> role option \<Rightarrow> bool \<Rightarrow> role option" where
  "effectiveBrainRole visibility orgRole grant readOnly =
     (let r1 = (if orgRole \<noteq> None \<and> \<not> is_private visibility then orgRole else None);
          r2 = (case grant of
                  Some g \<Rightarrow> (case r1 of Some r \<Rightarrow> Some (maxRole r g) | None \<Rightarrow> Some g)
                | None \<Rightarrow> r1);
          r3 = (case r2 of
                  Some r \<Rightarrow> Some (if orgRole = None then minRole r GUEST_ROLE_CAP else r)
                | None \<Rightarrow> None)
      in (case r3 of Some r \<Rightarrow> Some (if readOnly then minRole r Viewer else r) | None \<Rightarrow> None))"

definition stewardsBrain :: "role option \<Rightarrow> bool" where
  "stewardsBrain orgRole = (case orgRole of Some r \<Rightarrow> roleAtLeast r Admin | None \<Rightarrow> False)"

definition sharingAuthority :: "role option \<Rightarrow> role option \<Rightarrow> role option" where
  "sharingAuthority role orgRole =
     (let steward = (if stewardsBrain orgRole then Some Admin else None) in
      case (role, steward) of
        (Some r, Some s) \<Rightarrow> Some (maxRole r s)
      | (Some r, None) \<Rightarrow> Some r
      | (None, s) \<Rightarrow> s)"

datatype access_via = ViaGrant | ViaOrg | ViaGuest

definition accessVia :: "role option \<Rightarrow> role option \<Rightarrow> access_via" where
  "accessVia orgRole grant =
     (if orgRole = None then ViaGuest else if grant \<noteq> None then ViaGrant else ViaOrg)"

datatype role_error = NotAMember role | RoleTooLow role role

definition assertRole :: "role option \<Rightarrow> role option \<Rightarrow> role_error + unit" where
  "assertRole actual required =
     (case required of
        None \<Rightarrow> Inr ()
      | Some q \<Rightarrow>
          (case actual of
             None \<Rightarrow> Inl (NotAMember q)
           | Some a \<Rightarrow> if \<not> roleAtLeast a q then Inl (RoleTooLow q a) else Inr ()))"

lemma roleAtLeast_iff [simp]: "roleAtLeast a b \<longleftrightarrow> b \<le> a"
  by (simp add: roleAtLeast_def less_eq_role_def)

lemma maxRole_max: "maxRole a b = max a b"
  by (auto simp: maxRole_def max_def less_eq_role_def)

lemma minRole_min: "minRole a b = min a b"
  by (auto simp: minRole_def min_def less_eq_role_def)

lemma parseRole_token [simp]: "parseRole (role_token r) = Some r"
  by (cases r) (simp_all add: parseRole_def trim_trimmed trimmed_def is_space_def lower_def
      char_lower_def is_upper_def)

section \<open>The specification of access\<close>

text \<open>
  The sources that admit a caller: membership in the organization of a brain that is not
  private, and an explicit grant.  The ceilings: a guest never exceeds editor, and nobody
  exceeds viewer on a read-only brain.
\<close>

definition access_sources :: "string \<Rightarrow> role option \<Rightarrow> role option \<Rightarrow> role set" where
  "access_sources visibility orgRole grant =
     (if is_private visibility then {} else set_option orgRole) \<union> set_option grant"

definition access_ceiling :: "role option \<Rightarrow> bool \<Rightarrow> role" where
  "access_ceiling orgRole readOnly =
     min (if orgRole = None then Editor else Owner) (if readOnly then Viewer else Owner)"

definition access_spec :: "string \<Rightarrow> role option \<Rightarrow> role option \<Rightarrow> bool \<Rightarrow> role option" where
  "access_spec visibility orgRole grant readOnly =
     (let S = access_sources visibility orgRole grant
      in if S = {} then None else Some (min (Max S) (access_ceiling orgRole readOnly)))"

text \<open>
  C14.  \<open>effectiveBrainRole\<close> implements the access specification: a caller holds no role exactly
  when no source admits them, and otherwise the highest of their sources cut down to the
  lowest ceiling that applies (guest: editor; read-only brain: viewer).
\<close>

theorem effectiveBrainRole_refines_spec:
  "effectiveBrainRole visibility orgRole grant readOnly
     = access_spec visibility orgRole grant readOnly"
  by (cases orgRole; cases grant)
     (auto simp: effectiveBrainRole_def access_spec_def access_sources_def access_ceiling_def
        maxRole_max minRole_min GUEST_ROLE_CAP_def Let_def min.assoc min_absorb1 min_absorb2
        max.commute)

lemma effectiveBrainRole_None_iff:
  "effectiveBrainRole v m g ro = None \<longleftrightarrow> g = None \<and> (m = None \<or> is_private v)"
  by (cases g; cases m) (auto simp: effectiveBrainRole_def)

lemma effectiveBrainRole_guest:
  "effectiveBrainRole v None g ro = Some r \<Longrightarrow> r \<le> Editor"
  by (auto simp: effectiveBrainRole_def minRole_min GUEST_ROLE_CAP_def split: option.splits if_splits)

lemma effectiveBrainRole_read_only:
  "effectiveBrainRole v m g True = Some r \<Longrightarrow> r = Viewer"
  by (auto simp: effectiveBrainRole_def minRole_min Let_def split: option.splits if_splits)

lemma effectiveBrainRole_le_sources:
  "effectiveBrainRole v m g ro = Some r \<Longrightarrow> (\<exists>q. m = Some q \<and> r \<le> q) \<or> (\<exists>q. g = Some q \<and> r \<le> q)"
  by (auto simp: effectiveBrainRole_def maxRole_max minRole_min min_def max_def Let_def
      split: option.splits if_splits)

text \<open>
  A share never demotes anyone: adding a grant to a caller who had none, or raising the one
  they have, never takes access away and never lowers the role they hold on the brain,
  whatever its visibility and read-only flag.
\<close>

theorem grant_never_demotes:
  assumes "effectiveBrainRole visibility orgRole grant readOnly = Some before"
    and "\<forall>q. grant = Some q \<longrightarrow> q \<le> new"
  shows "\<exists>after. effectiveBrainRole visibility orgRole (Some new) readOnly = Some after
            \<and> before \<le> after"
  using assms
  by (cases orgRole; cases grant)
     (auto simp: effectiveBrainRole_def maxRole_max minRole_min le_max_iff_disj min_le_iff_disj
        intro: min.mono split: if_splits)

theorem grant_never_demotes_witness:
  "\<exists>after. effectiveBrainRole ''org'' (Some Admin) (Some Viewer) False = Some Admin
     \<and> effectiveBrainRole ''org'' (Some Admin) (Some Editor) False = Some after \<and> Admin \<le> after"
proof -
  have h: "effectiveBrainRole ''org'' (Some Admin) (Some Viewer) False = Some Admin"
    by (simp add: effectiveBrainRole_def maxRole_def)
  have "\<exists>after. effectiveBrainRole ''org'' (Some Admin) (Some Editor) False = Some after
      \<and> Admin \<le> after"
    by (rule grant_never_demotes [OF h]) simp
  with h show ?thesis by blast
qed

text \<open>
  C20.  Stewardship carries no content access and guests carry no sharing power.  On a private
  brain without a grant every organization role, the owner's included, is refused, while an
  admin or owner keeps the authority of an admin to share it; and a caller admitted without
  membership in the organization never reaches that authority.
\<close>

theorem steward_shares_without_reading:
  "effectiveBrainRole ''private'' orgRole None readOnly = None
   \<and> (stewardsBrain orgRole \<longrightarrow> sharingAuthority None orgRole = Some Admin)
   \<and> (\<forall>v g ro. \<not> (\<exists>a. sharingAuthority (effectiveBrainRole v None g ro) None = Some a \<and> Admin \<le> a))"
proof (intro conjI allI impI)
  show "effectiveBrainRole ''private'' orgRole None readOnly = None"
    by (simp add: effectiveBrainRole_None_iff)
next
  assume "stewardsBrain orgRole"
  then show "sharingAuthority None orgRole = Some Admin" by (simp add: sharingAuthority_def)
next
  fix v g ro
  show "\<not> (\<exists>a. sharingAuthority (effectiveBrainRole v None g ro) None = Some a \<and> Admin \<le> a)"
  proof (cases "effectiveBrainRole v None g ro")
    case None
    then show ?thesis by (simp add: sharingAuthority_def stewardsBrain_def)
  next
    case (Some r)
    with effectiveBrainRole_guest have "r \<le> Editor" .
    with Some show ?thesis
      by (cases r) (auto simp: sharingAuthority_def stewardsBrain_def)
  qed
qed

theorem steward_shares_without_reading_witness:
  "stewardsBrain (Some Owner) \<and> effectiveBrainRole ''private'' (Some Owner) None False = None
   \<and> sharingAuthority None (Some Owner) = Some Admin"
  using steward_shares_without_reading [of "Some Owner" False]
  by (simp add: stewardsBrain_def)

lemma sharingAuthority_Some:
  "sharingAuthority r m = Some a \<Longrightarrow> Admin \<le> a \<Longrightarrow> stewardsBrain m \<or> (\<exists>q. r = Some q \<and> Admin \<le> q)"
  by (auto simp: sharingAuthority_def split: option.splits if_splits)

lemma assertRole_ok: "assertRole actual (Some q) = Inr () \<longleftrightarrow> (\<exists>a. actual = Some a \<and> q \<le> a)"
  by (auto simp: assertRole_def split: option.splits)

end
