(* ===== verification/BrainSlug.thy ===== *)
theory BrainSlug
  imports JsPrelude
begin

text \<open>
  How a brain is addressed (\<open>src/lib/brain-slug.ts\<close>): \<open><name>-<handle>\<close>, where the handle is six
  hexadecimal digits and alone identifies the brain.  \<open>nfkd_base\<close> is \<open>normalize('NFKD')\<close>
  followed by the removal of combining marks, on the Latin-1 range; a code point outside the
  range that the normal form introduces is written as a character the slug makers treat alike
  (none of them is a letter or digit).  The random bytes of \<open>newBrainHandle\<close> are its argument.
\<close>

definition is_hex :: "char \<Rightarrow> bool" where
  "is_hex c \<longleftrightarrow> is_digit c \<or> (97 \<le> code c \<and> code c \<le> 102)"

definition is_handle :: "string \<Rightarrow> bool" where
  "is_handle s \<longleftrightarrow> length s = 6 \<and> (\<forall>c \<in> set s. is_hex c)"

definition MAX_NAME :: nat where "MAX_NAME = 40"

definition hex_digit :: "nat \<Rightarrow> char" where
  "hex_digit n = (if n < 10 then char_of (48 + n) else char_of (87 + n))"

definition newBrainHandle :: "nat \<Rightarrow> nat \<Rightarrow> nat \<Rightarrow> string" where
  "newBrainHandle b0 b1 b2 =
     concat (map (\<lambda>b. [hex_digit (b div 16 mod 16), hex_digit (b mod 16)]) [b0, b1, b2])"

definition nfkd_base :: "char \<Rightarrow> string" where
  "nfkd_base c =
     (let n = code c in
      if 192 \<le> n \<and> n \<le> 197 then ''A''
      else if n = 199 then ''C''
      else if 200 \<le> n \<and> n \<le> 203 then ''E''
      else if 204 \<le> n \<and> n \<le> 207 then ''I''
      else if n = 209 then ''N''
      else if 210 \<le> n \<and> n \<le> 214 then ''O''
      else if 217 \<le> n \<and> n \<le> 220 then ''U''
      else if n = 221 then ''Y''
      else if 224 \<le> n \<and> n \<le> 229 \<or> n = 170 then ''a''
      else if n = 231 then ''c''
      else if 232 \<le> n \<and> n \<le> 235 then ''e''
      else if 236 \<le> n \<and> n \<le> 239 then ''i''
      else if n = 241 then ''n''
      else if 242 \<le> n \<and> n \<le> 246 \<or> n = 186 then ''o''
      else if 249 \<le> n \<and> n \<le> 252 then ''u''
      else if n = 253 \<or> n = 255 then ''y''
      else if n = 185 then ''1''
      else if n = 178 then ''2''
      else if n = 179 then ''3''
      else if n = 188 then ''1/4''
      else if n = 189 then ''1/2''
      else if n = 190 then ''3/4''
      else if n \<in> {160, 168, 175, 180, 184} then '' ''
      else [c])"

definition slugifyName :: "string \<Rightarrow> string" where
  "slugifyName label =
     (let s = strip_dashes (dash_runs (lower (concat (map nfkd_base label)))) in
      if length s \<le> MAX_NAME then s
      else (let cut = slice 0 MAX_NAME s in
            case last_index_of cut DASH of
              Some dash \<Rightarrow> if 0 < dash then slice 0 dash cut else cut
            | None \<Rightarrow> cut))"

definition brainSlug :: "string \<Rightarrow> string \<Rightarrow> string" where
  "brainSlug label handle =
     (let name = slugifyName label in if name \<noteq> [] then name @ [DASH] @ handle else handle)"

text \<open>\<open>slice(lastIndexOf('-') + 1)\<close>: the whole text when there is no dash.\<close>

definition after_last_dash :: "string \<Rightarrow> string" where
  "after_last_dash s = (case last_index_of s DASH of Some i \<Rightarrow> drop (Suc i) s | None \<Rightarrow> s)"

definition handleOfSlug :: "string \<Rightarrow> string option" where
  "handleOfSlug slug =
     (let tail = after_last_dash (lower (trim slug)) in
      if is_handle tail then Some tail else None)"

fun dashes_to_spaces :: "string \<Rightarrow> string" where
  "dashes_to_spaces [] = []"
| "dashes_to_spaces (c # cs) =
     (if c = DASH then CHR '' '' # dashes_to_spaces (dropWhile (\<lambda>d. d = DASH) cs)
      else c # dashes_to_spaces cs)"

definition labelOfSlug :: "string \<Rightarrow> string" where
  "labelOfSlug slug =
     (let name = (case handleOfSlug slug of
                    Some handle \<Rightarrow> slice 0 (length slug - length handle - 1) slug
                  | None \<Rightarrow> slug);
          shown = trim (dashes_to_spaces name)
      in if shown \<noteq> [] then shown else slug)"

lemma last_index_of_append:
  "c \<notin> set t \<Longrightarrow> last_index_of (s @ c # t) c = Some (length s)"
proof (induction s)
  case Nil
  have "last_index_of t c = None" using Nil by (induction t) auto
  then show ?case by simp
next
  case (Cons x s)
  then show ?case by simp
qed

lemma last_index_of_None: "last_index_of s c = None \<longleftrightarrow> c \<notin> set s"
  by (induction s) (auto split: option.splits)

lemma after_last_dash_simps [simp]:
  "DASH \<notin> set t \<Longrightarrow> after_last_dash (s @ DASH # t) = t"
  "DASH \<notin> set t \<Longrightarrow> after_last_dash t = t"
  by (simp_all add: after_last_dash_def last_index_of_append last_index_of_None [THEN iffD2])

lemma handle_chars: "is_handle h \<Longrightarrow> c \<in> set h \<Longrightarrow> is_hex c \<and> c \<noteq> DASH \<and> \<not> is_space c \<and> char_lower c = c"
  by (auto simp: is_handle_def is_hex_def is_digit_def is_space_def char_lower_def is_upper_def)

lemma lower_handle: "is_handle h \<Longrightarrow> lower h = h"
  by (simp add: lower_def map_idI handle_chars)

text \<open>The characters of a name part: lower-case letters, digits and inner dashes.\<close>

lemma set_slugifyName: "c \<in> set (slugifyName label) \<Longrightarrow> is_slug_char c \<or> c = DASH"
proof -
  let ?s = "strip_dashes (dash_runs (lower (concat (map nfkd_base label))))"
  assume "c \<in> set (slugifyName label)"
  then have "c \<in> set ?s"
    by (auto simp: slugifyName_def Let_def slice_def dest!: in_set_takeD split: if_splits option.splits)
  then show ?thesis using set_strip_dashes set_dash_runs by blast
qed

lemma slugifyName_hd: "slugifyName label \<noteq> [] \<Longrightarrow> hd (slugifyName label) \<noteq> DASH"
proof -
  let ?s = "strip_dashes (dash_runs (lower (concat (map nfkd_base label))))"
  assume ne: "slugifyName label \<noteq> []"
  then have "hd (slugifyName label) = hd ?s" and "?s \<noteq> []"
    by (auto simp: slugifyName_def Let_def slice_def MAX_NAME_def hd_take split: if_splits option.splits)
  then show ?thesis using strip_dashes_ends by metis
qed

lemma length_slugifyName: "length (slugifyName label) \<le> MAX_NAME"
  by (auto simp: slugifyName_def Let_def slice_def MAX_NAME_def split: option.splits)

lemma slug_chars_plain: "is_slug_char c \<or> c = DASH \<Longrightarrow> \<not> is_space c \<and> char_lower c = c"
  by (auto simp: is_slug_char_def is_lower_def is_digit_def is_space_def char_lower_def is_upper_def)

lemma trim_lower_plain:
  assumes "\<forall>c \<in> set s. \<not> is_space c \<and> char_lower c = c"
  shows "lower (trim s) = s"
proof -
  have "trimmed s" using assms by (cases s) (auto simp: trimmed_def)
  with assms show ?thesis by (simp add: trim_trimmed lower_def map_idI)
qed

text \<open>
  A brain's slug always gives its handle back, whatever its display name is and however
  often it is renamed: for any six-hex-digit handle, \<open>handleOfSlug (brainSlug label handle)\<close>
  is that handle.  This is what keeps an old link of a renamed brain resolving.
\<close>

lemma brainSlug_plain:
  assumes h: "is_handle handle"
  shows "lower (trim (brainSlug label handle)) = brainSlug label handle"
proof (rule trim_lower_plain)
  show "\<forall>c \<in> set (brainSlug label handle). \<not> is_space c \<and> char_lower c = c"
    using handle_chars [OF h] set_slugifyName slug_chars_plain
    by (auto simp: brainSlug_def Let_def)
qed

lemma handleOfSlug_brainSlug:
  assumes h: "is_handle handle"
  shows "handleOfSlug (brainSlug label handle) = Some handle"
proof -
  have nd: "DASH \<notin> set handle" using handle_chars [OF h] by blast
  have "after_last_dash (brainSlug label handle) = handle"
    using nd by (simp add: brainSlug_def Let_def)
  then show ?thesis
    using h by (simp add: handleOfSlug_def brainSlug_plain [OF h])
qed

lemma hex_digit_hex: "n < 16 \<Longrightarrow> is_hex (hex_digit n)"
  by (auto simp: hex_digit_def is_hex_def is_digit_def)

lemma newBrainHandle_is_handle: "is_handle (newBrainHandle b0 b1 b2)"
  by (auto simp: newBrainHandle_def is_handle_def hex_digit_hex)

end
