(* ===== verification/OrgTables.thy ===== *)
theory OrgTables
  imports Roles BrainSlug
begin

text \<open>
  The organization database: the tables of \<open>src/lib/orgs.ts\<close> as lists of rows in rowid order,
  and every statement the module runs on them.  A read returns the rows SQLite would return,
  \<open>ORDER BY\<close> being a stable sort; a write returns the new database, or the constraint it
  violates, in which case nothing is written.  \<open>datetime('now')\<close> is the argument \<open>now\<close>, in
  seconds (the text form has a fixed width, so it is ordered like the number).  \<open>t_residue\<close>
  holds, for the tables of \<open>BRAIN_UNLINKED_TABLES\<close>, the pairs of table name and brain id of
  their rows.
\<close>

section \<open>Tables\<close>

record app_user =
  u_id :: string
  u_email :: string
  u_name :: "string option"
  u_github :: "string option"
  u_person :: "string option"
  u_created :: nat

record org_row =
  o_id :: string
  o_name :: string
  o_model :: string
  o_installation :: int
  o_brain_owner :: string
  o_github :: "string option"
  o_conn :: "string option"
  o_created_by :: string
  o_created :: nat
  o_suspended :: "nat option"

record member_row =
  m_org :: string
  m_user :: string
  m_role :: role
  m_added :: nat

record brain_row =
  b_id :: string
  b_org :: string
  b_owner :: string
  b_repo :: string
  b_name :: "string option"
  b_created_by :: "string option"
  b_visibility :: string
  b_created :: nat
  b_archived :: "nat option"
  b_read_only :: bool
  b_conn :: "string option"
  b_handle :: "string option"

record grant_row =
  g_brain :: string
  g_user :: string
  g_role :: role
  g_by :: "string option"
  g_at :: nat

record invite_row =
  i_id :: string
  i_org :: string
  i_email :: string
  i_role :: role
  i_by :: string
  i_at :: nat
  i_expires :: nat
  i_accepted :: "nat option"
  i_brain :: "string option"

record conn_row =
  c_id :: string
  c_provider :: string
  c_kind :: string
  c_external :: string
  c_account :: string
  c_owner :: "string option"

record odb =
  t_users :: "app_user list"
  t_orgs :: "org_row list"
  t_members :: "member_row list"
  t_brains :: "brain_row list"
  t_grants :: "grant_row list"
  t_invites :: "invite_row list"
  t_conns :: "conn_row list"
  t_residue :: "(string \<times> string) list"

datatype sql_error = UniqueFailed | ForeignKeyFailed

text \<open>SQLite's \<open>lower\<close> folds ASCII letters only; \<open>UPDATE\<close> and \<open>DELETE\<close> act on every matching row.\<close>

definition sql_lower :: "string \<Rightarrow> string" where
  "sql_lower s = map (\<lambda>c. if is_upper c then char_of (code c + 32) else c) s"

definition row_update :: "('r \<Rightarrow> bool) \<Rightarrow> ('r \<Rightarrow> 'r) \<Rightarrow> 'r list \<Rightarrow> 'r list" where
  "row_update P f rows = map (\<lambda>r. if P r then f r else r) rows"

definition row_delete :: "('r \<Rightarrow> bool) \<Rightarrow> 'r list \<Rightarrow> 'r list" where
  "row_delete P rows = filter (\<lambda>r. \<not> P r) rows"

lemma find_row_update:
  "(\<And>x. Q (f x) = Q x) \<Longrightarrow> find Q (row_update P f xs) = map_option (\<lambda>x. if P x then f x else x) (find Q xs)"
  by (induction xs) (auto simp: row_update_def)

text \<open>\<open>CAST(text AS INTEGER)\<close>: the longest integer prefix, 0 when there is none.\<close>

definition sql_cast_int :: "string \<Rightarrow> int" where
  "sql_cast_int s =
     (let t = dropWhile is_space s in
      case t of
        [] \<Rightarrow> 0
      | c # cs \<Rightarrow>
          if c = CHR ''-'' then - int (digits_value (takeWhile is_digit cs))
          else if c = CHR ''+'' then int (digits_value (takeWhile is_digit cs))
          else int (digits_value (takeWhile is_digit t)))"

section \<open>People\<close>

definition upsertAppUser ::
  "odb \<Rightarrow> nat \<Rightarrow> string \<Rightarrow> string \<Rightarrow> string option \<Rightarrow> string option \<Rightarrow> sql_error + odb" where
  "upsertAppUser db now user_id email name github_login =
     (if \<exists>r \<in> set (t_users db). u_email r = email \<and> u_id r \<noteq> user_id then Inl UniqueFailed
      else if \<exists>r \<in> set (t_users db). u_id r = user_id
      then Inr (db\<lparr>t_users := row_update (\<lambda>r. u_id r = user_id)
             (\<lambda>r. r\<lparr>u_email := email, u_name := name,
                    u_github := (case github_login of Some g \<Rightarrow> Some g | None \<Rightarrow> u_github r)\<rparr>)
             (t_users db)\<rparr>)
      else Inr (db\<lparr>t_users := t_users db @
             [\<lparr>u_id = user_id, u_email = email, u_name = name, u_github = github_login,
               u_person = None, u_created = now\<rparr>]\<rparr>))"

definition getAppUser :: "odb \<Rightarrow> string \<Rightarrow> app_user option" where
  "getAppUser db userId = find (\<lambda>r. u_id r = userId) (t_users db)"

definition linkedUserIds :: "odb \<Rightarrow> string \<Rightarrow> string list" where
  "linkedUserIds db userId =
     (let person = Option.bind (getAppUser db userId) u_person;
          results = filter (\<lambda>r. u_id r = userId \<or> (u_person r \<noteq> None \<and> u_person r = person))
                      (t_users db)
      in uniq (userId # map u_id results))"

record connected_account =
  ca_is_self :: bool
  ca_user_id :: string
  ca_email :: string
  ca_name :: "string option"

definition listConnectedAccounts :: "odb \<Rightarrow> string \<Rightarrow> connected_account list" where
  "listConnectedAccounts db userId =
     (let ids = linkedUserIds db userId in
      map (\<lambda>e. \<lparr>ca_is_self = (u_id e = userId), ca_user_id = u_id e, ca_email = u_email e,
                 ca_name = u_name e\<rparr>)
        (filter (\<lambda>r. u_id r \<in> set ids) (t_users db)))"

datatype link_error = NoSuchAccount | NotLinked

text \<open>\<open>fresh\<close> is the value of \<open>crypto.randomUUID()\<close>.  An empty label is falsy in JavaScript.\<close>

definition relabel :: "string \<Rightarrow> app_user \<Rightarrow> app_user list \<Rightarrow> app_user list" where
  "relabel pa u users =
     (case u_person u of
        Some p \<Rightarrow>
          if p \<noteq> [] then row_update (\<lambda>r. u_person r = Some p) (\<lambda>r. r\<lparr>u_person := Some pa\<rparr>) users
          else row_update (\<lambda>r. u_id r = u_id u) (\<lambda>r. r\<lparr>u_person := Some pa\<rparr>) users
      | None \<Rightarrow> row_update (\<lambda>r. u_id r = u_id u) (\<lambda>r. r\<lparr>u_person := Some pa\<rparr>) users)"

definition mergePersons :: "odb \<Rightarrow> string \<Rightarrow> string \<Rightarrow> string \<Rightarrow> link_error + odb" where
  "mergePersons db fresh aUserId bUserId =
     (case (getAppUser db aUserId, getAppUser db bUserId) of
        (Some a, Some b) \<Rightarrow>
          (let pa = (case u_person a of Some p \<Rightarrow> p
                     | None \<Rightarrow> (case u_person b of Some p \<Rightarrow> p | None \<Rightarrow> fresh))
           in Inr (db\<lparr>t_users := relabel pa b (relabel pa a (t_users db))\<rparr>))
      | _ \<Rightarrow> Inl NoSuchAccount)"

definition unlinkIdentity :: "odb \<Rightarrow> string \<Rightarrow> string \<Rightarrow> link_error + odb" where
  "unlinkIdentity db actorUserId targetUserId =
     (case getAppUser db targetUserId of
        None \<Rightarrow> Inl NoSuchAccount
      | Some target \<Rightarrow>
          (case Option.bind (getAppUser db actorUserId) u_person of
             None \<Rightarrow> Inl NotLinked
           | Some p \<Rightarrow>
               if p = [] \<or> Some p \<noteq> u_person target then Inl NotLinked
               else Inr (db\<lparr>t_users := row_update (\<lambda>r. u_id r = targetUserId)
                                (\<lambda>r. r\<lparr>u_person := None\<rparr>) (t_users db)\<rparr>)))"

definition getAppUserByEmail :: "odb \<Rightarrow> string \<Rightarrow> app_user option" where
  "getAppUserByEmail db email = find (\<lambda>r. sql_lower (u_email r) = sql_lower email) (t_users db)"

section \<open>Organizations, memberships and brains\<close>

definition getOrgById :: "odb \<Rightarrow> string \<Rightarrow> org_row option" where
  "getOrgById db orgId = find (\<lambda>r. o_id r = orgId) (t_orgs db)"

definition getMembershipWithOrg :: "odb \<Rightarrow> string \<Rightarrow> (role \<times> org_row) option" where
  "getMembershipWithOrg db userId =
     (case sort_key (\<lambda>(m, ob). (m_added m, m_org m))
             [(m, ob). m \<leftarrow> t_members db, ob \<leftarrow> t_orgs db, o_id ob = m_org m \<and> m_user m = userId] of
        [] \<Rightarrow> None
      | (m, ob) # _ \<Rightarrow> Some (m_role m, ob))"

definition listBrainsInOrg :: "odb \<Rightarrow> string \<Rightarrow> brain_row list" where
  "listBrainsInOrg db orgId =
     sort_key (\<lambda>b. (b_created b, b_id b)) (filter (\<lambda>b. b_org b = orgId) (t_brains db))"

definition getAnyBrainInOrg :: "odb \<Rightarrow> string \<Rightarrow> brain_row option" where
  "getAnyBrainInOrg db orgId =
     (case sort_key (\<lambda>b. (b_created b, b_id b)) (filter (\<lambda>b. b_org b = orgId) (t_brains db)) of
        [] \<Rightarrow> None
      | b # _ \<Rightarrow> Some b)"

definition getBrainGrant :: "odb \<Rightarrow> string \<Rightarrow> string \<Rightarrow> role option" where
  "getBrainGrant db brainId userId =
     map_option g_role (find (\<lambda>g. g_brain g = brainId \<and> g_user g = userId) (t_grants db))"

definition getMemberRole :: "odb \<Rightarrow> string \<Rightarrow> string \<Rightarrow> role option" where
  "getMemberRole db orgId userId =
     map_option m_role (find (\<lambda>m. m_org m = orgId \<and> m_user m = userId) (t_members db))"

definition getDefaultBrainForUser :: "odb \<Rightarrow> string \<Rightarrow> string \<Rightarrow> role \<Rightarrow> brain_row option" where
  "getDefaultBrainForUser db orgId userId orgRole =
     find (\<lambda>b. effectiveBrainRole (b_visibility b) (Some orgRole) (getBrainGrant db (b_id b) userId)
                  (b_read_only b) \<noteq> None)
       (sort_key (\<lambda>b. (b_created b, b_id b))
          (filter (\<lambda>b. b_org b = orgId \<and> b_archived b = None) (t_brains db)))"

definition GITHUB_APP_KIND :: string where "GITHUB_APP_KIND = ''github-app-installation''"
definition GITHUB_TOKEN_KIND :: string where "GITHUB_TOKEN_KIND = ''github-token''"

definition githubAppConnectionId :: "int \<Rightarrow> string" where
  "githubAppConnectionId installationId = ''github-app:'' @ show_int installationId"

definition connectionOwnerFor :: "string \<Rightarrow> string \<Rightarrow> string option" where
  "connectionOwnerFor org_id model = (if model = ''customer'' then Some org_id else None)"

definition createOrg ::
  "odb \<Rightarrow> nat \<Rightarrow> string \<Rightarrow> string \<Rightarrow> string \<Rightarrow> int \<Rightarrow> string \<Rightarrow> string option \<Rightarrow> string
     \<Rightarrow> sql_error + odb" where
  "createOrg db now org_id name model installation_id brain_owner github_org_login created_by =
     (let connectionId = githubAppConnectionId installation_id;
          external = show_int installation_id;
          row = \<lparr>o_id = org_id, o_name = name, o_model = model, o_installation = installation_id,
                 o_brain_owner = brain_owner, o_github = github_org_login, o_conn = None,
                 o_created_by = created_by, o_created = now, o_suspended = None\<rparr>;
          taken = (\<exists>c \<in> set (t_conns db). c_id c = connectionId \<or>
                     (c_provider c = ''github'' \<and> c_kind c = GITHUB_APP_KIND \<and> c_external c = external));
          conns = (if taken then t_conns db
                   else t_conns db @
                     [\<lparr>c_id = connectionId, c_provider = ''github'', c_kind = GITHUB_APP_KIND,
                       c_external = external, c_account = brain_owner,
                       c_owner = connectionOwnerFor org_id model\<rparr>])
      in if \<exists>r \<in> set (t_orgs db). o_id r = org_id then Inl UniqueFailed
         else if connectionId \<notin> set (map c_id conns) then Inl ForeignKeyFailed
         else Inr (db\<lparr>t_orgs := t_orgs db @ [row\<lparr>o_conn := Some connectionId\<rparr>], t_conns := conns\<rparr>))"

definition addMembership :: "odb \<Rightarrow> nat \<Rightarrow> string \<Rightarrow> string \<Rightarrow> role \<Rightarrow> sql_error + odb" where
  "addMembership db now org_id user_id role =
     (if \<exists>m \<in> set (t_members db). m_org m = org_id \<and> m_user m = user_id
      then Inr (db\<lparr>t_members := row_update (\<lambda>m. m_org m = org_id \<and> m_user m = user_id)
                     (\<lambda>m. m\<lparr>m_role := role\<rparr>) (t_members db)\<rparr>)
      else if org_id \<notin> set (map o_id (t_orgs db)) \<or> user_id \<notin> set (map u_id (t_users db))
      then Inl ForeignKeyFailed
      else Inr (db\<lparr>t_members := t_members db @
                     [\<lparr>m_org = org_id, m_user = user_id, m_role = role, m_added = now\<rparr>]\<rparr>))"

definition strip_one_dash :: "string \<Rightarrow> string" where
  "strip_one_dash s =
     (let t = (case s of c # cs \<Rightarrow> if c = DASH then cs else s | [] \<Rightarrow> []) in
      if t \<noteq> [] \<and> last t = DASH then butlast t else t)"

definition brainIdFor :: "string \<Rightarrow> string \<Rightarrow> string" where
  "brainIdFor owner repo = ''brain-'' @ strip_one_dash (dash_runs (lower (owner @ [DASH] @ repo)))"

text \<open>\<open>clearBrainResidueStatements\<close> of \<open>src/lib/brain-forget.ts\<close>: a no-op while a brain holds the id.\<close>

definition BRAIN_INDEX_TABLES :: "string list" where
  "BRAIN_INDEX_TABLES = [''brain_index_meta'', ''brain_pages'', ''brain_links'', ''brain_page_fields'']"

definition BRAIN_UNLINKED_TABLES :: "string list" where
  "BRAIN_UNLINKED_TABLES = BRAIN_INDEX_TABLES @
     [''review_findings'', ''policy_detections'', ''policy_dismissals'', ''policy_baseline'',
      ''brain_passes'', ''brain_pass_items'', ''write_attempts'']"

definition clearBrainResidue :: "odb \<Rightarrow> string \<Rightarrow> odb" where
  "clearBrainResidue db brainId =
     (if brainId \<in> set (map b_id (t_brains db)) then db
      else db\<lparr>t_residue := row_delete (\<lambda>(t, b). t \<in> set BRAIN_UNLINKED_TABLES \<and> b = brainId)
                            (t_residue db)\<rparr>)"

definition createBrain ::
  "odb \<Rightarrow> nat \<Rightarrow> string \<Rightarrow> string \<Rightarrow> string \<Rightarrow> string \<Rightarrow> string option \<Rightarrow> string option
     \<Rightarrow> string option \<Rightarrow> string option \<Rightarrow> sql_error + odb" where
  "createBrain db now brain_id org_id repo_owner repo_name name created_by visibility conn =
     (let db1 = clearBrainResidue db brain_id in
      if \<exists>b \<in> set (t_brains db1). b_owner b = repo_owner \<and> b_repo b = repo_name then Inr db1
      else if brain_id \<in> set (map b_id (t_brains db1)) then Inl UniqueFailed
      else if org_id \<notin> set (map o_id (t_orgs db1))
              \<or> (case conn of None \<Rightarrow> False | Some c \<Rightarrow> c \<notin> set (map c_id (t_conns db1)))
      then Inl ForeignKeyFailed
      else Inr (db1\<lparr>t_brains := t_brains db1 @
             [\<lparr>b_id = brain_id, b_org = org_id, b_owner = repo_owner, b_repo = repo_name,
               b_name = name, b_created_by = created_by,
               b_visibility = (case visibility of Some v \<Rightarrow> v | None \<Rightarrow> ''org''),
               b_created = now, b_archived = None, b_read_only = False, b_conn = conn,
               b_handle = None\<rparr>]\<rparr>))"

definition getBrainByRepo :: "odb \<Rightarrow> string \<Rightarrow> string \<Rightarrow> brain_row option" where
  "getBrainByRepo db repoOwner repoName =
     find (\<lambda>b. b_owner b = repoOwner \<and> b_repo b = repoName) (t_brains db)"

section \<open>Members and invitations\<close>

text \<open>\<open>CASE m.role WHEN 'owner' THEN 0 WHEN 'admin' THEN 1 WHEN 'editor' THEN 2 ELSE 3 END\<close>\<close>

fun roster_rank :: "role \<Rightarrow> nat" where
  "roster_rank Owner = 0"
| "roster_rank Admin = 1"
| "roster_rank Editor = 2"
| "roster_rank Viewer = 3"

record member =
  mb_user_id :: string
  mb_email :: string
  mb_name :: "string option"
  mb_github :: "string option"
  mb_role :: role
  mb_added :: nat

definition listMembers :: "odb \<Rightarrow> string \<Rightarrow> member list" where
  "listMembers db orgId =
     sort_key (\<lambda>r. (roster_rank (mb_role r), mb_added r))
       [\<lparr>mb_user_id = u_id u, mb_email = u_email u, mb_name = u_name u, mb_github = u_github u,
         mb_role = m_role m, mb_added = m_added m\<rparr>.
         m \<leftarrow> t_members db, u \<leftarrow> t_users db, u_id u = m_user m \<and> m_org m = orgId]"

definition pending :: "nat \<Rightarrow> invite_row \<Rightarrow> bool" where
  "pending now i \<longleftrightarrow> i_accepted i = None \<and> now < i_expires i"

definition listPendingInvites :: "odb \<Rightarrow> nat \<Rightarrow> string \<Rightarrow> invite_row list" where
  "listPendingInvites db now orgId =
     sort_key (\<lambda>i. - int (i_at i))
       (filter (\<lambda>i. i_org i = orgId \<and> i_brain i = None \<and> pending now i) (t_invites db))"

definition listPendingBrainInvites :: "odb \<Rightarrow> nat \<Rightarrow> string \<Rightarrow> invite_row list" where
  "listPendingBrainInvites db now brainId =
     sort_key (\<lambda>i. - int (i_at i))
       (filter (\<lambda>i. i_brain i = Some brainId \<and> pending now i) (t_invites db))"

definition setMemberRole :: "odb \<Rightarrow> string \<Rightarrow> string \<Rightarrow> role \<Rightarrow> odb" where
  "setMemberRole db orgId userId role =
     db\<lparr>t_members := row_update (\<lambda>m. m_org m = orgId \<and> m_user m = userId)
                       (\<lambda>m. m\<lparr>m_role := role\<rparr>) (t_members db)\<rparr>"

definition removeMembership :: "odb \<Rightarrow> string \<Rightarrow> string \<Rightarrow> odb" where
  "removeMembership db orgId userId =
     db\<lparr>t_members := row_delete (\<lambda>m. m_org m = orgId \<and> m_user m = userId) (t_members db)\<rparr>"

text \<open>\<open>datetime('now', '+30 days')\<close>\<close>

definition INVITE_LIFETIME :: nat where "INVITE_LIFETIME = 30 * 24 * 60 * 60"

definition createInvitation ::
  "odb \<Rightarrow> nat \<Rightarrow> string \<Rightarrow> string \<Rightarrow> string \<Rightarrow> role \<Rightarrow> string \<Rightarrow> string option \<Rightarrow> sql_error + odb" where
  "createInvitation db now invite_id org_id email role invited_by brain_id =
     (if invite_id \<in> set (map i_id (t_invites db)) then Inl UniqueFailed
      else if org_id \<notin> set (map o_id (t_orgs db))
              \<or> (case brain_id of None \<Rightarrow> False | Some b \<Rightarrow> b \<notin> set (map b_id (t_brains db)))
      then Inl ForeignKeyFailed
      else Inr (db\<lparr>t_invites := t_invites db @
             [\<lparr>i_id = invite_id, i_org = org_id, i_email = email, i_role = role,
               i_by = invited_by, i_at = now, i_expires = now + INVITE_LIFETIME,
               i_accepted = None, i_brain = brain_id\<rparr>]\<rparr>))"

definition acceptInvite :: "odb \<Rightarrow> nat \<Rightarrow> string \<Rightarrow> odb" where
  "acceptInvite db now inviteId =
     db\<lparr>t_invites := row_update (\<lambda>i. i_id i = inviteId) (\<lambda>i. i\<lparr>i_accepted := Some now\<rparr>)
                       (t_invites db)\<rparr>"

text \<open>\<open>ORDER BY rowid DESC LIMIT 1\<close> is the last matching row.\<close>

definition getPendingBrainInvite :: "odb \<Rightarrow> nat \<Rightarrow> string \<Rightarrow> string \<Rightarrow> (string \<times> role) option" where
  "getPendingBrainInvite db now brainId email =
     map_option (\<lambda>i. (i_id i, i_role i))
       (find (\<lambda>i. i_brain i = Some brainId \<and> sql_lower (i_email i) = sql_lower email \<and> pending now i)
          (rev (t_invites db)))"

definition cancelBrainInvites :: "odb \<Rightarrow> string \<Rightarrow> string \<Rightarrow> odb" where
  "cancelBrainInvites db brainId email =
     db\<lparr>t_invites := row_delete
          (\<lambda>i. i_brain i = Some brainId \<and> sql_lower (i_email i) = sql_lower email \<and> i_accepted i = None)
          (t_invites db)\<rparr>"

definition revokeInvite :: "odb \<Rightarrow> string \<Rightarrow> string \<Rightarrow> odb" where
  "revokeInvite db orgId inviteId =
     db\<lparr>t_invites := row_delete (\<lambda>i. i_org i = orgId \<and> i_id i = inviteId \<and> i_accepted i = None)
          (t_invites db)\<rparr>"

section \<open>Grants and visibility\<close>

definition setBrainGrant ::
  "odb \<Rightarrow> nat \<Rightarrow> string \<Rightarrow> string \<Rightarrow> role \<Rightarrow> string option \<Rightarrow> sql_error + odb" where
  "setBrainGrant db now brain_id user_id role granted_by =
     (if \<exists>g \<in> set (t_grants db). g_brain g = brain_id \<and> g_user g = user_id
      then Inr (db\<lparr>t_grants := row_update (\<lambda>g. g_brain g = brain_id \<and> g_user g = user_id)
                     (\<lambda>g. g\<lparr>g_role := role, g_by := granted_by, g_at := now\<rparr>) (t_grants db)\<rparr>)
      else if brain_id \<notin> set (map b_id (t_brains db)) \<or> user_id \<notin> set (map u_id (t_users db))
      then Inl ForeignKeyFailed
      else Inr (db\<lparr>t_grants := t_grants db @
             [\<lparr>g_brain = brain_id, g_user = user_id, g_role = role, g_by = granted_by, g_at = now\<rparr>]\<rparr>))"

definition removeBrainGrant :: "odb \<Rightarrow> string \<Rightarrow> string \<Rightarrow> odb" where
  "removeBrainGrant db brainId userId =
     db\<lparr>t_grants := row_delete (\<lambda>g. g_brain g = brainId \<and> g_user g = userId) (t_grants db)\<rparr>"

definition setBrainName :: "odb \<Rightarrow> string \<Rightarrow> string option \<Rightarrow> odb" where
  "setBrainName db brainId name =
     db\<lparr>t_brains := row_update (\<lambda>b. b_id b = brainId) (\<lambda>b. b\<lparr>b_name := name\<rparr>) (t_brains db)\<rparr>"

definition setBrainVisibility :: "odb \<Rightarrow> string \<Rightarrow> string \<Rightarrow> odb" where
  "setBrainVisibility db brainId visibility =
     db\<lparr>t_brains := row_update (\<lambda>b. b_id b = brainId) (\<lambda>b. b\<lparr>b_visibility := visibility\<rparr>)
                      (t_brains db)\<rparr>"

definition deleteUserBrainGrantsInOrg :: "odb \<Rightarrow> string \<Rightarrow> string \<Rightarrow> odb" where
  "deleteUserBrainGrantsInOrg db orgId userId =
     db\<lparr>t_grants := row_delete
          (\<lambda>g. g_user g = userId
                \<and> g_brain g \<in> set (map b_id (filter (\<lambda>b. b_org b = orgId) (t_brains db))))
          (t_grants db)\<rparr>"

section \<open>A sample database\<close>

text \<open>
  One organization with an owner, an admin and an editor, an outsider, a brain every member
  sees and a private one granted to the editor: the concrete input of the witnesses below.
\<close>

definition sample_user :: "string \<Rightarrow> string \<Rightarrow> app_user" where
  "sample_user i e = \<lparr>u_id = i, u_email = e, u_name = None, u_github = None, u_person = None,
                       u_created = 0\<rparr>"

definition sample_brain :: "string \<Rightarrow> string \<Rightarrow> nat \<Rightarrow> brain_row" where
  "sample_brain i v t = \<lparr>b_id = i, b_org = ''acme'', b_owner = ''acme'', b_repo = i, b_name = None,
     b_created_by = Some ''own'', b_visibility = v, b_created = t, b_archived = None,
     b_read_only = False, b_conn = Some ''github-app:7'', b_handle = Some ''3fa9c2''\<rparr>"

definition sample_db :: odb where
  "sample_db =
     \<lparr>t_users = [sample_user ''own'' ''own@a'', sample_user ''adm'' ''adm@a'', sample_user ''ed'' ''ed@a'',
                sample_user ''out'' ''out@b''],
      t_orgs = [\<lparr>o_id = ''acme'', o_name = ''Acme'', o_model = ''customer'', o_installation = 7,
                  o_brain_owner = ''acme'', o_github = None, o_conn = Some ''github-app:7'',
                  o_created_by = ''own'', o_created = 0, o_suspended = None\<rparr>],
      t_members = [\<lparr>m_org = ''acme'', m_user = ''own'', m_role = Owner, m_added = 0\<rparr>,
                   \<lparr>m_org = ''acme'', m_user = ''adm'', m_role = Admin, m_added = 1\<rparr>,
                   \<lparr>m_org = ''acme'', m_user = ''ed'', m_role = Editor, m_added = 2\<rparr>],
      t_brains = [sample_brain ''open'' ''org'' 0, sample_brain ''closed'' ''private'' 1],
      t_grants = [\<lparr>g_brain = ''closed'', g_user = ''ed'', g_role = Admin, g_by = Some ''own'', g_at = 1\<rparr>],
      t_invites = [],
      t_conns = [\<lparr>c_id = ''github-app:7'', c_provider = ''github'', c_kind = GITHUB_APP_KIND,
                   c_external = ''7'', c_account = ''acme'', c_owner = Some ''acme''\<rparr>],
      t_residue = []\<rparr>"

lemmas sample_defs = sample_db_def sample_user_def sample_brain_def

end
