(* ===== verification/OrgAccess.thy ===== *)
theory OrgAccess
  imports OrgTables
begin

text \<open>
  Which brains a person reaches (\<open>src/lib/orgs.ts\<close>, from \<open>listBrainAccess\<close> to
  \<open>listStewardedBrains\<close>): the two-legged query over memberships and grants, its fold into one
  entry per brain, and the brains an administrator stewards without being able to open them.
  Both lists run every row through \<open>effectiveBrainRole\<close>.
\<close>

record brain_access_entry =
  ba_user_id :: string
  ba_email :: string
  ba_name :: "string option"
  ba_role :: role
  ba_via :: access_via
  ba_granted_at :: "nat option"
  ba_self_granted :: bool

text \<open>The columns both queries of \<open>listBrainAccess\<close> select.\<close>

type_synonym access_candidate = "app_user \<times> role option \<times> grant_row option"

definition access_members :: "odb \<Rightarrow> string \<Rightarrow> string \<Rightarrow> access_candidate list" where
  "access_members db brainId orgId =
     map (\<lambda>(u, m). (u, Some (m_role m),
                    find (\<lambda>g. g_brain g = brainId \<and> g_user g = m_user m) (t_grants db)))
       (sort_key (\<lambda>(u, m). (roster_rank (m_role m), m_added m))
          [(u, m). m \<leftarrow> t_members db, u \<leftarrow> t_users db, u_id u = m_user m \<and> m_org m = orgId])"

definition access_guests :: "odb \<Rightarrow> string \<Rightarrow> string \<Rightarrow> access_candidate list" where
  "access_guests db brainId orgId =
     map (\<lambda>(u, g). (u, None, Some g))
       (sort_key (\<lambda>(u, g). (g_at g, u_email u))
          [(u, g). g \<leftarrow> t_grants db, u \<leftarrow> t_users db,
             u_id u = g_user g \<and> g_brain g = brainId
             \<and> (\<forall>m \<in> set (t_members db). \<not> (m_org m = orgId \<and> m_user m = g_user g))])"

definition brain_creator :: "odb \<Rightarrow> string \<Rightarrow> string option" where
  "brain_creator db brainId = Option.bind (find (\<lambda>b. b_id b = brainId) (t_brains db)) b_created_by"

definition access_entry :: "string \<Rightarrow> string option \<Rightarrow> access_candidate \<Rightarrow> brain_access_entry option" where
  "access_entry visibility creator cand =
     (case cand of (u, orgRole, g) \<Rightarrow>
        map_option (\<lambda>role.
          \<lparr>ba_user_id = u_id u, ba_email = u_email u, ba_name = u_name u, ba_role = role,
            ba_via = accessVia orgRole (map_option g_role g),
            ba_granted_at = map_option g_at g,
            ba_self_granted = (g \<noteq> None \<and> Option.bind g g_by = Some (u_id u)
                               \<and> creator \<noteq> Some (u_id u))\<rparr>)
          (effectiveBrainRole visibility orgRole (map_option g_role g) False))"

definition listBrainAccess :: "odb \<Rightarrow> string \<Rightarrow> string \<Rightarrow> string \<Rightarrow> brain_access_entry list" where
  "listBrainAccess db brainId orgId visibility =
     List.map_filter (access_entry visibility (brain_creator db brainId))
       (access_members db brainId orgId @ access_guests db brainId orgId)"

section \<open>The query\<close>

record brain_access_row =
  r_brain :: brain_row
  r_org :: org_row
  r_conn :: conn_row
  r_org_role :: "role option"
  r_grant_role :: "role option"

definition query_leg_members :: "odb \<Rightarrow> string list \<Rightarrow> brain_access_row list" where
  "query_leg_members db userIds =
     [\<lparr>r_brain = b, r_org = ob, r_conn = c, r_org_role = Some (m_role m),
       r_grant_role = getBrainGrant db (b_id b) (m_user m)\<rparr>.
       m \<leftarrow> t_members db, ob \<leftarrow> t_orgs db, b \<leftarrow> t_brains db, c \<leftarrow> t_conns db,
       o_id ob = m_org m \<and> b_org b = o_id ob \<and> b_conn b = Some (c_id c)
       \<and> m_user m \<in> set userIds \<and> o_suspended ob = None \<and> b_archived b = None]"

text \<open>The left join gives one row per matching membership, or one row with a null role.\<close>

definition memberships_of :: "odb \<Rightarrow> string list \<Rightarrow> string \<Rightarrow> role option list" where
  "memberships_of db userIds orgId =
     (let ms = filter (\<lambda>m. m_org m = orgId \<and> m_user m \<in> set userIds) (t_members db)
      in if ms = [] then [None] else map (\<lambda>m. Some (m_role m)) ms)"

definition query_leg_grants :: "odb \<Rightarrow> string list \<Rightarrow> brain_access_row list" where
  "query_leg_grants db userIds =
     [\<lparr>r_brain = b, r_org = ob, r_conn = c, r_org_role = orgRole, r_grant_role = Some (g_role g)\<rparr>.
       g \<leftarrow> t_grants db, b \<leftarrow> t_brains db, ob \<leftarrow> t_orgs db, c \<leftarrow> t_conns db,
       b_id b = g_brain g \<and> o_id ob = b_org b \<and> b_conn b = Some (c_id c)
       \<and> g_user g \<in> set userIds \<and> o_suspended ob = None \<and> b_archived b = None,
       orgRole \<leftarrow> memberships_of db userIds (b_org b)]"

definition queryBrainRows :: "odb \<Rightarrow> string list \<Rightarrow> brain_access_row list" where
  "queryBrainRows db userIds =
     (if userIds = [] then []
      else sort_key (\<lambda>r. (b_created (r_brain r), b_id (r_brain r)))
             (query_leg_members db userIds @ query_leg_grants db userIds))"

section \<open>One entry per brain\<close>

text \<open>\<open>BrainRef\<close> is \<open>AccessibleBrain\<close> without the caller's role on the brain.\<close>

record brain_ref =
  ab_id :: string
  ab_brain_id :: string
  ab_handle :: string
  ab_org_id :: string
  ab_org_name :: string
  ab_org_model :: string
  ab_installation :: int
  ab_account :: string
  ab_conn :: string
  ab_kind :: string
  ab_owner :: string
  ab_repo :: string
  ab_name :: "string option"
  ab_org_role :: "role option"
  ab_visibility :: string
  ab_read_only :: bool

record accessible_brain = brain_ref +
  ab_role :: role

fun dash_to_space_runs :: "string \<Rightarrow> string" where
  "dash_to_space_runs [] = []"
| "dash_to_space_runs (c # cs) =
     (if c = DASH \<or> c = CHR ''_''
      then CHR '' '' # dash_to_space_runs (dropWhile (\<lambda>d. d = DASH \<or> d = CHR ''_'') cs)
      else c # dash_to_space_runs cs)"

definition brainLabel :: "string option \<Rightarrow> string \<Rightarrow> string" where
  "brainLabel name repo_name =
     (case nonempty (map_option trim name) of
        Some named \<Rightarrow> named
      | None \<Rightarrow>
          (let stem = (if starts_with repo_name ''brain-'' then drop 6 repo_name else repo_name);
               shown = trim (dash_to_space_runs stem)
           in if shown \<noteq> [] then shown else repo_name))"

abbreviation ref_label :: "'a brain_ref_scheme \<Rightarrow> string" where
  "ref_label b \<equiv> brainLabel (ab_name b) (ab_repo b)"

definition row_role :: "brain_access_row \<Rightarrow> role option" where
  "row_role r = effectiveBrainRole (b_visibility (r_brain r)) (r_org_role r) (r_grant_role r)
                  (b_read_only (r_brain r))"

text \<open>A handle of \<open>''\<close> is falsy: the id is then the primary key.\<close>

definition row_ref :: "brain_access_row \<Rightarrow> brain_ref" where
  "row_ref r =
     (let b = r_brain r; ob = r_org r; c = r_conn r in
      \<lparr>ab_id = (case nonempty (b_handle b) of
                 Some h \<Rightarrow> brainSlug (brainLabel (b_name b) (b_repo b)) h
               | None \<Rightarrow> b_id b),
       ab_brain_id = b_id b,
       ab_handle = (case b_handle b of Some h \<Rightarrow> h | None \<Rightarrow> []),
       ab_org_id = b_org b, ab_org_name = o_name ob, ab_org_model = o_model ob,
       ab_installation = sql_cast_int (c_external c),
       ab_account = c_account c, ab_conn = c_id c, ab_kind = c_kind c,
       ab_owner = b_owner b, ab_repo = b_repo b, ab_name = b_name b,
       ab_org_role = r_org_role r, ab_visibility = b_visibility b, ab_read_only = b_read_only b\<rparr>)"

definition with_role :: "role \<Rightarrow> brain_ref \<Rightarrow> accessible_brain" where
  "with_role role b = brain_ref.extend b \<lparr>ab_role = role\<rparr>"

text \<open>\<open>if (orgRole && (!existing.org_role || roleAtLeast(orgRole, existing.org_role)))\<close>\<close>

definition higher_org_role :: "role option \<Rightarrow> role option \<Rightarrow> role option" where
  "higher_org_role existing orgRole =
     (case orgRole of
        None \<Rightarrow> existing
      | Some r \<Rightarrow> (case existing of
                      None \<Rightarrow> Some r
                    | Some e \<Rightarrow> if roleAtLeast r e then Some r else existing))"

definition fold_accessible ::
  "(string \<times> accessible_brain) list \<Rightarrow> brain_access_row \<Rightarrow> (string \<times> accessible_brain) list" where
  "fold_accessible byId r =
     (case row_role r of
        None \<Rightarrow> byId
      | Some role \<Rightarrow>
          (let k = b_id (r_brain r) in
           case map_of byId k of
             Some ex \<Rightarrow>
               AList.update k
                 (ex\<lparr>ab_role := (if roleAtLeast role (ab_role ex) then role else ab_role ex),
                     ab_org_role := higher_org_role (ab_org_role ex) (r_org_role r)\<rparr>) byId
           | None \<Rightarrow> AList.update k (with_role role (row_ref r)) byId))"

definition queryAccessibleBrains :: "odb \<Rightarrow> string list \<Rightarrow> accessible_brain list" where
  "queryAccessibleBrains db userIds = map snd (foldl fold_accessible [] (queryBrainRows db userIds))"

text \<open>
  \<open>assignBrainHandle\<close>: up to three attempts, the handle of each a fresh draw of
  \<open>newBrainHandle\<close> (here the list \<open>draws\<close>); the unique index refuses a handle in use, and the
  third refusal is thrown.  Where the brain already has a handle the statement changes nothing.
\<close>

definition write_handle :: "odb \<Rightarrow> string \<Rightarrow> string \<Rightarrow> sql_error + odb" where
  "write_handle db brainId h =
     (if \<exists>b \<in> set (t_brains db). b_id b = brainId \<and> b_handle b = None
      then if \<exists>b \<in> set (t_brains db). b_handle b = Some h then Inl UniqueFailed
           else Inr (db\<lparr>t_brains := row_update (\<lambda>b. b_id b = brainId \<and> b_handle b = None)
                         (\<lambda>b. b\<lparr>b_handle := Some h\<rparr>) (t_brains db)\<rparr>)
      else Inr db)"

definition assignBrainHandle :: "odb \<Rightarrow> string \<Rightarrow> string \<Rightarrow> string \<Rightarrow> string \<Rightarrow> sql_error + odb" where
  "assignBrainHandle db brainId h0 h1 h2 =
     (case write_handle db brainId h0 of
        Inr db' \<Rightarrow> Inr db'
      | Inl _ \<Rightarrow>
          (case write_handle db brainId h1 of
             Inr db' \<Rightarrow> Inr db'
           | Inl _ \<Rightarrow> write_handle db brainId h2))"

text \<open>\<open>draw i k\<close> is the \<open>k\<close>-th handle drawn for the \<open>i\<close>-th brain without one.\<close>

fun assign_handles :: "odb \<Rightarrow> (nat \<Rightarrow> nat \<Rightarrow> string) \<Rightarrow> nat \<Rightarrow> string list \<Rightarrow> odb \<times> sql_error option" where
  "assign_handles db draw i [] = (db, None)"
| "assign_handles db draw i (b # bs) =
     (case assignBrainHandle db b (draw i 0) (draw i 1) (draw i 2) of
        Inl e \<Rightarrow> (db, Some e)
      | Inr db' \<Rightarrow> assign_handles db' draw (Suc i) bs)"

definition listAccessibleBrains ::
  "odb \<Rightarrow> (nat \<Rightarrow> nat \<Rightarrow> string) \<Rightarrow> string list \<Rightarrow> odb \<times> (sql_error + accessible_brain list)" where
  "listAccessibleBrains db draw userIds =
     (let fst_list = queryAccessibleBrains db userIds;
          unnamed = filter (\<lambda>b. ab_handle b = []) fst_list
      in if unnamed = [] then (db, Inr fst_list)
         else (case assign_handles db draw 0 (map ab_brain_id unnamed) of
                 (db', Some e) \<Rightarrow> (db', Inl e)
               | (db', None) \<Rightarrow> (db', Inr (queryAccessibleBrains db' userIds))))"

definition fold_stewarded ::
  "string list \<times> (string \<times> brain_ref) list \<Rightarrow> brain_access_row
     \<Rightarrow> string list \<times> (string \<times> brain_ref) list" where
  "fold_stewarded st r =
     (case st of (opened, byId) \<Rightarrow>
        let k = b_id (r_brain r) in
        case row_role r of
          Some role \<Rightarrow> (k # opened, byId)
        | None \<Rightarrow>
            if \<not> stewardsBrain (r_org_role r) then (opened, byId)
            else (case map_of byId k of
                    Some ex \<Rightarrow>
                      (opened, AList.update k
                         (ex\<lparr>ab_org_role := higher_org_role (ab_org_role ex) (r_org_role r)\<rparr>) byId)
                  | None \<Rightarrow> (opened, AList.update k (row_ref r) byId)))"

definition listStewardedBrains :: "odb \<Rightarrow> string list \<Rightarrow> brain_ref list" where
  "listStewardedBrains db userIds =
     (case foldl fold_stewarded ([], []) (queryBrainRows db userIds) of
        (opened, byId) \<Rightarrow> filter (\<lambda>b. ab_brain_id b \<notin> set opened) (map snd byId))"

section \<open>What the fold keeps\<close>

lemma ab_role_with_role [simp]:
  "ab_role (with_role q b) = q" "ab_brain_id (with_role q b) = ab_brain_id b"
  "ab_org_role (with_role q b) = ab_org_role b"
  by (simp_all add: with_role_def brain_ref.extend_def)

lemma row_ref_simps [simp]:
  "ab_brain_id (row_ref r) = b_id (r_brain r)" "ab_org_role (row_ref r) = r_org_role r"
  "ab_org_id (row_ref r) = b_org (r_brain r)" "ab_visibility (row_ref r) = b_visibility (r_brain r)"
  by (simp_all add: row_ref_def Let_def)

text \<open>After the rows \<open>seen\<close>, each entry holds the highest role those rows admit it at.\<close>

definition fold_inv ::
  "brain_access_row list \<Rightarrow> (string \<times> accessible_brain) list \<Rightarrow> bool" where
  "fold_inv seen byId \<longleftrightarrow>
     distinct (map fst byId)
     \<and> (\<forall>k. (map_of byId k \<noteq> None) = (\<exists>r \<in> set seen. b_id (r_brain r) = k \<and> row_role r \<noteq> None))
     \<and> (\<forall>k e. map_of byId k = Some e \<longrightarrow>
          ab_brain_id e = k
          \<and> (\<exists>r \<in> set seen. b_id (r_brain r) = k \<and> row_role r = Some (ab_role e))
          \<and> (\<forall>r \<in> set seen. \<forall>q. b_id (r_brain r) = k \<and> row_role r = Some q \<longrightarrow> q \<le> ab_role e))"

lemma fold_inv_Nil [simp]: "fold_inv [] []"
  by (simp add: fold_inv_def)

definition ex_role :: "role \<Rightarrow> accessible_brain \<Rightarrow> role option \<Rightarrow> accessible_brain" where
  "ex_role role ex orgRole =
     ex\<lparr>ab_role := (if roleAtLeast role (ab_role ex) then role else ab_role ex),
        ab_org_role := higher_org_role (ab_org_role ex) orgRole\<rparr>"

lemma fold_inv_step:
  assumes inv: "fold_inv seen byId"
  shows "fold_inv (seen @ [r]) (fold_accessible byId r)"
proof (cases "row_role r")
  case None
  with inv show ?thesis
    by (auto simp: fold_inv_def fold_accessible_def simp del: map_of_eq_Some_iff Some_eq_map_of_iff)
next
  case (Some role)
  let ?k = "b_id (r_brain r)"
  show ?thesis
  proof (cases "map_of byId ?k")
    case None
    with inv have fresh: "\<forall>x \<in> set seen. b_id (r_brain x) = ?k \<longrightarrow> row_role x = None"
      unfolding fold_inv_def by blast
    from None Some have "fold_accessible byId r = AList.update ?k (with_role role (row_ref r)) byId"
      by (simp add: fold_accessible_def)
    with Some inv fresh show ?thesis
      by (auto simp: fold_inv_def update_conv' distinct_update
          simp del: map_of_eq_Some_iff Some_eq_map_of_iff split: if_splits)
  next
    case e: (Some e)
    let ?new = "ex_role role e (r_org_role r)"
    have new: "fold_accessible byId r = AList.update ?k ?new byId"
      using Some e by (simp add: fold_accessible_def ex_role_def)
    from inv e have old: "ab_brain_id e = ?k"
      "\<exists>x \<in> set seen. b_id (r_brain x) = ?k \<and> row_role x = Some (ab_role e)"
      "\<forall>x \<in> set seen. \<forall>q. b_id (r_brain x) = ?k \<and> row_role x = Some q \<longrightarrow> q \<le> ab_role e"
      unfolding fold_inv_def by blast+
    have "ab_role ?new = max role (ab_role e)" "ab_brain_id ?new = ?k"
      using old by (auto simp: ex_role_def max_def)
    with old Some have
      "\<exists>x \<in> set (seen @ [r]). b_id (r_brain x) = ?k \<and> row_role x = Some (ab_role ?new)"
      "\<forall>x \<in> set (seen @ [r]). \<forall>q. b_id (r_brain x) = ?k \<and> row_role x = Some q \<longrightarrow> q \<le> ab_role ?new"
      by (auto simp: max_def le_max_iff_disj)
    with inv Some \<open>ab_brain_id ?new = ?k\<close> show ?thesis
      unfolding new fold_inv_def
      by (auto simp: update_conv' distinct_update simp del: map_of_eq_Some_iff Some_eq_map_of_iff)
  qed
qed

lemma fold_inv_foldl: "fold_inv seen byId \<Longrightarrow> fold_inv (seen @ rows) (foldl fold_accessible byId rows)"
proof (induction rows arbitrary: seen byId)
  case Nil
  then show ?case by simp
next
  case (Cons r rows)
  from Cons.IH [OF fold_inv_step [OF Cons.prems, of r]] show ?case by simp
qed

lemma fold_inv_query: "fold_inv rows (foldl fold_accessible [] rows)"
  using fold_inv_foldl [of "[]" "[]" rows] by simp

lemma set_snd_map_of: "distinct (map fst al) \<Longrightarrow> b \<in> set (map snd al) \<longleftrightarrow> (\<exists>k. map_of al k = Some b)"
  by force

lemma queryAccessibleBrains_inv:
  "distinct (map ab_brain_id (queryAccessibleBrains db ids))"
  "b \<in> set (queryAccessibleBrains db ids) \<longleftrightarrow>
     map_of (foldl fold_accessible [] (queryBrainRows db ids)) (ab_brain_id b) = Some b"
proof -
  let ?al = "foldl fold_accessible [] (queryBrainRows db ids)"
  have inv: "fold_inv (queryBrainRows db ids) ?al" by (rule fold_inv_query)
  then have d: "distinct (map fst ?al)"
    and key: "\<And>k e. map_of ?al k = Some e \<Longrightarrow> ab_brain_id e = k"
    by (auto simp: fold_inv_def)
  have "\<forall>x \<in> set ?al. ab_brain_id (snd x) = fst x"
    using d key by (metis map_of_eq_Some_iff prod.collapse)
  then have "map ab_brain_id (map snd ?al) = map fst ?al" by simp
  with d show "distinct (map ab_brain_id (queryAccessibleBrains db ids))"
    unfolding queryAccessibleBrains_def by metis
  show "b \<in> set (queryAccessibleBrains db ids) \<longleftrightarrow> map_of ?al (ab_brain_id b) = Some b"
    unfolding queryAccessibleBrains_def set_snd_map_of [OF d] using key by auto
qed

text \<open>
  The rows of the query, read off the tables: a membership in the brain's organization with
  the member's own grant, or a grant with any membership of the person in that organization.
\<close>

definition open_row :: "odb \<Rightarrow> brain_access_row \<Rightarrow> bool" where
  "open_row db r \<longleftrightarrow>
     r_brain r \<in> set (t_brains db) \<and> r_org r \<in> set (t_orgs db) \<and> r_conn r \<in> set (t_conns db)
     \<and> o_id (r_org r) = b_org (r_brain r) \<and> b_conn (r_brain r) = Some (c_id (r_conn r))
     \<and> o_suspended (r_org r) = None \<and> b_archived (r_brain r) = None"

lemma in_leg_members:
  "r \<in> set (query_leg_members db ids) \<longleftrightarrow>
     open_row db r \<and> (\<exists>m \<in> set (t_members db). m_org m = b_org (r_brain r) \<and> m_user m \<in> set ids
        \<and> r_org_role r = Some (m_role m)
        \<and> r_grant_role r = getBrainGrant db (b_id (r_brain r)) (m_user m))"
  (is "?L \<longleftrightarrow> ?R")
proof
  assume ?L
  then show ?R by (auto simp: query_leg_members_def open_row_def)
next
  assume ?R
  then obtain m where m: "m \<in> set (t_members db)" "m_org m = b_org (r_brain r)" "m_user m \<in> set ids"
    and r: "r = \<lparr>r_brain = r_brain r, r_org = r_org r, r_conn = r_conn r, r_org_role = Some (m_role m),
      r_grant_role = getBrainGrant db (b_id (r_brain r)) (m_user m)\<rparr>" and op: "open_row db r"
    by (metis (full_types) brain_access_row.surjective unit.exhaust)
  have "\<lparr>r_brain = r_brain r, r_org = r_org r, r_conn = r_conn r, r_org_role = Some (m_role m),
      r_grant_role = getBrainGrant db (b_id (r_brain r)) (m_user m)\<rparr> \<in> set (query_leg_members db ids)"
    using m op unfolding query_leg_members_def open_row_def set_concat set_map image_image Bex_def
    by (auto intro!: bexI [of _ m] bexI [of _ "r_org r"] bexI [of _ "r_brain r"] bexI [of _ "r_conn r"])
  with r show ?L by metis
qed

lemma in_leg_grants:
  "r \<in> set (query_leg_grants db ids) \<longleftrightarrow>
     open_row db r \<and> (\<exists>g \<in> set (t_grants db). g_brain g = b_id (r_brain r) \<and> g_user g \<in> set ids
        \<and> r_grant_role r = Some (g_role g)
        \<and> r_org_role r \<in> set (memberships_of db ids (b_org (r_brain r))))"
  (is "?L \<longleftrightarrow> ?R")
proof
  assume ?L
  then show ?R by (auto simp: query_leg_grants_def open_row_def)
next
  assume ?R
  then obtain g where g: "g \<in> set (t_grants db)" "g_brain g = b_id (r_brain r)" "g_user g \<in> set ids"
    "r_org_role r \<in> set (memberships_of db ids (b_org (r_brain r)))"
    and r: "r = \<lparr>r_brain = r_brain r, r_org = r_org r, r_conn = r_conn r,
      r_org_role = r_org_role r, r_grant_role = Some (g_role g)\<rparr>" and op: "open_row db r"
    by (metis (full_types) brain_access_row.surjective unit.exhaust)
  have "\<lparr>r_brain = r_brain r, r_org = r_org r, r_conn = r_conn r,
      r_org_role = r_org_role r, r_grant_role = Some (g_role g)\<rparr> \<in> set (query_leg_grants db ids)"
    using g op unfolding query_leg_grants_def open_row_def
    by (auto intro!: bexI [of _ g] bexI [of _ "r_org r"] bexI [of _ "r_brain r"] bexI [of _ "r_conn r"])
  with r show ?L by metis
qed

lemma in_queryBrainRows:
  "r \<in> set (queryBrainRows db ids) \<longleftrightarrow> r \<in> set (query_leg_members db ids) \<or> r \<in> set (query_leg_grants db ids)"
  by (auto simp: queryBrainRows_def in_leg_members in_leg_grants)

lemma getBrainGrant_Some:
  "getBrainGrant db k u = Some q \<Longrightarrow> \<exists>g \<in> set (t_grants db). g_brain g = k \<and> g_user g = u \<and> g_role g = q"
  by (auto simp: getBrainGrant_def find_Some_iff)

lemma getBrainGrant_None:
  "getBrainGrant db k u = None \<longleftrightarrow> (\<forall>g \<in> set (t_grants db). \<not> (g_brain g = k \<and> g_user g = u))"
  by (auto simp: getBrainGrant_def find_None_iff)

lemma row_open: "r \<in> set (queryBrainRows db ids) \<Longrightarrow> open_row db r"
  by (auto simp: in_queryBrainRows in_leg_members in_leg_grants)

lemma row_brain_in: "r \<in> set (queryBrainRows db ids) \<Longrightarrow> r_brain r \<in> set (t_brains db)"
  by (auto dest: row_open simp: open_row_def)

lemma row_without_grant:
  assumes "r \<in> set (queryBrainRows db ids)"
    and "\<forall>u \<in> set ids. getBrainGrant db (b_id (r_brain r)) u = None"
  shows "r_grant_role r = None"
  using assms unfolding in_queryBrainRows in_leg_members in_leg_grants
  by (auto simp: getBrainGrant_None)

lemma row_closed:
  assumes r: "r \<in> set (queryBrainRows db ids)" and id: "b_id (r_brain r) = k"
    and "\<forall>x \<in> set (t_brains db). b_id x = k \<longrightarrow> is_private (b_visibility x)"
    and "\<forall>u \<in> set ids. getBrainGrant db k u = None"
  shows "row_role r = None"
  using row_without_grant [OF r] row_brain_in [OF r] id assms(3,4)
  by (simp add: row_role_def effectiveBrainRole_None_iff)

lemma accessible_ids:
  "k \<in> ab_brain_id ` set (queryAccessibleBrains db ids)
     \<longleftrightarrow> map_of (foldl fold_accessible [] (queryBrainRows db ids)) k \<noteq> None"
  (is "_ \<longleftrightarrow> map_of ?al k \<noteq> None")
proof
  assume "k \<in> ab_brain_id ` set (queryAccessibleBrains db ids)"
  then obtain b where b: "b \<in> set (queryAccessibleBrains db ids)" and k: "k = ab_brain_id b" by blast
  from b have "map_of ?al (ab_brain_id b) = Some b" by (simp only: queryAccessibleBrains_inv(2))
  with k show "map_of ?al k \<noteq> None" by simp
next
  assume "map_of ?al k \<noteq> None"
  then obtain e where e: "map_of ?al k = Some e" by blast
  then have "ab_brain_id e = k"
    using fold_inv_query [of "queryBrainRows db ids"] unfolding fold_inv_def by blast
  with e have "e \<in> set (queryAccessibleBrains db ids)" by (simp only: queryAccessibleBrains_inv(2))
  with \<open>ab_brain_id e = k\<close> show "k \<in> ab_brain_id ` set (queryAccessibleBrains db ids)" by blast
qed

lemma accessible_row:
  assumes "b \<in> set (queryAccessibleBrains db ids)"
  obtains r where "r \<in> set (queryBrainRows db ids)" "b_id (r_brain r) = ab_brain_id b"
    "row_role r = Some (ab_role b)"
  using assms fold_inv_query [of "queryBrainRows db ids"]
  unfolding queryAccessibleBrains_inv(2) fold_inv_def by blast

definition org_of_rows :: "brain_access_row list \<Rightarrow> (string \<times> accessible_brain) list \<Rightarrow> bool" where
  "org_of_rows rows byId \<longleftrightarrow>
     (\<forall>k e. map_of byId k = Some e \<longrightarrow> (\<exists>r \<in> set rows. ab_org_id e = b_org (r_brain r)))"

lemma org_of_rows_step:
  assumes inv: "org_of_rows rows byId" and r: "r \<in> set rows"
  shows "org_of_rows rows (fold_accessible byId r)"
proof (cases "row_role r")
  case None
  with inv show ?thesis by (simp add: fold_accessible_def)
next
  case (Some role)
  show ?thesis
  proof (cases "map_of byId (b_id (r_brain r))")
    case None
    have "ab_org_id (with_role role (row_ref r)) = b_org (r_brain r)"
      by (simp add: with_role_def row_ref_def Let_def brain_ref.defs)
    with inv r Some None show ?thesis
      by (auto simp: org_of_rows_def fold_accessible_def update_conv'
          simp del: map_of_eq_Some_iff Some_eq_map_of_iff)
  next
    case e: (Some e)
    with inv Some show ?thesis
      by (auto simp: org_of_rows_def fold_accessible_def update_conv'
          simp del: map_of_eq_Some_iff Some_eq_map_of_iff)
  qed
qed

lemma org_of_rows_foldl:
  "org_of_rows rows byId \<Longrightarrow> set rs \<subseteq> set rows \<Longrightarrow> org_of_rows rows (foldl fold_accessible byId rs)"
  by (induction rs arbitrary: byId) (simp_all add: org_of_rows_step)

lemma accessible_org:
  assumes "b \<in> set (queryAccessibleBrains db ids)"
  obtains r where "r \<in> set (queryBrainRows db ids)" "ab_org_id b = b_org (r_brain r)"
proof -
  have "org_of_rows (queryBrainRows db ids) (foldl fold_accessible [] (queryBrainRows db ids))"
    by (rule org_of_rows_foldl) (simp_all add: org_of_rows_def)
  with assms that show thesis unfolding queryAccessibleBrains_inv(2) org_of_rows_def by blast
qed

lemma accessible_exact:
  "distinct (map ab_brain_id (queryAccessibleBrains db ids))
   \<and> (\<forall>k. k \<in> ab_brain_id ` set (queryAccessibleBrains db ids)
        \<longleftrightarrow> (\<exists>r \<in> set (queryBrainRows db ids). b_id (r_brain r) = k \<and> row_role r \<noteq> None))
   \<and> (\<forall>b \<in> set (queryAccessibleBrains db ids).
        (\<exists>r \<in> set (queryBrainRows db ids). b_id (r_brain r) = ab_brain_id b \<and> row_role r = Some (ab_role b))
        \<and> (\<forall>r \<in> set (queryBrainRows db ids). \<forall>q.
             b_id (r_brain r) = ab_brain_id b \<and> row_role r = Some q \<longrightarrow> q \<le> ab_role b))"
proof -
  let ?rows = "queryBrainRows db ids"
  let ?al = "foldl fold_accessible [] ?rows"
  have inv: "fold_inv ?rows ?al" by (rule fold_inv_query)
  have mem: "k \<in> ab_brain_id ` set (queryAccessibleBrains db ids) \<longleftrightarrow> map_of ?al k \<noteq> None" for k
    by (rule accessible_ids)
  have dom: "(map_of ?al k \<noteq> None) = (\<exists>r \<in> set ?rows. b_id (r_brain r) = k \<and> row_role r \<noteq> None)" for k
    using inv unfolding fold_inv_def by blast
  have val: "(\<exists>r \<in> set ?rows. b_id (r_brain r) = ab_brain_id b \<and> row_role r = Some (ab_role b))
      \<and> (\<forall>r \<in> set ?rows. \<forall>q. b_id (r_brain r) = ab_brain_id b \<and> row_role r = Some q \<longrightarrow> q \<le> ab_role b)"
    if "b \<in> set (queryAccessibleBrains db ids)" for b
    using that inv unfolding queryAccessibleBrains_inv(2) fold_inv_def by blast
  have vals: "\<forall>b \<in> set (queryAccessibleBrains db ids).
        (\<exists>r \<in> set ?rows. b_id (r_brain r) = ab_brain_id b \<and> row_role r = Some (ab_role b))
        \<and> (\<forall>r \<in> set ?rows. \<forall>q.
             b_id (r_brain r) = ab_brain_id b \<and> row_role r = Some q \<longrightarrow> q \<le> ab_role b)"
    by (rule ballI) (rule val)
  show ?thesis
    unfolding mem dom by (intro conjI allI refl queryAccessibleBrains_inv(1) vals)
qed

text \<open>
  C4.  \<open>queryAccessibleBrains\<close> computes exactly the access rule over the query's rows: a brain is
  listed once, if and only if some row of it is admitted by \<open>effectiveBrainRole\<close>, and the role
  it is listed with is one a row admits and is at least every role a row admits.
\<close>

theorem accessible_brains_exact:
  "distinct (map ab_brain_id (queryAccessibleBrains db ids))
   \<and> (\<forall>k. k \<in> ab_brain_id ` set (queryAccessibleBrains db ids)
        \<longleftrightarrow> (\<exists>r \<in> set (queryBrainRows db ids). b_id (r_brain r) = k \<and> row_role r \<noteq> None))
   \<and> (\<forall>b \<in> set (queryAccessibleBrains db ids).
        (\<exists>r \<in> set (queryBrainRows db ids). b_id (r_brain r) = ab_brain_id b \<and> row_role r = Some (ab_role b))
        \<and> (\<forall>r \<in> set (queryBrainRows db ids). \<forall>q.
             b_id (r_brain r) = ab_brain_id b \<and> row_role r = Some q \<longrightarrow> q \<le> ab_role b))"
  by (rule accessible_exact)

lemma sample_rows_ed:
  "r_closed \<in> set (queryBrainRows sample_db [''ed'']) \<and> b_id (r_brain r_closed) = ''closed''
     \<and> row_role r_closed = Some Admin"
  if "r_closed = \<lparr>r_brain = sample_brain ''closed'' ''private'' 1, r_org = hd (t_orgs sample_db),
        r_conn = hd (t_conns sample_db), r_org_role = Some Editor, r_grant_role = Some Admin\<rparr>"
  unfolding that
  by (simp add: in_queryBrainRows in_leg_members open_row_def sample_defs getBrainGrant_def
      row_role_def effectiveBrainRole_def maxRole_def)

theorem accessible_brains_exact_witness:
  "''closed'' \<in> ab_brain_id ` set (queryAccessibleBrains sample_db [''ed''])"
  using accessible_brains_exact [of sample_db "[''ed'']"] sample_rows_ed [OF refl] by blast

text \<open>
  A private brain is closed without a grant: whatever organization roles a person's linked
  identities hold, a brain that is private and that none of them holds a grant on is not in the
  list of brains they can open.
\<close>

theorem private_brain_needs_grant:
  assumes "\<forall>x \<in> set (t_brains db). b_id x = k \<longrightarrow> is_private (b_visibility x)"
    and "\<forall>u \<in> set ids. getBrainGrant db k u = None"
  shows "k \<notin> ab_brain_id ` set (queryAccessibleBrains db ids)"
proof
  assume "k \<in> ab_brain_id ` set (queryAccessibleBrains db ids)"
  then obtain b where b: "b \<in> set (queryAccessibleBrains db ids)" and k: "ab_brain_id b = k" by auto
  from accessible_row [OF b] obtain r where r: "r \<in> set (queryBrainRows db ids)"
    and id: "b_id (r_brain r) = k" and role: "row_role r = Some (ab_role b)" using k by metis
  from row_closed [OF r id assms] have "row_role r = None" .
  with role show False by simp
qed

theorem private_brain_needs_grant_witness:
  "''closed'' \<notin> ab_brain_id ` set (queryAccessibleBrains sample_db [''own'', ''adm''])"
  by (rule private_brain_needs_grant) (simp_all add: sample_defs getBrainGrant_def)

section \<open>Stewarded brains\<close>

definition steward_inv ::
  "brain_access_row list \<Rightarrow> string list \<times> (string \<times> brain_ref) list \<Rightarrow> bool" where
  "steward_inv seen st \<longleftrightarrow>
     distinct (map fst (snd st))
     \<and> (\<forall>k. k \<in> set (fst st) \<longleftrightarrow> (\<exists>r \<in> set seen. b_id (r_brain r) = k \<and> row_role r \<noteq> None))
     \<and> (\<forall>k. (map_of (snd st) k \<noteq> None) = (\<exists>r \<in> set seen. b_id (r_brain r) = k \<and> row_role r = None
                \<and> stewardsBrain (r_org_role r)))
     \<and> (\<forall>k e. map_of (snd st) k = Some e \<longrightarrow> ab_brain_id e = k)"

lemma steward_inv_step:
  assumes inv: "steward_inv seen st"
  shows "steward_inv (seen @ [r]) (fold_stewarded st r)"
proof -
  obtain opened byId where st: "st = (opened, byId)" by (cases st)
  show ?thesis
  proof (cases "row_role r")
    case (Some q)
    with inv show ?thesis by (auto simp: st steward_inv_def fold_stewarded_def)
  next
    case None
    show ?thesis
    proof (cases "stewardsBrain (r_org_role r)")
      case False
      with None inv show ?thesis by (auto simp: st steward_inv_def fold_stewarded_def)
    next
      case True
      show ?thesis
      proof (cases "map_of byId (b_id (r_brain r))")
        case nb: None
        with None True inv show ?thesis
          by (auto simp: st steward_inv_def fold_stewarded_def Let_def update_conv' distinct_update)
      next
        case (Some e)
        with None True inv show ?thesis
          by (auto simp: st steward_inv_def fold_stewarded_def Let_def update_conv' distinct_update)
      qed
    qed
  qed
qed

lemma steward_inv_foldl: "steward_inv seen st \<Longrightarrow> steward_inv (seen @ rows) (foldl fold_stewarded st rows)"
proof (induction rows arbitrary: seen st)
  case Nil
  then show ?case by simp
next
  case (Cons r rows)
  from Cons.IH [OF steward_inv_step [OF Cons.prems, of r]] show ?case by simp
qed

text \<open>
  C19.  No brain appears in both lists, and nothing an administrator stewards is lost: a brain is
  listed as stewarded exactly when no row of it admits the person while some row gives them an
  administrator's role in its organization.
\<close>

theorem stewarded_brains_exact:
  "ab_brain_id ` set (listStewardedBrains db ids) \<inter> ab_brain_id ` set (queryAccessibleBrains db ids) = {}
   \<and> (\<forall>k. k \<in> ab_brain_id ` set (listStewardedBrains db ids) \<longleftrightarrow>
        (\<forall>r \<in> set (queryBrainRows db ids). b_id (r_brain r) = k \<longrightarrow> row_role r = None)
        \<and> (\<exists>r \<in> set (queryBrainRows db ids). b_id (r_brain r) = k \<and> stewardsBrain (r_org_role r)))"
proof -
  let ?rows = "queryBrainRows db ids"
  obtain opened byId where st: "foldl fold_stewarded ([], []) ?rows = (opened, byId)"
    by (cases "foldl fold_stewarded ([], []) ?rows")
  have "steward_inv [] ([], [])" by (simp add: steward_inv_def)
  from steward_inv_foldl [OF this, of ?rows] have inv: "steward_inv ?rows (opened, byId)"
    by (simp add: st)
  then have d: "distinct (map fst byId)" by (simp add: steward_inv_def)
  have mem: "k \<in> ab_brain_id ` set (listStewardedBrains db ids) \<longleftrightarrow> map_of byId k \<noteq> None \<and> k \<notin> set opened" for k
    using inv set_snd_map_of [OF d]
    by (auto simp: listStewardedBrains_def st steward_inv_def image_iff)
  have iff: "k \<in> ab_brain_id ` set (listStewardedBrains db ids) \<longleftrightarrow>
        (\<forall>r \<in> set ?rows. b_id (r_brain r) = k \<longrightarrow> row_role r = None)
        \<and> (\<exists>r \<in> set ?rows. b_id (r_brain r) = k \<and> stewardsBrain (r_org_role r))" for k
  proof -
    have op: "(k \<in> set opened) = (\<exists>r \<in> set ?rows. b_id (r_brain r) = k \<and> row_role r \<noteq> None)"
      using inv unfolding steward_inv_def fst_conv by blast
    have st: "(map_of byId k \<noteq> None) = (\<exists>r \<in> set ?rows. b_id (r_brain r) = k \<and> row_role r = None
        \<and> stewardsBrain (r_org_role r))"
      using inv unfolding steward_inv_def snd_conv by blast
    show ?thesis unfolding mem op st by metis
  qed
  have "k \<notin> ab_brain_id ` set (queryAccessibleBrains db ids)"
    if "k \<in> ab_brain_id ` set (listStewardedBrains db ids)" for k
  proof
    assume "k \<in> ab_brain_id ` set (queryAccessibleBrains db ids)"
    then obtain b where b: "b \<in> set (queryAccessibleBrains db ids)" "ab_brain_id b = k" by auto
    from accessible_row [OF b(1)] b(2) that iff [of k] show False by force
  qed
  then have "ab_brain_id ` set (listStewardedBrains db ids)
      \<inter> ab_brain_id ` set (queryAccessibleBrains db ids) = {}"
    by (metis disjoint_iff)
  then show ?thesis by (intro conjI allI iff)
qed

theorem stewarded_brains_exact_witness:
  "''closed'' \<in> ab_brain_id ` set (listStewardedBrains sample_db [''own''])"
proof -
  let ?r = "\<lparr>r_brain = sample_brain ''closed'' ''private'' 1, r_org = hd (t_orgs sample_db),
        r_conn = hd (t_conns sample_db), r_org_role = Some Owner, r_grant_role = None\<rparr>"
  have steward: "?r \<in> set (queryBrainRows sample_db [''own'']) \<and> b_id (r_brain ?r) = ''closed''
      \<and> stewardsBrain (r_org_role ?r)"
    by (simp add: in_queryBrainRows in_leg_members open_row_def sample_defs getBrainGrant_def
        stewardsBrain_def)
  have shut: "\<forall>r \<in> set (queryBrainRows sample_db [''own'']). b_id (r_brain r) = ''closed'' \<longrightarrow> row_role r = None"
  proof (intro ballI impI)
    fix r assume r: "r \<in> set (queryBrainRows sample_db [''own''])" and k: "b_id (r_brain r) = ''closed''"
    show "row_role r = None"
      by (rule row_closed [OF r k]) (simp_all add: sample_defs getBrainGrant_def)
  qed
  from steward have "\<exists>r \<in> set (queryBrainRows sample_db [''own'']). b_id (r_brain r) = ''closed''
      \<and> stewardsBrain (r_org_role r)" by (intro bexI [of _ ?r]) simp_all
  with shut show ?thesis
    by (intro stewarded_brains_exact [of sample_db "[''own'']", THEN conjunct2, THEN spec, THEN iffD2] conjI)
qed

end
