(* ===== verification/Invites.thy ===== *)
theory Invites
  imports OrgAccess
begin

text \<open>
  Claiming pending invitations (\<open>src/lib/invites.ts\<close>): which invitation of a person becomes a
  membership, which becomes a grant on one brain, and the statements that carry the plan out.
  The source tells invitations apart by object identity; the model does by their position in the
  list.  A statement that fails leaves what was written before it in place, so a run returns the
  database it reached beside its outcome.
\<close>

record matched_invite =
  mi_id :: string
  mi_org :: string
  mi_role :: role
  mi_user :: string
  mi_brain :: "string option"

record invite_claim =
  ic_id :: string
  ic_org :: string
  ic_user :: string
  ic_role :: role
  ic_joins :: bool
  ic_brain :: "string option"
  ic_grants :: bool

type_synonym carriers = "(string \<times> nat \<times> matched_invite) list"

text \<open>\<open>if (!best || !roleAtLeast(best.role, iv.role)) joinFor.set(key, iv)\<close>\<close>

definition offer :: "string \<Rightarrow> nat \<Rightarrow> matched_invite \<Rightarrow> carriers \<Rightarrow> carriers" where
  "offer k i iv best =
     (case map_of best k of
        Some (_, b) \<Rightarrow> if roleAtLeast (mi_role b) (mi_role iv) then best else AList.update k (i, iv) best
      | None \<Rightarrow> AList.update k (i, iv) best)"

definition plan_step ::
  "string list \<Rightarrow> string list \<Rightarrow> carriers \<times> carriers \<Rightarrow> nat \<times> matched_invite \<Rightarrow> carriers \<times> carriers" where
  "plan_step alreadyIn alreadyGranted st row =
     (case (st, row) of ((joinFor, grantFor), (i, iv)) \<Rightarrow>
        (case nonempty (mi_brain iv) of
           Some b \<Rightarrow> if b \<in> set alreadyGranted then st else (joinFor, offer b i iv grantFor)
         | None \<Rightarrow> if mi_org iv \<in> set alreadyIn then st else (offer (mi_org iv) i iv joinFor, grantFor)))"

definition carries :: "carriers \<Rightarrow> string \<Rightarrow> nat \<Rightarrow> bool" where
  "carries best k i = (case map_of best k of Some (j, _) \<Rightarrow> j = i | None \<Rightarrow> False)"

definition claim_of :: "carriers \<times> carriers \<Rightarrow> nat \<times> matched_invite \<Rightarrow> invite_claim" where
  "claim_of st row =
     (case (st, row) of ((joinFor, grantFor), (i, iv)) \<Rightarrow>
        \<lparr>ic_id = mi_id iv, ic_org = mi_org iv, ic_user = mi_user iv, ic_role = mi_role iv,
          ic_joins = (nonempty (mi_brain iv) = None \<and> carries joinFor (mi_org iv) i),
          ic_brain = nonempty (mi_brain iv),
          ic_grants = (case nonempty (mi_brain iv) of Some b \<Rightarrow> carries grantFor b i | None \<Rightarrow> False)\<rparr>)"

definition numbered :: "'a list \<Rightarrow> (nat \<times> 'a) list" where
  "numbered xs = zip [0..<length xs] xs"

definition planInviteClaims ::
  "matched_invite list \<Rightarrow> string list \<Rightarrow> string list \<Rightarrow> invite_claim list" where
  "planInviteClaims invites memberOrgIds grantedBrainIds =
     (let best = foldl (plan_step memberOrgIds grantedBrainIds) ([], []) (numbered invites)
      in map (claim_of best) (numbered invites))"

definition findPendingInvites :: "odb \<Rightarrow> nat \<Rightarrow> string list \<Rightarrow> matched_invite list" where
  "findPendingInvites db now userIds =
     (if userIds = [] then []
      else [\<lparr>mi_id = i_id i, mi_org = i_org i, mi_role = i_role i, mi_user = u_id u, mi_brain = i_brain i\<rparr>.
             i \<leftarrow> t_invites db, u \<leftarrow> t_users db,
             sql_lower (u_email u) = sql_lower (i_email i) \<and> u_id u \<in> set userIds \<and> pending now i])"

text \<open>\<open>SELECT DISTINCT\<close> over the memberships and the grants of the person.\<close>

definition member_org_ids :: "odb \<Rightarrow> string list \<Rightarrow> string list" where
  "member_org_ids db userIds = uniq (map m_org (filter (\<lambda>m. m_user m \<in> set userIds) (t_members db)))"

definition granted_brain_ids :: "odb \<Rightarrow> string list \<Rightarrow> string list" where
  "granted_brain_ids db userIds = uniq (map g_brain (filter (\<lambda>g. g_user g \<in> set userIds) (t_grants db)))"

definition then_do :: "odb \<times> sql_error option \<Rightarrow> (odb \<Rightarrow> odb \<times> sql_error option) \<Rightarrow> odb \<times> sql_error option" where
  "then_do r k = (case r of (db, None) \<Rightarrow> k db | (db, Some e) \<Rightarrow> (db, Some e))"

text \<open>A statement run on its own: on failure the database stays as it was.\<close>

definition run_statement :: "odb \<Rightarrow> (sql_error + odb) \<Rightarrow> odb \<times> sql_error option" where
  "run_statement db r = (case r of Inl e \<Rightarrow> (db, Some e) | Inr db' \<Rightarrow> (db', None))"

definition apply_claim :: "nat \<Rightarrow> invite_claim \<Rightarrow> odb \<Rightarrow> odb \<times> sql_error option" where
  "apply_claim now c db =
     then_do
       (if ic_joins c then run_statement db (addMembership db now (ic_org c) (ic_user c) (ic_role c))
        else (db, None))
       (\<lambda>db1. then_do
         (case (ic_grants c, ic_brain c) of
            (True, Some b) \<Rightarrow> run_statement db1 (setBrainGrant db1 now b (ic_user c) (ic_role c) None)
          | _ \<Rightarrow> (db1, None))
         (\<lambda>db2. (acceptInvite db2 now (ic_id c), None)))"

fun apply_claims :: "nat \<Rightarrow> invite_claim list \<Rightarrow> odb \<Rightarrow> odb \<times> sql_error option" where
  "apply_claims now [] db = (db, None)"
| "apply_claims now (c # cs) db = then_do (apply_claim now c db) (apply_claims now cs)"

definition claimPendingInvites ::
  "odb \<Rightarrow> nat \<Rightarrow> string list \<Rightarrow> odb \<times> (sql_error + invite_claim list)" where
  "claimPendingInvites db now userIds =
     (let invites = findPendingInvites db now userIds in
      if invites = [] then (db, Inr [])
      else let claims = planInviteClaims invites (member_org_ids db userIds) (granted_brain_ids db userIds) in
        case apply_claims now claims db of
          (db', None) \<Rightarrow> (db', Inr claims)
        | (db', Some e) \<Rightarrow> (db', Inl e))"

section \<open>The plan\<close>

definition carrier_inv ::
  "(string \<Rightarrow> matched_invite \<Rightarrow> bool) \<Rightarrow> (nat \<times> matched_invite) list \<Rightarrow> carriers \<Rightarrow> bool" where
  "carrier_inv P seen best \<longleftrightarrow>
     (\<forall>k. (map_of best k \<noteq> None) = (\<exists>x \<in> set seen. P k (snd x)))
     \<and> (\<forall>k x. map_of best k = Some x \<longrightarrow>
          x \<in> set seen \<and> P k (snd x)
          \<and> (\<forall>y \<in> set seen. P k (snd y) \<longrightarrow> mi_role (snd y) \<le> mi_role (snd x)))"

lemma map_of_offer:
  "map_of (offer k i v best) k' =
     (if k' \<noteq> k then map_of best k'
      else case map_of best k of
        Some (j, b) \<Rightarrow> if mi_role v \<le> mi_role b then Some (j, b) else Some (i, v)
      | None \<Rightarrow> Some (i, v))"
  by (auto simp: offer_def update_conv' simp del: map_of_eq_Some_iff Some_eq_map_of_iff
      split: option.splits prod.splits)

lemma carrier_inv_skip: "carrier_inv P seen best \<Longrightarrow> \<forall>k. \<not> P k v \<Longrightarrow> carrier_inv P (seen @ [(i, v)]) best"
  by (auto simp: carrier_inv_def simp del: map_of_eq_Some_iff Some_eq_map_of_iff)

lemma carrier_inv_offer:
  assumes inv: "carrier_inv P seen best" and P: "\<forall>k'. P k' v \<longleftrightarrow> k' = k"
  shows "carrier_inv P (seen @ [(i, v)]) (offer k i v best)"
proof (cases "map_of best k")
  case None
  with inv have "\<forall>x \<in> set seen. \<not> P k (snd x)" unfolding carrier_inv_def by blast
  with None inv P show ?thesis
    by (auto simp: carrier_inv_def map_of_offer simp del: map_of_eq_Some_iff Some_eq_map_of_iff)
next
  case (Some x)
  then obtain j b where x: "map_of best k = Some (j, b)" by (cases x) auto
  with inv have old: "(j, b) \<in> set seen" "P k b"
    "\<forall>y \<in> set seen. P k (snd y) \<longrightarrow> mi_role (snd y) \<le> mi_role b"
    unfolding carrier_inv_def by force+
  show ?thesis
  proof (cases "mi_role v \<le> mi_role b")
    case True
    with inv x P old show ?thesis
      by (auto simp: carrier_inv_def map_of_offer simp del: map_of_eq_Some_iff Some_eq_map_of_iff)
  next
    case False
    then have "\<forall>y \<in> set seen. P k (snd y) \<longrightarrow> mi_role (snd y) \<le> mi_role v"
      using old(3) by fastforce
    with False inv x P old show ?thesis
      by (auto simp: carrier_inv_def map_of_offer simp del: map_of_eq_Some_iff Some_eq_map_of_iff)
  qed
qed

definition wants_join :: "string list \<Rightarrow> string \<Rightarrow> matched_invite \<Rightarrow> bool" where
  "wants_join alreadyIn k v \<longleftrightarrow> nonempty (mi_brain v) = None \<and> mi_org v = k \<and> k \<notin> set alreadyIn"

definition wants_grant :: "string list \<Rightarrow> string \<Rightarrow> matched_invite \<Rightarrow> bool" where
  "wants_grant alreadyGranted k v \<longleftrightarrow> nonempty (mi_brain v) = Some k \<and> k \<notin> set alreadyGranted"

lemma plan_step_inv:
  assumes "carrier_inv (wants_join a) seen j" "carrier_inv (wants_grant b) seen g"
  shows "carrier_inv (wants_join a) (seen @ [x]) (fst (plan_step a b (j, g) x))
    \<and> carrier_inv (wants_grant b) (seen @ [x]) (snd (plan_step a b (j, g) x))"
proof -
  obtain i v where x: "x = (i, v)" by (cases x)
  show ?thesis
  proof (cases "nonempty (mi_brain v)")
    case None
    then have "\<forall>k. \<not> wants_grant b k v" by (simp add: wants_grant_def)
    moreover have "\<forall>k. wants_join a k v \<longleftrightarrow> k = mi_org v \<and> mi_org v \<notin> set a"
      using None by (auto simp: wants_join_def)
    ultimately show ?thesis
      using assms None by (simp add: x plan_step_def carrier_inv_skip carrier_inv_offer)
  next
    case (Some k0)
    then have "\<forall>k. \<not> wants_join a k v" by (simp add: wants_join_def)
    moreover have "\<forall>k. wants_grant b k v \<longleftrightarrow> k = k0 \<and> k0 \<notin> set b"
      using Some by (auto simp: wants_grant_def)
    ultimately show ?thesis
      using assms Some by (simp add: x plan_step_def carrier_inv_skip carrier_inv_offer)
  qed
qed

lemma plan_foldl_inv:
  "carrier_inv (wants_join a) seen (fst st) \<Longrightarrow> carrier_inv (wants_grant b) seen (snd st) \<Longrightarrow>
   carrier_inv (wants_join a) (seen @ xs) (fst (foldl (plan_step a b) st xs))
   \<and> carrier_inv (wants_grant b) (seen @ xs) (snd (foldl (plan_step a b) st xs))"
proof (induction xs arbitrary: seen st)
  case Nil
  then show ?case by simp
next
  case (Cons x xs)
  obtain j g where st: "st = (j, g)" by (cases st)
  from plan_step_inv [of a seen j b g x] Cons.prems
  have "carrier_inv (wants_join a) (seen @ [x]) (fst (plan_step a b st x))"
    "carrier_inv (wants_grant b) (seen @ [x]) (snd (plan_step a b st x))"
    by (simp_all add: st)
  from Cons.IH [OF this] show ?case by simp
qed

lemma carrier_inv_Nil: "carrier_inv P [] []"
  by (simp add: carrier_inv_def)

lemma filter_unique:
  assumes "distinct ys" "y \<in> set ys" "\<forall>z \<in> set ys. P z \<longleftrightarrow> z = y"
  shows "filter P ys = [y]"
proof -
  have "filter P ys = filter (\<lambda>z. z = y) ys" using assms(3) by (intro filter_cong) auto
  also have "... = [y]" using assms(1,2) by (induction ys) (auto simp: filter_empty_conv)
  finally show ?thesis .
qed

lemma distinct_numbered: "distinct (numbered xs)"
  by (metis distinct_map distinct_upt length_map length_upt map_fst_zip minus_nat.diff_0 numbered_def)

lemma numbered_inject: "(i, x) \<in> set (numbered xs) \<Longrightarrow> (i, y) \<in> set (numbered xs) \<Longrightarrow> x = y"
  by (auto simp: numbered_def set_zip)

lemma map_snd_numbered: "map snd (numbered xs) = xs"
  by (simp add: numbered_def)

lemma set_snd_numbered: "snd ` set (numbered xs) = set xs"
  by (metis list.set_map map_snd_numbered)

text \<open>One carrier per key: the rows a carrier list picks are none, or exactly the best offer.\<close>

lemma carrier_filter:
  assumes inv: "carrier_inv P (numbered xs) best"
  shows "filter (\<lambda>(i, v). P' v \<and> carries best k i) (numbered xs) =
           (case map_of best k of
              None \<Rightarrow> []
            | Some x \<Rightarrow> if P' (snd x) then [x] else [])"
proof (cases "map_of best k")
  case None
  then show ?thesis by (simp add: carries_def filter_empty_conv)
next
  case (Some x)
  obtain j v where x: "x = (j, v)" by (cases x)
  from inv Some have mem: "(j, v) \<in> set (numbered xs)" unfolding carrier_inv_def x by blast
  have only: "\<forall>z \<in> set (numbered xs). carries best k (fst z) \<longleftrightarrow> z = (j, v)"
    using mem numbered_inject Some unfolding x by (force simp: carries_def)
  show ?thesis
  proof (cases "P' v")
    case True
    have "filter (\<lambda>(i, v). P' v \<and> carries best k i) (numbered xs) = [(j, v)]"
      using True only by (intro filter_unique distinct_numbered mem) auto
    with True show ?thesis unfolding Some x by simp
  next
    case False
    have "filter (\<lambda>(i, v). P' v \<and> carries best k i) (numbered xs) = []"
      using False only by (auto simp: filter_empty_conv)
    with False show ?thesis unfolding Some x by simp
  qed
qed

lemma Max_carrier:
  assumes inv: "carrier_inv P (numbered xs) best" and k: "map_of best k = Some x"
    and P: "\<forall>v. P k v \<longleftrightarrow> Q v"
  shows "mi_role (snd x) = Max (mi_role ` set (filter Q xs)) \<and> filter Q xs \<noteq> []"
proof -
  from inv k have mem: "x \<in> set (numbered xs)" "P k (snd x)"
    and top: "\<forall>y \<in> set (numbered xs). P k (snd y) \<longrightarrow> mi_role (snd y) \<le> mi_role (snd x)"
    unfolding carrier_inv_def by blast+
  have x: "snd x \<in> set (filter Q xs)" using mem P set_snd_numbered by force
  have "\<forall>v \<in> set xs. Q v \<longrightarrow> mi_role v \<le> mi_role (snd x)"
    using top P set_snd_numbered [of xs] by (metis (no_types, lifting) image_iff)
  then have "Max (mi_role ` set (filter Q xs)) = mi_role (snd x)"
    using x by (intro Max_eqI) auto
  moreover have "filter Q xs \<noteq> []" using x by (metis empty_iff list.set(1))
  ultimately show ?thesis by (intro conjI) simp
qed

definition joins_of :: "string \<Rightarrow> invite_claim list \<Rightarrow> invite_claim list" where
  "joins_of k claims = filter (\<lambda>c. ic_joins c \<and> ic_org c = k) claims"

definition grants_of :: "string \<Rightarrow> invite_claim list \<Rightarrow> invite_claim list" where
  "grants_of k claims = filter (\<lambda>c. ic_grants c \<and> ic_brain c = Some k) claims"

definition org_invites :: "string \<Rightarrow> matched_invite list \<Rightarrow> matched_invite list" where
  "org_invites k invites = filter (\<lambda>v. nonempty (mi_brain v) = None \<and> mi_org v = k) invites"

definition brain_invites :: "string \<Rightarrow> matched_invite list \<Rightarrow> matched_invite list" where
  "brain_invites k invites = filter (\<lambda>v. nonempty (mi_brain v) = Some k) invites"

text \<open>What the plan owes one key: nothing when it is held already or not offered, else one claim
  at the highest offered role.\<close>

definition one_at_best :: "bool \<Rightarrow> matched_invite list \<Rightarrow> invite_claim list \<Rightarrow> bool" where
  "one_at_best held offers cs \<longleftrightarrow>
     (if held \<or> offers = [] then cs = []
      else \<exists>c. cs = [c] \<and> ic_role c = Max (mi_role ` set offers))"

lemma one_at_best_carrier:
  assumes inv: "carrier_inv P (numbered xs) best"
    and P: "\<And>v. P k v \<longleftrightarrow> Q v \<and> \<not> held"
    and cs: "cs = map (claim_of st) (filter (\<lambda>(i, v). Q v \<and> carries best k i) (numbered xs))"
  shows "one_at_best held (filter Q xs) cs"
proof (cases "map_of best k")
  case None
  then have "cs = []" by (simp add: cs carries_def filter_empty_conv)
  moreover have "held \<or> filter Q xs = []"
  proof -
    from inv None have "\<forall>x \<in> set (numbered xs). \<not> P k (snd x)" unfolding carrier_inv_def by blast
    then have "\<forall>v \<in> set xs. \<not> P k v" using set_snd_numbered [of xs] by (metis image_iff)
    with P show ?thesis by (auto simp: filter_empty_conv)
  qed
  ultimately show ?thesis by (simp add: one_at_best_def)
next
  case (Some x)
  from inv Some have "P k (snd x)" unfolding carrier_inv_def by blast
  with P have free: "\<not> held" and Q: "Q (snd x)" by blast+
  from free P have "\<forall>v. P k v \<longleftrightarrow> Q v" by blast
  note Max_carrier [OF inv Some this]
  moreover have "cs = [claim_of st x]"
    unfolding cs carrier_filter [OF inv] Some using Q by simp
  moreover have "ic_role (claim_of st x) = mi_role (snd x)"
    by (cases st; cases x) (simp add: claim_of_def)
  ultimately show ?thesis using free by (simp add: one_at_best_def)
qed

text \<open>
  C16.  The plan accepts every matched invitation; per organization the person joins at most once,
  at the highest role invited, and not at all where they are a member already; per brain the
  same holds of the grant; an invitation that names a brain never becomes a membership.
\<close>

theorem planInviteClaims_correct:
  "map ic_id (planInviteClaims invites orgs brains) = map mi_id invites
   \<and> one_at_best (k \<in> set orgs) (org_invites k invites) (joins_of k (planInviteClaims invites orgs brains))
   \<and> one_at_best (k \<in> set brains) (brain_invites k invites) (grants_of k (planInviteClaims invites orgs brains))
   \<and> list_all (\<lambda>c. \<not> (ic_joins c \<and> ic_brain c \<noteq> None)) (planInviteClaims invites orgs brains)"
proof -
  let ?st = "foldl (plan_step orgs brains) ([], []) (numbered invites)"
  obtain j g where st: "?st = (j, g)" by (cases ?st)
  have plan: "planInviteClaims invites orgs brains = map (claim_of (j, g)) (numbered invites)"
    by (simp add: planInviteClaims_def Let_def st)
  from plan_foldl_inv [of orgs "[]" "([], [])" brains "numbered invites"]
  have j: "carrier_inv (wants_join orgs) (numbered invites) j"
    and g: "carrier_inv (wants_grant brains) (numbered invites) g"
    by (simp_all add: carrier_inv_Nil st)
  have ids: "map ic_id (planInviteClaims invites orgs brains) = map mi_id (map snd (numbered invites))"
    unfolding plan by (simp add: claim_of_def case_prod_beta)
  have joins: "joins_of k (planInviteClaims invites orgs brains)
      = map (claim_of (j, g)) (filter (\<lambda>(i, v). (nonempty (mi_brain v) = None \<and> mi_org v = k) \<and> carries j k i)
          (numbered invites))"
    unfolding plan joins_of_def filter_map o_def
    by (intro arg_cong [where f = "map _"] filter_cong) (auto simp: claim_of_def)
  have grants: "grants_of k (planInviteClaims invites orgs brains)
      = map (claim_of (j, g)) (filter (\<lambda>(i, v). nonempty (mi_brain v) = Some k \<and> carries g k i)
          (numbered invites))"
    unfolding plan grants_of_def filter_map o_def
    by (intro arg_cong [where f = "map _"] filter_cong) (auto simp: claim_of_def)
  have "one_at_best (k \<in> set orgs) (org_invites k invites) (joins_of k (planInviteClaims invites orgs brains))"
    unfolding org_invites_def by (rule one_at_best_carrier [OF j _ joins]) (auto simp: wants_join_def)
  moreover have "one_at_best (k \<in> set brains) (brain_invites k invites) (grants_of k (planInviteClaims invites orgs brains))"
    unfolding brain_invites_def by (rule one_at_best_carrier [OF g _ grants]) (auto simp: wants_grant_def)
  moreover have "list_all (\<lambda>c. \<not> (ic_joins c \<and> ic_brain c \<noteq> None)) (planInviteClaims invites orgs brains)"
    unfolding plan list_all_iff by (auto simp: claim_of_def)
  ultimately show ?thesis unfolding ids map_snd_numbered by blast
qed

section \<open>Carrying the plan out\<close>

lemma then_do_split:
  "(\<And>db1. r = (db1, None) \<Longrightarrow> Q (k db1)) \<Longrightarrow> (\<And>db1 e. r = (db1, Some e) \<Longrightarrow> Q (db1, Some e)) \<Longrightarrow> Q (then_do r k)"
  by (auto simp: then_do_def split: prod.splits option.splits)

text \<open>The rows a claim leaves alone, and what it may add.\<close>

definition keeps_rows :: "odb \<Rightarrow> odb \<Rightarrow> bool" where
  "keeps_rows db0 db \<longleftrightarrow>
     set (t_members db0) \<subseteq> set (t_members db) \<and> set (t_grants db0) \<subseteq> set (t_grants db)
     \<and> t_users db = t_users db0 \<and> t_orgs db = t_orgs db0 \<and> t_brains db = t_brains db0
     \<and> t_conns db = t_conns db0 \<and> map i_id (t_invites db) = map i_id (t_invites db0)"

definition fresh_claim :: "odb \<Rightarrow> invite_claim \<Rightarrow> bool" where
  "fresh_claim db0 c \<longleftrightarrow>
     (ic_joins c \<longrightarrow> (\<forall>m \<in> set (t_members db0). \<not> (m_org m = ic_org c \<and> m_user m = ic_user c)))
     \<and> (ic_grants c \<longrightarrow> (\<forall>g \<in> set (t_grants db0). \<not> (Some (g_brain g) = ic_brain c \<and> g_user g = ic_user c)))"

lemma addMembership_keeps:
  assumes k: "keeps_rows db0 db" and free: "\<forall>m \<in> set (t_members db0). \<not> (m_org m = k \<and> m_user m = u)"
    and run: "addMembership db now k u rl = Inr db'"
  shows "keeps_rows db0 db'"
proof -
  have "set (t_members db0) \<subseteq> set (row_update (\<lambda>m. m_org m = k \<and> m_user m = u) (\<lambda>m. m\<lparr>m_role := rl\<rparr>) (t_members db))"
    using k free unfolding keeps_rows_def row_update_def set_map by force
  then show ?thesis
    using k run unfolding addMembership_def keeps_rows_def by (auto split: if_splits)
qed

lemma setBrainGrant_keeps:
  assumes k: "keeps_rows db0 db" and free: "\<forall>g \<in> set (t_grants db0). \<not> (g_brain g = b \<and> g_user g = u)"
    and run: "setBrainGrant db now b u rl by = Inr db'"
  shows "keeps_rows db0 db'"
proof -
  have "set (t_grants db0) \<subseteq> set (row_update (\<lambda>g. g_brain g = b \<and> g_user g = u)
          (\<lambda>g. g\<lparr>g_role := rl, g_by := by, g_at := now\<rparr>) (t_grants db))"
    using k free unfolding keeps_rows_def row_update_def set_map by force
  then show ?thesis
    using k run unfolding setBrainGrant_def keeps_rows_def by (auto split: if_splits)
qed

lemma acceptInvite_keeps: "keeps_rows db0 db \<Longrightarrow> keeps_rows db0 (acceptInvite db now i)"
  by (simp add: keeps_rows_def acceptInvite_def row_update_def o_def if_distrib cong: if_cong)

lemma run_statement_cases:
  "run_statement db r = (db', res) \<Longrightarrow> (db' = db \<and> res \<noteq> None) \<or> (r = Inr db' \<and> res = None)"
  by (auto simp: run_statement_def split: sum.splits)

lemma apply_claim_keeps:
  assumes k: "keeps_rows db0 db" and f: "fresh_claim db0 c"
  shows "keeps_rows db0 (fst (apply_claim now c db))"
  unfolding apply_claim_def
proof (rule then_do_split)
  fix db1
  assume j: "(if ic_joins c then run_statement db (addMembership db now (ic_org c) (ic_user c) (ic_role c))
              else (db, None)) = (db1, None)"
  have k1: "keeps_rows db0 db1"
    using j k f addMembership_keeps [OF k] by (auto simp: fresh_claim_def split: if_splits dest: run_statement_cases)
  show "keeps_rows db0 (fst (then_do
         (case (ic_grants c, ic_brain c) of
            (True, Some b) \<Rightarrow> run_statement db1 (setBrainGrant db1 now b (ic_user c) (ic_role c) None)
          | _ \<Rightarrow> (db1, None))
         (\<lambda>db2. (acceptInvite db2 now (ic_id c), None))))"
  proof (rule then_do_split)
    fix db2 assume g: "(case (ic_grants c, ic_brain c) of
            (True, Some b) \<Rightarrow> run_statement db1 (setBrainGrant db1 now b (ic_user c) (ic_role c) None)
          | _ \<Rightarrow> (db1, None)) = (db2, None)"
    have "keeps_rows db0 db2"
      using g k1 f setBrainGrant_keeps [OF k1]
      by (auto simp: fresh_claim_def split: bool.splits option.splits dest: run_statement_cases)
    then show "keeps_rows db0 (fst (acceptInvite db2 now (ic_id c), None))" by (simp add: acceptInvite_keeps)
  next
    fix db2 e assume g: "(case (ic_grants c, ic_brain c) of
            (True, Some b) \<Rightarrow> run_statement db1 (setBrainGrant db1 now b (ic_user c) (ic_role c) None)
          | _ \<Rightarrow> (db1, None)) = (db2, Some e)"
    then have "db2 = db1" by (auto split: bool.splits option.splits dest: run_statement_cases)
    with k1 show "keeps_rows db0 (fst (db2, Some e))" by simp
  qed
next
  fix db1 e
  assume j: "(if ic_joins c then run_statement db (addMembership db now (ic_org c) (ic_user c) (ic_role c))
              else (db, None)) = (db1, Some e)"
  then have "db1 = db" by (auto split: if_splits dest: run_statement_cases)
  with k show "keeps_rows db0 (fst (db1, Some e))" by simp
qed

lemma apply_claims_keeps:
  "keeps_rows db0 db \<Longrightarrow> list_all (fresh_claim db0) cs \<Longrightarrow> keeps_rows db0 (fst (apply_claims now cs db))"
proof (induction cs arbitrary: db)
  case Nil
  then show ?case by simp
next
  case (Cons c cs)
  from Cons.prems apply_claim_keeps [of db0 db c now]
  have k: "keeps_rows db0 (fst (apply_claim now c db))" by simp
  show ?case unfolding apply_claims.simps
    by (rule then_do_split) (use k Cons in \<open>auto dest: sym\<close>)
qed

text \<open>Where the memberships come from: those there before, and the ones the invitations name.\<close>

definition from_invites :: "odb \<Rightarrow> matched_invite list \<Rightarrow> odb \<Rightarrow> bool" where
  "from_invites db0 invites db \<longleftrightarrow>
     (\<forall>m \<in> set (t_members db). m \<in> set (t_members db0)
        \<or> (\<exists>v \<in> set invites. nonempty (mi_brain v) = None \<and> m_org m = mi_org v
              \<and> m_user m = mi_user v \<and> m_role m = mi_role v))"

definition invited_claim :: "matched_invite list \<Rightarrow> invite_claim \<Rightarrow> bool" where
  "invited_claim invites c \<longleftrightarrow>
     (ic_joins c \<longrightarrow> (\<exists>v \<in> set invites. nonempty (mi_brain v) = None \<and> ic_org c = mi_org v
        \<and> ic_user c = mi_user v \<and> ic_role c = mi_role v))"

lemma addMembership_adds:
  assumes "addMembership db now k u rl = Inr db'" "m \<in> set (t_members db')"
  shows "m \<in> set (t_members db) \<or> m_org m = k \<and> m_user m = u \<and> m_role m = rl"
  using assms unfolding addMembership_def row_update_def by (auto split: if_splits)

lemma setBrainGrant_members: "setBrainGrant db now b u rl by = Inr db' \<Longrightarrow> t_members db' = t_members db"
  by (auto simp: setBrainGrant_def split: if_splits)

lemma apply_claim_members:
  "m \<in> set (t_members (fst (apply_claim now c db))) \<Longrightarrow>
     m \<in> set (t_members db) \<or> ic_joins c \<and> m_org m = ic_org c \<and> m_user m = ic_user c \<and> m_role m = ic_role c"
  by (auto simp: apply_claim_def then_do_def run_statement_def acceptInvite_def
      dest!: setBrainGrant_members dest: addMembership_adds
      split: prod.splits option.splits if_splits sum.splits bool.splits)

lemma apply_claims_from:
  "from_invites db0 invites db \<Longrightarrow> list_all (invited_claim invites) cs \<Longrightarrow>
     from_invites db0 invites (fst (apply_claims now cs db))"
proof (induction cs arbitrary: db)
  case Nil
  then show ?case by simp
next
  case (Cons c cs)
  have "from_invites db0 invites (fst (apply_claim now c db))"
    unfolding from_invites_def
  proof
    fix m assume "m \<in> set (t_members (fst (apply_claim now c db)))"
    from apply_claim_members [OF this]
    consider "m \<in> set (t_members db)"
      | "ic_joins c" "m_org m = ic_org c" "m_user m = ic_user c" "m_role m = ic_role c" by blast
    then show "m \<in> set (t_members db0) \<or> (\<exists>v \<in> set invites. nonempty (mi_brain v) = None \<and> m_org m = mi_org v
              \<and> m_user m = mi_user v \<and> m_role m = mi_role v)"
    proof cases
      case 1
      with Cons.prems(1) show ?thesis unfolding from_invites_def by blast
    next
      case 2
      with Cons.prems(2) obtain v where "v \<in> set invites" "nonempty (mi_brain v) = None" "ic_org c = mi_org v"
        "ic_user c = mi_user v" "ic_role c = mi_role v"
        by (auto simp: invited_claim_def)
      with 2 show ?thesis by (intro disjI2 bexI [of _ v] conjI) simp_all
    qed
  qed
  note new = this
  show ?case unfolding apply_claims.simps
  proof (rule then_do_split)
    fix db1 assume "apply_claim now c db = (db1, None)"
    with new have "from_invites db0 invites db1" by simp
    with Cons.IH Cons.prems(2) show "from_invites db0 invites (fst (apply_claims now cs db1))" by simp
  next
    fix db1 e assume "apply_claim now c db = (db1, Some e)"
    with new show "from_invites db0 invites (fst (db1, Some e))" by simp
  qed
qed

lemma in_findPendingInvites:
  "v \<in> set (findPendingInvites db now ids) \<Longrightarrow> mi_user v \<in> set ids"
  by (auto simp: findPendingInvites_def split: if_splits)

lemma findPendingInvites_Nil:
  "findPendingInvites db now ids = [] \<longleftrightarrow>
     (\<forall>i \<in> set (t_invites db). \<forall>u \<in> set (t_users db).
        \<not> (sql_lower (u_email u) = sql_lower (i_email i) \<and> u_id u \<in> set ids \<and> pending now i))"
proof (cases "ids = []")
  case True
  then show ?thesis by (simp add: findPendingInvites_def)
next
  case False
  then show ?thesis
    by (subst list_Nil_iff) (simp add: findPendingInvites_def, blast)
qed

lemma planned_claims:
  assumes users: "\<forall>v \<in> set invites. mi_user v \<in> set ids"
  shows "list_all (\<lambda>c. fresh_claim db c \<and> invited_claim invites c)
           (planInviteClaims invites (member_org_ids db ids) (granted_brain_ids db ids))"
proof -
  let ?st = "foldl (plan_step (member_org_ids db ids) (granted_brain_ids db ids)) ([], []) (numbered invites)"
  obtain j g where st: "?st = (j, g)" by (cases ?st)
  from plan_foldl_inv [of "member_org_ids db ids" "[]" "([], [])" "granted_brain_ids db ids" "numbered invites"]
  have j: "carrier_inv (wants_join (member_org_ids db ids)) (numbered invites) j"
    and g: "carrier_inv (wants_grant (granted_brain_ids db ids)) (numbered invites) g"
    by (simp_all add: carrier_inv_Nil st)
  have "fresh_claim db (claim_of (j, g) (i, v)) \<and> invited_claim invites (claim_of (j, g) (i, v))"
    if v: "(i, v) \<in> set (numbered invites)" for i v
  proof -
    have inv: "v \<in> set invites" using v set_snd_numbered [of invites] by force
    with users have u: "mi_user v \<in> set ids" by blast
    have free: "k \<notin> set (member_org_ids db ids)" if "carries j k i" for k
    proof -
      from that obtain x where "map_of j k = Some x" by (auto simp: carries_def split: option.splits)
      with j have "wants_join (member_org_ids db ids) k (snd x)" unfolding carrier_inv_def by blast
      then show ?thesis by (simp add: wants_join_def)
    qed
    have free': "k \<notin> set (granted_brain_ids db ids)" if "carries g k i" for k
    proof -
      from that obtain x where "map_of g k = Some x" by (auto simp: carries_def split: option.splits)
      with g have "wants_grant (granted_brain_ids db ids) k (snd x)" unfolding carrier_inv_def by blast
      then show ?thesis by (simp add: wants_grant_def)
    qed
    have m: "m_org m \<in> set (member_org_ids db ids)" if "m \<in> set (t_members db)" "m_user m = mi_user v" for m
      using that u by (simp add: member_org_ids_def)
    have gr: "g_brain x \<in> set (granted_brain_ids db ids)" if "x \<in> set (t_grants db)" "g_user x = mi_user v" for x
      using that u by (simp add: granted_brain_ids_def)
    have "fresh_claim db (claim_of (j, g) (i, v))"
      using m gr free free' unfolding fresh_claim_def claim_of_def
      by (auto split: option.splits) metis+
    moreover have "invited_claim invites (claim_of (j, g) (i, v))"
      using inv by (auto simp: invited_claim_def claim_of_def)
    ultimately show ?thesis by blast
  qed
  then show ?thesis
    by (auto simp: planInviteClaims_def Let_def st list_all_iff)
qed

lemma claim_fst:
  "fst (claimPendingInvites db now ids) =
     (let invites = findPendingInvites db now ids in
      if invites = [] then db
      else fst (apply_claims now (planInviteClaims invites (member_org_ids db ids) (granted_brain_ids db ids)) db))"
  by (simp add: claimPendingInvites_def Let_def split: prod.splits option.splits)

lemma claim_keeps_rows:
  "keeps_rows db (fst (claimPendingInvites db now ids))
   \<and> from_invites db (findPendingInvites db now ids) (fst (claimPendingInvites db now ids))"
proof -
  let ?vs = "findPendingInvites db now ids"
  let ?cs = "planInviteClaims ?vs (member_org_ids db ids) (granted_brain_ids db ids)"
  have plan: "list_all (fresh_claim db) ?cs" "list_all (invited_claim ?vs) ?cs"
    using planned_claims [of ?vs ids db] in_findPendingInvites by (auto simp: list_all_iff)
  have refl: "keeps_rows db db" "\<And>vs. from_invites db vs db"
    by (simp_all add: keeps_rows_def from_invites_def)
  show ?thesis
    unfolding claim_fst Let_def
    using refl apply_claims_keeps [OF refl(1) plan(1), of now] apply_claims_from [OF refl(2) plan(2), of now]
    by (cases "?vs = []") simp_all
qed

text \<open>
  C15.  Claiming never takes anything away and never makes a membership nobody offered: whether the
  run completes or a statement of it fails, every membership and every grant that was there is
  there unchanged (so a stale invitation demotes no one), users, organizations and brains are
  untouched, and every membership afterwards was there before or is the one a pending
  organization-level invitation of this person names, at its role.
\<close>

theorem claimPendingInvites_safe:
  "keeps_rows db (fst (claimPendingInvites db now ids))
   \<and> from_invites db (findPendingInvites db now ids) (fst (claimPendingInvites db now ids))"
  by (rule claim_keeps_rows)

lemma apply_claim_invites:
  "apply_claim now c db = (db', None) \<Longrightarrow>
     t_users db' = t_users db
     \<and> t_invites db' = row_update (\<lambda>i. i_id i = ic_id c) (\<lambda>i. i\<lparr>i_accepted := Some now\<rparr>) (t_invites db)"
  by (auto simp: apply_claim_def then_do_def run_statement_def acceptInvite_def addMembership_def
      setBrainGrant_def split: prod.splits option.splits if_splits sum.splits bool.splits)

lemma apply_claims_invites:
  "apply_claims now cs db = (db', None) \<Longrightarrow>
     t_users db' = t_users db
     \<and> t_invites db' = row_update (\<lambda>i. i_id i \<in> set (map ic_id cs)) (\<lambda>i. i\<lparr>i_accepted := Some now\<rparr>) (t_invites db)"
proof (induction cs arbitrary: db)
  case Nil
  then show ?case by (simp add: row_update_def)
next
  case (Cons c cs)
  from Cons.prems obtain db1 where 1: "apply_claim now c db = (db1, None)" "apply_claims now cs db1 = (db', None)"
    by (auto simp: then_do_def split: prod.splits option.splits)
  from Cons.IH [OF 1(2)] apply_claim_invites [OF 1(1)] show ?case
    by (auto simp: row_update_def)
qed

text \<open>
   Claiming is idempotent: once a run has completed, a later run for the same person finds
  nothing pending, claims nothing and leaves the database as it is.
\<close>

theorem claimPendingInvites_idempotent:
  assumes run: "claimPendingInvites db now ids = (db', Inr claims)" and later: "now \<le> later"
  shows "claimPendingInvites db' later ids = (db', Inr [])"
proof (cases "findPendingInvites db now ids = []")
  case True
  with run have db': "db' = db" by (simp add: claimPendingInvites_def)
  have "findPendingInvites db later ids = []"
    using True later unfolding findPendingInvites_Nil by (auto simp: pending_def)
  then show ?thesis by (simp add: claimPendingInvites_def db')
next
  case False
  let ?vs = "findPendingInvites db now ids"
  let ?cs = "planInviteClaims ?vs (member_org_ids db ids) (granted_brain_ids db ids)"
  from False run have "apply_claims now ?cs db = (db', None)"
    by (auto simp: claimPendingInvites_def Let_def split: prod.splits option.splits)
  from apply_claims_invites [OF this]
  have users: "t_users db' = t_users db"
    and invites: "t_invites db' = row_update (\<lambda>i. i_id i \<in> set (map ic_id ?cs))
        (\<lambda>i. i\<lparr>i_accepted := Some now\<rparr>) (t_invites db)" by blast+
  have ids: "map ic_id ?cs = map mi_id ?vs"
    unfolding planInviteClaims_def Let_def by (simp add: claim_of_def case_prod_beta o_def)
      (metis (no_types, lifting) map_map map_snd_numbered comp_apply map_eq_conv)
  have "\<not> (pending later i \<and> u \<in> set (t_users db) \<and> sql_lower (u_email u) = sql_lower (i_email i) \<and> u_id u \<in> set ids)"
    if i: "i \<in> set (t_invites db')" for i u
  proof
    assume p: "pending later i \<and> u \<in> set (t_users db) \<and> sql_lower (u_email u) = sql_lower (i_email i) \<and> u_id u \<in> set ids"
    from i obtain i0 where i0: "i0 \<in> set (t_invites db)"
      "i = (if i_id i0 \<in> set (map ic_id ?cs) then i0\<lparr>i_accepted := Some now\<rparr> else i0)"
      unfolding invites row_update_def by auto
    with p have same: "i = i0" "i_id i0 \<notin> set (map mi_id ?vs)" unfolding ids pending_def by (auto split: if_splits)
    with p later i0(1) have "\<lparr>mi_id = i_id i0, mi_org = i_org i0, mi_role = i_role i0, mi_user = u_id u,
        mi_brain = i_brain i0\<rparr> \<in> set ?vs"
      unfolding findPendingInvites_def pending_def by force
    with same(2) show False by force
  qed
  then have "findPendingInvites db' later ids = []"
    unfolding findPendingInvites_Nil users by blast
  then show ?thesis by (simp add: claimPendingInvites_def)
qed

definition invited_db :: odb where
  "invited_db = sample_db\<lparr>t_invites :=
     [\<lparr>i_id = ''i1'', i_org = ''acme'', i_email = ''out@b'', i_role = Viewer, i_by = ''own'', i_at = 0,
       i_expires = 100, i_accepted = None, i_brain = None\<rparr>,
      \<lparr>i_id = ''i2'', i_org = ''acme'', i_email = ''out@b'', i_role = Editor, i_by = ''own'', i_at = 1,
       i_expires = 100, i_accepted = None, i_brain = None\<rparr>]\<rparr>"

lemmas claim_eval =
  claimPendingInvites_def findPendingInvites_def invited_db_def sample_defs sql_lower_def is_upper_def
  pending_def planInviteClaims_def numbered_def upt_rec plan_step_def offer_def nonempty_def
  member_org_ids_def granted_brain_ids_def claim_of_def carries_def apply_claim_def then_do_def
  run_statement_def addMembership_def acceptInvite_def row_update_def Let_def

theorem claimPendingInvites_idempotent_witness:
  "snd (claimPendingInvites (fst (claimPendingInvites invited_db 5 [''out''])) 9 [''out'']) = Inr []
   \<and> getMemberRole (fst (claimPendingInvites invited_db 5 [''out''])) ''acme'' ''out'' = Some Editor"
proof
  have "\<exists>claims. snd (claimPendingInvites invited_db 5 [''out'']) = Inr claims" by (simp add: claim_eval)
  then obtain claims where "snd (claimPendingInvites invited_db 5 [''out'']) = Inr claims" by blast
  then have "claimPendingInvites invited_db 5 [''out''] = (fst (claimPendingInvites invited_db 5 [''out'']), Inr claims)"
    by (metis prod.collapse)
  from claimPendingInvites_idempotent [OF this, of 9]
  show "snd (claimPendingInvites (fst (claimPendingInvites invited_db 5 [''out''])) 9 [''out'']) = Inr []"
    by simp
  show "getMemberRole (fst (claimPendingInvites invited_db 5 [''out''])) ''acme'' ''out'' = Some Editor"
    unfolding getMemberRole_def by (simp add: claim_eval)
qed

end
