(* ===== verification/OrgSchema.thy ===== *)
theory OrgSchema
  imports OrgTables
begin

text \<open>
  The schema of the organization database (\<open>migrations/\<close>): the primary keys, unique columns and
  foreign keys of the tables of \<open>OrgTables\<close>, and that every statement which writes keeps them.
\<close>

named_theorems schema_defs

section \<open>Keys and references\<close>

definition keys_ok :: "odb \<Rightarrow> bool" where
  "keys_ok db \<longleftrightarrow>
     distinct (map u_id (t_users db)) \<and> distinct (map u_email (t_users db))
     \<and> distinct (map o_id (t_orgs db))
     \<and> distinct (map (\<lambda>m. (m_org m, m_user m)) (t_members db))
     \<and> distinct (map b_id (t_brains db)) \<and> distinct (map (\<lambda>b. (b_owner b, b_repo b)) (t_brains db))
     \<and> distinct (map (\<lambda>g. (g_brain g, g_user g)) (t_grants db))
     \<and> distinct (map i_id (t_invites db)) \<and> distinct (map c_id (t_conns db))"

definition refs_ok :: "odb \<Rightarrow> bool" where
  "refs_ok db \<longleftrightarrow>
     m_org ` set (t_members db) \<subseteq> o_id ` set (t_orgs db)
     \<and> m_user ` set (t_members db) \<subseteq> u_id ` set (t_users db)
     \<and> b_org ` set (t_brains db) \<subseteq> o_id ` set (t_orgs db)
     \<and> (\<Union>b \<in> set (t_brains db). set_option (b_conn b)) \<subseteq> c_id ` set (t_conns db)
     \<and> g_brain ` set (t_grants db) \<subseteq> b_id ` set (t_brains db)
     \<and> g_user ` set (t_grants db) \<subseteq> u_id ` set (t_users db)
     \<and> i_org ` set (t_invites db) \<subseteq> o_id ` set (t_orgs db)
     \<and> (\<Union>i \<in> set (t_invites db). set_option (i_brain i)) \<subseteq> b_id ` set (t_brains db)"

definition schema_ok :: "odb \<Rightarrow> bool" where
  "schema_ok db \<longleftrightarrow> keys_ok db \<and> refs_ok db"

lemma schema_keys [dest]: "schema_ok db \<Longrightarrow> keys_ok db"
  by (simp add: schema_ok_def)

section \<open>Updates and deletions of rows\<close>

lemma map_row_update [simp]: "(\<And>r. k (f r) = k r) \<Longrightarrow> map k (row_update P f rows) = map k rows"
  by (auto simp: row_update_def)

lemma image_row_update: "(\<And>r. k (f r) = k r) \<Longrightarrow> k ` set (row_update P f rows) = k ` set rows"
  using map_row_update [of k f P rows] by (metis set_map)

lemma UN_row_update: "(\<And>r. k (f r) = k r) \<Longrightarrow> (\<Union>r \<in> set (row_update P f rows). k r) = (\<Union>r \<in> set rows. k r)"
  by (auto simp: row_update_def)

lemma distinct_row_delete [simp]: "distinct (map k rows) \<Longrightarrow> distinct (map k (row_delete P rows))"
  by (simp add: row_delete_def distinct_map_filter)

lemma set_row_delete: "set (row_delete P rows) \<subseteq> set rows"
  by (auto simp: row_delete_def)

lemma image_row_delete: "k ` set rows \<subseteq> A \<Longrightarrow> k ` set (row_delete P rows) \<subseteq> A"
  by (rule order_trans [OF image_mono [OF set_row_delete]])

lemma UN_row_delete: "(\<Union>r \<in> set rows. k r) \<subseteq> A \<Longrightarrow> (\<Union>r \<in> set (row_delete P rows). k r) \<subseteq> A"
  by (rule order_trans [OF UN_mono [OF set_row_delete order_refl]])

section \<open>A row more\<close>

lemma pair_fresh: "\<forall>x \<in> S. \<not> (f x = a \<and> g x = b) \<Longrightarrow> (a, b) \<notin> (\<lambda>x. (f x, g x)) ` S"
  by auto

lemmas schema_unfold = schema_ok_def keys_ok_def refs_ok_def

lemma schema_user:
  "schema_ok db \<Longrightarrow> u_id u \<notin> u_id ` set (t_users db) \<Longrightarrow> u_email u \<notin> u_email ` set (t_users db) \<Longrightarrow>
     schema_ok (db\<lparr>t_users := t_users db @ [u]\<rparr>)"
  by (simp add: schema_unfold subset_insertI2)

lemma schema_member:
  assumes "schema_ok db" "m_org m \<in> o_id ` set (t_orgs db)" "m_user m \<in> u_id ` set (t_users db)"
    and new: "\<forall>x \<in> set (t_members db). \<not> (m_org x = m_org m \<and> m_user x = m_user m)"
  shows "schema_ok (db\<lparr>t_members := t_members db @ [m]\<rparr>)"
proof -
  from new have "(m_org m, m_user m) \<notin> (\<lambda>x. (m_org x, m_user x)) ` set (t_members db)" by (rule pair_fresh)
  with assms(1-3) show ?thesis by (simp add: schema_unfold subset_insertI2)
qed

lemma schema_org:
  "schema_ok db \<Longrightarrow> o_id r \<notin> o_id ` set (t_orgs db) \<Longrightarrow> distinct (map c_id cs) \<Longrightarrow> set (t_conns db) \<subseteq> set cs \<Longrightarrow>
     schema_ok (db\<lparr>t_orgs := t_orgs db @ [r], t_conns := cs\<rparr>)"
  using order_trans [OF _ image_mono [of "set (t_conns db)" "set cs" c_id],
    of "\<Union>b \<in> set (t_brains db). set_option (b_conn b)"]
  by (simp add: schema_unfold subset_insertI2)

lemma schema_org_only:
  "schema_ok db \<Longrightarrow> o_id r \<notin> o_id ` set (t_orgs db) \<Longrightarrow> schema_ok (db\<lparr>t_orgs := t_orgs db @ [r]\<rparr>)"
  by (simp add: schema_unfold subset_insertI2)

lemma schema_brain:
  assumes "schema_ok db" "b_id b \<notin> b_id ` set (t_brains db)" "b_org b \<in> o_id ` set (t_orgs db)" "set_option (b_conn b) \<subseteq> c_id ` set (t_conns db)"
    and new: "\<forall>x \<in> set (t_brains db). \<not> (b_owner x = b_owner b \<and> b_repo x = b_repo b)"
  shows "schema_ok (db\<lparr>t_brains := t_brains db @ [b]\<rparr>)"
proof -
  from new have "(b_owner b, b_repo b) \<notin> (\<lambda>x. (b_owner x, b_repo x)) ` set (t_brains db)" by (rule pair_fresh)
  with assms(1-4) show ?thesis by (simp add: schema_unfold subset_insertI2)
qed

lemma schema_grant:
  assumes "schema_ok db" "g_brain g \<in> b_id ` set (t_brains db)" "g_user g \<in> u_id ` set (t_users db)"
    and new: "\<forall>x \<in> set (t_grants db). \<not> (g_brain x = g_brain g \<and> g_user x = g_user g)"
  shows "schema_ok (db\<lparr>t_grants := t_grants db @ [g]\<rparr>)"
proof -
  from new have "(g_brain g, g_user g) \<notin> (\<lambda>x. (g_brain x, g_user x)) ` set (t_grants db)" by (rule pair_fresh)
  with assms(1-3) show ?thesis by (simp add: schema_unfold subset_insertI2)
qed

lemma schema_invite:
  "schema_ok db \<Longrightarrow> i_id i \<notin> i_id ` set (t_invites db) \<Longrightarrow> i_org i \<in> o_id ` set (t_orgs db) \<Longrightarrow>
     set_option (i_brain i) \<subseteq> b_id ` set (t_brains db) \<Longrightarrow>
     schema_ok (db\<lparr>t_invites := t_invites db @ [i]\<rparr>)"
  by (simp add: schema_unfold)

lemma schema_users:
  assumes "map u_id us = map u_id (t_users db)" "distinct (map u_email us)" "schema_ok db"
  shows "schema_ok (db\<lparr>t_users := us\<rparr>)"
proof -
  have "u_id ` set us = u_id ` set (t_users db)" using assms(1) by (metis set_map)
  with assms show ?thesis by (simp add: schema_unfold)
qed

section \<open>Every writing statement keeps the schema\<close>

lemma upsertAppUser_schema:
  assumes "upsertAppUser db now i e n g = Inr db'" "schema_ok db"
  shows "schema_ok db'"
proof (cases "\<exists>r \<in> set (t_users db). u_id r = i")
  case True
  let ?f = "\<lambda>r::app_user. r\<lparr>u_email := e, u_name := n, u_github := (case g of Some x \<Rightarrow> Some x | None \<Rightarrow> u_github r)\<rparr>"
  let ?us = "row_update (\<lambda>r. u_id r = i) ?f (t_users db)"
  have taken: "\<not> (\<exists>r \<in> set (t_users db). u_email r = e \<and> u_id r \<noteq> i)"
    using assms(1) by (intro notI) (simp add: upsertAppUser_def)
  then have free: "\<forall>r \<in> set (t_users db). u_email r = e \<longrightarrow> u_id r = i" by blast
  have db': "db' = db\<lparr>t_users := ?us\<rparr>"
    using assms(1) unfolding upsertAppUser_def if_not_P [OF taken] if_P [OF True] by simp
  have ids: "map u_id ?us = map u_id (t_users db)" "u_id ` set ?us = u_id ` set (t_users db)"
    by (simp_all add: image_row_update)
  have "distinct (map u_email ?us)"
  proof -
    have d: "distinct (map u_id (t_users db))" "distinct (map u_email (t_users db))"
      using assms(2) by (auto simp: schema_ok_def keys_ok_def)
    have "u_email x = u_email y \<longrightarrow> x = y" if "x \<in> set (t_users db)" "y \<in> set (t_users db)" for x y
      using that d(2) by (simp add: distinct_map inj_on_def)
    moreover have "u_id x = u_id y \<longrightarrow> x = y" if "x \<in> set (t_users db)" "y \<in> set (t_users db)" for x y
      using that d(1) by (simp add: distinct_map inj_on_def)
    ultimately have inj: "inj_on (\<lambda>r::app_user. if u_id r = i then e else u_email r) (set (t_users db))"
      using free unfolding inj_on_def by metis
    have "(\<lambda>r. u_email (if u_id r = i then ?f r else r)) = (\<lambda>r. if u_id r = i then e else u_email r)"
      by (rule ext) simp
    with inj have "inj_on (\<lambda>r. u_email (if u_id r = i then ?f r else r)) (set (t_users db))" by (simp only:)
    then show ?thesis using d(2) by (simp add: row_update_def distinct_map comp_def)
  qed
  with assms(2) ids show ?thesis unfolding db' by (intro schema_users)
next
  case False
  then have "i \<notin> u_id ` set (t_users db)" by force
  with assms False show ?thesis
    by (auto simp: upsertAppUser_def split: if_splits intro!: schema_user)
qed

lemma relabel_keys:
  "map u_id (relabel p a us) = map u_id us" "map u_email (relabel p a us) = map u_email us"
  by (auto simp: relabel_def split: option.split)

lemma keys_emails: "schema_ok db \<Longrightarrow> distinct (map u_email (t_users db))"
  by (simp add: schema_unfold)

lemma mergePersons_schema: "mergePersons db fresh a b = Inr db' \<Longrightarrow> schema_ok db \<Longrightarrow> schema_ok db'"
  by (auto simp: mergePersons_def Let_def relabel_keys keys_emails intro!: schema_users split: option.splits)

lemma unlinkIdentity_schema: "unlinkIdentity db a b = Inr db' \<Longrightarrow> schema_ok db \<Longrightarrow> schema_ok db'"
  by (auto simp: unlinkIdentity_def keys_emails intro!: schema_users split: option.splits if_splits)

lemma createOrg_schema:
  assumes "createOrg db now i n m inst ow gh who = Inr db'" "schema_ok db"
  shows "schema_ok db'"
proof -
  let ?id = "githubAppConnectionId inst"
  let ?ext = "show_int inst"
  let ?row = "\<lparr>o_id = i, o_name = n, o_model = m, o_installation = inst, o_brain_owner = ow, o_github = gh,
    o_conn = Some ?id, o_created_by = who, o_created = now, o_suspended = None\<rparr>"
  let ?c = "\<lparr>c_id = ?id, c_provider = ''github'', c_kind = GITHUB_APP_KIND, c_external = ?ext,
    c_account = ow, c_owner = connectionOwnerFor i m\<rparr>"
  let ?taken = "\<exists>c \<in> set (t_conns db). c_id c = ?id \<or>
    (c_provider c = ''github'' \<and> c_kind c = GITHUB_APP_KIND \<and> c_external c = ?ext)"
  have "\<not> (\<exists>r \<in> set (t_orgs db). o_id r = i)" using assms(1) by (auto simp: createOrg_def Let_def split: if_splits)
  then have fresh: "o_id ?row \<notin> o_id ` set (t_orgs db)" by auto
  show ?thesis
  proof (cases ?taken)
    case True
    with assms(1) have "db' = db\<lparr>t_orgs := t_orgs db @ [?row]\<rparr>"
      by (simp add: createOrg_def Let_def split: if_splits)
    with schema_org_only [OF assms(2) fresh] show ?thesis by simp
  next
    case False
    with assms(1) have db': "db' = db\<lparr>t_orgs := t_orgs db @ [?row], t_conns := t_conns db @ [?c]\<rparr>"
      by (auto simp: createOrg_def Let_def split: if_splits)
    from False have "?id \<notin> c_id ` set (t_conns db)" by auto
    then have "distinct (map c_id (t_conns db @ [?c]))" using assms(2) by (simp add: schema_unfold)
    from schema_org [OF assms(2) fresh this] show ?thesis unfolding db' by (metis set_append sup_ge1)
  qed
qed

lemma schema_members:
  "map (\<lambda>m. (m_org m, m_user m)) ms = map (\<lambda>m. (m_org m, m_user m)) (t_members db) \<Longrightarrow> schema_ok db \<Longrightarrow>
     schema_ok (db\<lparr>t_members := ms\<rparr>)"
proof -
  assume k: "map (\<lambda>m. (m_org m, m_user m)) ms = map (\<lambda>m. (m_org m, m_user m)) (t_members db)"
  have "map m_org ms = map m_org (t_members db)" "map m_user ms = map m_user (t_members db)"
    using arg_cong [OF k, of "map fst"] arg_cong [OF k, of "map snd"] by (simp_all add: comp_def)
  then have "m_org ` set ms = m_org ` set (t_members db)" "m_user ` set ms = m_user ` set (t_members db)"
    by (metis set_map)+
  with k show "schema_ok db \<Longrightarrow> schema_ok (db\<lparr>t_members := ms\<rparr>)" by (simp add: schema_unfold)
qed

lemma addMembership_schema:
  assumes "addMembership db now k u r = Inr db'" "schema_ok db"
  shows "schema_ok db'"
proof (cases "\<exists>m \<in> set (t_members db). m_org m = k \<and> m_user m = u")
  case True
  with assms show ?thesis by (auto simp: addMembership_def intro!: schema_members)
next
  case False
  with assms show ?thesis by (auto simp: addMembership_def split: if_splits intro!: schema_member)
qed

lemma setMemberRole_schema: "schema_ok db \<Longrightarrow> schema_ok (setMemberRole db k u r)"
  by (simp add: setMemberRole_def schema_ok_def keys_ok_def refs_ok_def image_row_update)

lemma removeMembership_schema: "schema_ok db \<Longrightarrow> schema_ok (removeMembership db k u)"
  by (simp add: removeMembership_def schema_ok_def keys_ok_def refs_ok_def image_row_delete)

lemma createInvitation_schema:
  "createInvitation db now i k e r who b = Inr db' \<Longrightarrow> schema_ok db \<Longrightarrow> schema_ok db'"
  by (cases b) (auto simp: createInvitation_def split: if_splits intro!: schema_invite)

lemma acceptInvite_schema: "schema_ok db \<Longrightarrow> schema_ok (acceptInvite db now i)"
  by (simp add: acceptInvite_def schema_ok_def keys_ok_def refs_ok_def image_row_update UN_row_update)

lemma cancelBrainInvites_schema: "schema_ok db \<Longrightarrow> schema_ok (cancelBrainInvites db b e)"
  by (simp add: cancelBrainInvites_def schema_ok_def keys_ok_def refs_ok_def image_row_delete UN_row_delete)

lemma revokeInvite_schema: "schema_ok db \<Longrightarrow> schema_ok (revokeInvite db k i)"
  by (simp add: revokeInvite_def schema_ok_def keys_ok_def refs_ok_def image_row_delete UN_row_delete)

lemma schema_grants:
  assumes k: "map (\<lambda>g. (g_brain g, g_user g)) gs = map (\<lambda>g. (g_brain g, g_user g)) (t_grants db)"
    and "schema_ok db"
  shows "schema_ok (db\<lparr>t_grants := gs\<rparr>)"
proof -
  have "map g_brain gs = map g_brain (t_grants db)" "map g_user gs = map g_user (t_grants db)"
    using arg_cong [OF k, of "map fst"] arg_cong [OF k, of "map snd"] by (simp_all add: comp_def)
  then have "g_brain ` set gs = g_brain ` set (t_grants db)" "g_user ` set gs = g_user ` set (t_grants db)"
    by (metis set_map)+
  with k assms(2) show ?thesis by (simp add: schema_unfold)
qed

lemma setBrainGrant_schema:
  assumes "setBrainGrant db now b u r who = Inr db'" "schema_ok db"
  shows "schema_ok db'"
proof (cases "\<exists>g \<in> set (t_grants db). g_brain g = b \<and> g_user g = u")
  case True
  with assms show ?thesis by (auto simp: setBrainGrant_def intro!: schema_grants)
next
  case False
  with assms show ?thesis by (auto simp: setBrainGrant_def split: if_splits intro!: schema_grant)
qed

lemma removeBrainGrant_schema: "schema_ok db \<Longrightarrow> schema_ok (removeBrainGrant db b u)"
  by (simp add: removeBrainGrant_def schema_ok_def keys_ok_def refs_ok_def image_row_delete)

lemma deleteUserBrainGrantsInOrg_schema: "schema_ok db \<Longrightarrow> schema_ok (deleteUserBrainGrantsInOrg db k u)"
  by (simp add: deleteUserBrainGrantsInOrg_def schema_ok_def keys_ok_def refs_ok_def image_row_delete)

lemma setBrainName_schema: "schema_ok db \<Longrightarrow> schema_ok (setBrainName db b n)"
  by (simp add: setBrainName_def schema_ok_def keys_ok_def refs_ok_def image_row_update UN_row_update)

lemma setBrainVisibility_schema: "schema_ok db \<Longrightarrow> schema_ok (setBrainVisibility db b v)"
  by (simp add: setBrainVisibility_def schema_ok_def keys_ok_def refs_ok_def image_row_update UN_row_update)

lemma clearBrainResidue_schema [simp]: "schema_ok (clearBrainResidue db b) = schema_ok db"
  by (simp add: clearBrainResidue_def schema_ok_def keys_ok_def refs_ok_def)

lemma createBrain_schema:
  assumes "createBrain db now i k ow rn n who v c = Inr db'" "schema_ok db"
  shows "schema_ok db'"
proof -
  let ?db = "clearBrainResidue db i"
  have "schema_ok ?db" using assms(2) by simp
  with assms(1) show ?thesis
    by (cases c) (auto simp: createBrain_def Let_def split: if_splits intro!: schema_brain)
qed

section \<open>Reading by key\<close>

lemma find_unique:
  "distinct (map k xs) \<Longrightarrow> x \<in> set xs \<Longrightarrow> (\<And>y. Q y \<longleftrightarrow> k y = k x) \<Longrightarrow> find Q xs = Some x"
  by (induction xs) (auto simp: image_iff)

lemma find_absent: "(\<And>x. x \<in> set xs \<Longrightarrow> \<not> Q x) \<Longrightarrow> find Q xs = None"
  by (auto simp: find_None_iff)

lemma getMemberRole_row:
  "keys_ok db \<Longrightarrow> m \<in> set (t_members db) \<Longrightarrow> getMemberRole db (m_org m) (m_user m) = Some (m_role m)"
  using find_unique [of "\<lambda>m. (m_org m, m_user m)" "t_members db" m "\<lambda>y. m_org y = m_org m \<and> m_user y = m_user m"]
  by (simp add: getMemberRole_def keys_ok_def)

lemma getBrainGrant_row:
  "keys_ok db \<Longrightarrow> g \<in> set (t_grants db) \<Longrightarrow> getBrainGrant db (g_brain g) (g_user g) = Some (g_role g)"
  using find_unique [of "\<lambda>g. (g_brain g, g_user g)" "t_grants db" g "\<lambda>y. g_brain y = g_brain g \<and> g_user y = g_user g"]
  by (simp add: getBrainGrant_def keys_ok_def)

lemma getMemberRole_Some:
  "getMemberRole db k u = Some r \<Longrightarrow> \<exists>m \<in> set (t_members db). m_org m = k \<and> m_user m = u \<and> m_role m = r"
  by (auto simp: getMemberRole_def find_Some_iff)

lemma brain_unique: "keys_ok db \<Longrightarrow> x \<in> set (t_brains db) \<Longrightarrow> y \<in> set (t_brains db) \<Longrightarrow> b_id x = b_id y \<Longrightarrow> x = y"
  by (auto simp: keys_ok_def distinct_map inj_on_def)

end
