(* ===== verification/JsText.thy ===== *)
theory JsText
  imports JsPrelude
begin

text \<open>
  Regular expressions the way the modules use them.  A pattern is the function that looks at the
  text from one position on and answers what it matched and how many characters that took; the
  patterns of the program are deterministic once their greedy runs are written out.  A global
  match or replace walks the text from the left and goes on after each match.
\<close>

type_synonym 'm pattern = "string \<Rightarrow> ('m \<times> nat) option"

section \<open>Global matching and replacing\<close>

function scan_matches :: "'m pattern \<Rightarrow> string \<Rightarrow> ('m \<times> string) list" where
  "scan_matches p [] = []"
| "scan_matches p (c # cs) =
     (case p (c # cs) of
        Some (m, n) \<Rightarrow> (m, take n (c # cs)) # scan_matches p (drop (n - 1) cs)
      | None \<Rightarrow> scan_matches p cs)"
  by pat_completeness auto
termination by (relation "measure (length \<circ> snd)") auto

function scan_replace :: "'m pattern \<Rightarrow> ('m \<Rightarrow> string \<Rightarrow> string) \<Rightarrow> string \<Rightarrow> string" where
  "scan_replace p f [] = []"
| "scan_replace p f (c # cs) =
     (case p (c # cs) of
        Some (m, n) \<Rightarrow> f m (take n (c # cs)) @ scan_replace p f (drop (n - 1) cs)
      | None \<Rightarrow> c # scan_replace p f cs)"
  by pat_completeness auto
termination by (relation "measure (length \<circ> snd \<circ> snd)") auto

text \<open>What a pattern takes lies in the text it looked at.\<close>

definition consuming :: "'m pattern \<Rightarrow> bool" where
  "consuming p \<longleftrightarrow> (\<forall>s m n. p s = Some (m, n) \<longrightarrow> 1 \<le> n \<and> n \<le> length s)"

lemma consuming_step:
  "consuming p \<Longrightarrow> p (c # cs) = Some (m, n) \<Longrightarrow> c # cs = take n (c # cs) @ drop (n - 1) cs"
  by (cases n) (auto simp: consuming_def)

lemma scan_replace_id:
  "consuming p \<Longrightarrow> (\<And>m raw. (m, raw) \<in> set (scan_matches p s) \<Longrightarrow> f m raw = raw) \<Longrightarrow> scan_replace p f s = s"
proof (induction p f s rule: scan_replace.induct)
  case (1 p f)
  then show ?case by simp
next
  case (2 p f c cs)
  show ?case
  proof (cases "p (c # cs)")
    case None
    with 2 show ?thesis by simp
  next
    case (Some mn)
    obtain m n where mn: "mn = (m, n)" by (cases mn)
    from 2 Some mn have "f m (take n (c # cs)) = take n (c # cs)" by simp
    moreover have "scan_replace p f (drop (n - 1) cs) = drop (n - 1) cs"
      using 2 Some mn by simp
    ultimately have "scan_replace p f (c # cs) = take n (c # cs) @ drop (n - 1) cs"
      using Some mn by simp
    with consuming_step [OF 2(3), of c cs m n] Some mn show ?thesis by metis
  qed
qed

text \<open>A replacement of equal length keeps every offset.\<close>

lemma scan_replace_masks:
  assumes "consuming p" "\<And>m raw. list_all2 R (f m raw) raw" "\<And>c. R c c"
  shows "list_all2 R (scan_replace p f s) s"
  using assms
proof (induction p f s rule: scan_replace.induct)
  case (1 p f)
  then show ?case by simp
next
  case (2 p f c cs)
  show ?case
  proof (cases "p (c # cs)")
    case None
    with 2 show ?thesis by simp
  next
    case (Some mn)
    obtain m n where mn: "mn = (m, n)" by (cases mn)
    have "list_all2 R (f m (take n (c # cs)) @ scan_replace p f (drop (n - 1) cs))
        (take n (c # cs) @ drop (n - 1) cs)"
      using 2 Some mn by (intro list_all2_appendI) auto
    with consuming_step [OF 2(3), of c cs m n] Some mn show ?thesis by simp
  qed
qed

section \<open>Replacing one occurrence\<close>

text \<open>
  \<open>String.prototype.replace\<close> with a string pattern: the first occurrence only, and the dollar
  sequences of the replacement are expanded (there are no groups to number).
\<close>

fun expand_dollar :: "string \<Rightarrow> string \<Rightarrow> string \<Rightarrow> string \<Rightarrow> string" where
  "expand_dollar before m rest (c # d # cs) =
     (if c \<noteq> CHR ''$'' then c # expand_dollar before m rest (d # cs)
      else if d = CHR ''$'' then CHR ''$'' # expand_dollar before m rest cs
      else if d = CHR ''&'' then m @ expand_dollar before m rest cs
      else if d = BACKTICK then before @ expand_dollar before m rest cs
      else if d = SQUOTE then rest @ expand_dollar before m rest cs
      else c # expand_dollar before m rest (d # cs))"
| "expand_dollar before m rest cs = cs"

definition replace_first :: "string \<Rightarrow> string \<Rightarrow> (string \<Rightarrow> string \<Rightarrow> string) \<Rightarrow> string" where
  "replace_first s p f =
     (case index_of s p of
        None \<Rightarrow> s
      | Some i \<Rightarrow> take i s @ f (take i s) (drop (i + length p) s) @ drop (i + length p) s)"

definition replace_string :: "string \<Rightarrow> string \<Rightarrow> string \<Rightarrow> string" where
  "replace_string s p r = replace_first s p (\<lambda>before rest. expand_dollar before p rest r)"

lemma expand_dollar_plain: "CHR ''$'' \<notin> set r \<Longrightarrow> expand_dollar before m rest r = r"
  by (induction before m rest r rule: expand_dollar.induct) auto

section \<open>Splitting on a text\<close>

function split_by :: "string \<Rightarrow> string \<Rightarrow> string list" where
  "split_by sep s =
     (case (if sep = [] then None else index_of s sep) of
        None \<Rightarrow> [s]
      | Some i \<Rightarrow> take i s # split_by sep (drop (i + length sep) s))"
  by pat_completeness auto
termination
proof (relation "measure (length \<circ> snd)", goal_cases)
  case (2 sep s i)
  then have "sep \<noteq> []" "i + length sep \<le> length s" using index_of_Some by (auto split: if_splits)
  then show ?case by (cases sep) auto
qed auto

declare split_by.simps [simp del]

section \<open>Small patterns\<close>

definition starts_with_ci :: "string \<Rightarrow> string \<Rightarrow> bool" where
  "starts_with_ci s p \<longleftrightarrow> starts_with (lower s) p"

text \<open>\<open>s.replace(/X$/, '')\<close> for a pattern the whole rest must match: the leftmost cut.\<close>

fun cut_at :: "(string \<Rightarrow> bool) \<Rightarrow> string \<Rightarrow> string" where
  "cut_at P [] = []"
| "cut_at P (c # cs) = (if P (c # cs) then [] else c # cut_at P cs)"

definition blank_out :: "string \<Rightarrow> string" where
  "blank_out s = map (\<lambda>c. if c = NL then NL else CHR '' '') s"

end
