(* ===== verification/JsNumber.thy ===== *)
theory JsNumber
  imports JsText
begin

text \<open>
  Numbers read from text: \<open>Number(s)\<close> by the grammar of ECMAScript's string numeric literals and
  \<open>parseInt(s, 16)\<close>.  A number is its exact rational value where a program holds the nearest
  double; texts that read as an infinity or as no number give \<open>None\<close>, the case every caller
  tests for with \<open>isFinite\<close> or \<open>isInteger\<close>.
\<close>

section \<open>Digits\<close>

definition digit_value :: "char \<Rightarrow> nat" where
  "digit_value c =
     (if is_digit c then code c - 48 else if is_lower c then code c - 87
      else if is_upper c then code c - 55 else 36)"

definition is_base_digit :: "nat \<Rightarrow> char \<Rightarrow> bool" where
  "is_base_digit b c \<longleftrightarrow> digit_value c < b"

definition base_value :: "nat \<Rightarrow> string \<Rightarrow> nat" where
  "base_value b s = foldl (\<lambda>n c. b * n + digit_value c) 0 s"

fun show_base :: "nat \<Rightarrow> nat \<Rightarrow> string" where
  "show_base b n =
     (if n < b \<or> b < 2 then [''0123456789abcdefghijklmnopqrstuvwxyz'' ! n]
      else show_base b (n div b) @ [''0123456789abcdefghijklmnopqrstuvwxyz'' ! (n mod b)])"

declare show_base.simps [simp del]

lemma digit_of: "n < 36 \<Longrightarrow> digit_value (''0123456789abcdefghijklmnopqrstuvwxyz'' ! n) = n"
proof -
  have "\<forall>n \<in> {0..<36}. digit_value (''0123456789abcdefghijklmnopqrstuvwxyz'' ! n) = n" by code_simp
  then show "n < 36 \<Longrightarrow> ?thesis" by simp
qed

lemma base_value_snoc [simp]: "base_value b (s @ [c]) = b * base_value b s + digit_value c"
  by (simp add: base_value_def)

lemma show_base_value: "2 \<le> b \<Longrightarrow> b \<le> 36 \<Longrightarrow> base_value b (show_base b n) = n"
proof (induction b n rule: show_base.induct)
  case (1 b n)
  show ?case
  proof (cases "n < b")
    case True
    with 1 show ?thesis by (subst show_base.simps) (simp add: base_value_def digit_of)
  next
    case False
    with 1 have "base_value b (show_base b (n div b)) = n div b" by simp
    moreover have "n mod b < 36" using 1(2,3) by (meson less_le_trans mod_less_divisor pos2 order_less_le_trans)
    ultimately show ?thesis using False 1 by (subst show_base.simps) (simp add: digit_of)
  qed
qed

lemma show_base_digits: "2 \<le> b \<Longrightarrow> b \<le> 36 \<Longrightarrow> list_all (is_base_digit b) (show_base b n)"
proof (induction b n rule: show_base.induct)
  case (1 b n)
  then have "n mod b < b" by simp
  moreover from this have "n mod b < 36" using 1(3) by linarith
  ultimately have d: "is_base_digit b (''0123456789abcdefghijklmnopqrstuvwxyz'' ! (n mod b))"
    by (simp add: is_base_digit_def digit_of)
  show ?case
  proof (cases "n < b")
    case True
    with 1 d show ?thesis by (subst show_base.simps) simp
  next
    case False
    with 1 d show ?thesis by (subst show_base.simps) simp
  qed
qed

lemma show_base_ne [simp]: "show_base b n \<noteq> []"
  by (subst show_base.simps) simp

section \<open>Number\<close>

text \<open>What does not round to an infinity: below \<open>2 ^ 1024 - 2 ^ 970 = (2 ^ 97) ^ 10 * (2 ^ 54 - 1)\<close>.\<close>

definition finite_double :: "rat \<Rightarrow> bool" where
  "finite_double v \<longleftrightarrow> \<bar>v\<bar> < of_int ((2 ^ 97) ^ 10 * (2 ^ 54 - 1))"

definition split_sign :: "string \<Rightarrow> bool \<times> string" where
  "split_sign s =
     (case s of c # cs \<Rightarrow> if c = CHR ''-'' then (True, cs) else if c = CHR ''+'' then (False, cs) else (False, s)
      | [] \<Rightarrow> (False, []))"

definition exponent_of :: "string \<Rightarrow> int option" where
  "exponent_of s =
     (case s of
        [] \<Rightarrow> Some 0
      | c # cs \<Rightarrow>
          (let (neg, ds) = split_sign cs in
           if (c = CHR ''e'' \<or> c = CHR ''E'') \<and> ds \<noteq> [] \<and> list_all is_digit ds
           then Some (if neg then - int (digits_value ds) else int (digits_value ds)) else None))"

definition scale :: "rat \<Rightarrow> int \<Rightarrow> rat" where
  "scale m e = (if 0 \<le> e then m * 10 ^ nat e else m / 10 ^ nat (- e))"

definition unsigned_decimal :: "string \<Rightarrow> rat option" where
  "unsigned_decimal s =
     (let whole = takeWhile is_digit s; t = dropWhile is_digit s;
          dotted = (t \<noteq> [] \<and> hd t = CHR ''.'');
          frac = (if dotted then takeWhile is_digit (tl t) else []);
          u = (if dotted then dropWhile is_digit (tl t) else t) in
      if whole = [] \<and> frac = [] then None
      else map_option (\<lambda>e. scale (of_nat (digits_value (whole @ frac))) (e - int (length frac))) (exponent_of u))"

definition prefixed_number :: "string \<Rightarrow> rat option option" where
  "prefixed_number s =
     (let lit = (\<lambda>b. let ds = drop 2 s in
                  if ds \<noteq> [] \<and> list_all (is_base_digit b) ds then Some (of_nat (base_value b ds)) else None) in
      if starts_with_ci s ''0x'' then Some (lit 16)
      else if starts_with_ci s ''0o'' then Some (lit 8)
      else if starts_with_ci s ''0b'' then Some (lit 2) else None)"

definition js_number :: "string \<Rightarrow> rat option" where
  "js_number text =
     (let s = trim text in
      if s = [] then Some 0
      else (case prefixed_number s of
              Some r \<Rightarrow> r
            | None \<Rightarrow>
                (let (neg, ds) = split_sign s in
                 map_option (\<lambda>v. if neg then - v else v) (unsigned_decimal ds))))"

definition finite_number :: "string \<Rightarrow> rat option" where
  "finite_number s = (case js_number s of Some v \<Rightarrow> if finite_double v then Some v else None | None \<Rightarrow> None)"

text \<open>\<open>parseInt(s, 16)\<close>\<close>

definition parse_int_16 :: "string \<Rightarrow> int option" where
  "parse_int_16 text =
     (let (neg, s) = split_sign (trim_start text);
          ds = takeWhile (is_base_digit 16) (if starts_with_ci s ''0x'' then drop 2 s else s) in
      if ds = [] then None
      else Some (if neg then - int (base_value 16 ds) else int (base_value 16 ds)))"

section \<open>Reading what is printed\<close>

lemma digit_not_space: "is_digit c \<Longrightarrow> \<not> is_space c"
  by (auto simp: is_digit_def is_space_def)

lemma trimmed_no_space: "list_all (\<lambda>c. \<not> is_space c) s \<Longrightarrow> trimmed s"
  by (auto simp: trimmed_def list_all_iff)

lemma takeWhile_whole: "list_all P s \<Longrightarrow> takeWhile P s = s" "list_all P s \<Longrightarrow> dropWhile P s = []"
  by (induction s) auto

lemma base_digit_facts:
  "is_base_digit 16 c \<Longrightarrow> \<not> is_space c \<and> c \<noteq> CHR ''-'' \<and> c \<noteq> CHR ''+'' \<and> char_lower c \<noteq> CHR ''x''
     \<and> c \<noteq> CHR '':'' \<and> c \<noteq> CHR ''.'' \<and> c \<noteq> CHR '']'' \<and> c \<noteq> CHR ''[''"
proof -
  assume d: "is_base_digit 16 c"
  then have r: "48 \<le> code c \<and> code c \<le> 57 \<or> 97 \<le> code c \<and> code c \<le> 102 \<or> 65 \<le> code c \<and> code c \<le> 70"
    by (auto simp: is_base_digit_def digit_value_def is_digit_def is_lower_def is_upper_def split: if_splits)
  then have "code (char_lower c) \<noteq> 120"
    by (auto simp: char_lower_def is_upper_def)
  then have "char_lower c \<noteq> CHR ''x''" by auto
  with r show ?thesis by (auto simp: is_space_def)
qed

lemma parse_int_16_show: "parse_int_16 (show_base 16 n) = Some (int n)"
proof -
  let ?s = "show_base 16 n"
  have d: "list_all (is_base_digit 16) ?s" by (rule show_base_digits) simp_all
  obtain c cs where s: "?s = c # cs" by (cases ?s) simp_all
  from d s have c: "is_base_digit 16 c" by simp
  have "trim_start ?s = ?s" using c s base_digit_facts [OF c] by (simp add: trim_start_def)
  moreover have "split_sign ?s = (False, ?s)" using s base_digit_facts [OF c] by (simp add: split_sign_def)
  moreover have "\<not> starts_with_ci ?s ''0x''"
  proof (cases cs)
    case Nil
    with s show ?thesis by (simp add: starts_with_ci_def lower_def)
  next
    case (Cons e es)
    with d s have "is_base_digit 16 e" by simp
    from base_digit_facts [OF this] s Cons show ?thesis by (simp add: starts_with_ci_def lower_def)
  qed
  ultimately show ?thesis
    using show_base_value [of 16 n] by (simp add: parse_int_16_def takeWhile_whole(1) [OF d] Let_def)
qed

lemma show_nat_all_digits: "list_all is_digit (show_nat n)"
  using show_nat_digits by (auto simp: list_all_iff)

lemma js_number_show_nat: "js_number (show_nat n) = Some (of_nat n)"
proof -
  let ?s = "show_nat n"
  have d: "list_all is_digit ?s" by (rule show_nat_all_digits)
  obtain c cs where s: "?s = c # cs" by (cases ?s) simp_all
  have c: "is_digit c" "cs \<noteq> [] \<Longrightarrow> is_digit (hd cs)" using d s by (cases cs; simp)+
  have t: "trim ?s = ?s"
    using d digit_not_space by (intro trim_trimmed trimmed_no_space) (auto simp: list_all_iff)
  have low: "char_lower e = e" if "is_digit e" for e
    using that by (auto simp: char_lower_def is_digit_def is_upper_def)
  have "\<not> is_digit (CHR ''x'')" "\<not> is_digit (CHR ''o'')" "\<not> is_digit (CHR ''b'')"
    by (simp_all add: is_digit_def)
  then have "prefixed_number ?s = None"
    using c low s by (cases cs) (auto simp: prefixed_number_def starts_with_ci_def lower_def)
  moreover have "split_sign ?s = (False, ?s)" using c s by (auto simp: split_sign_def is_digit_def)
  moreover have "unsigned_decimal ?s = Some (of_nat n)"
    by (simp add: unsigned_decimal_def takeWhile_whole [OF d] exponent_of_def scale_def Let_def)
  ultimately show ?thesis using t by (simp add: js_number_def Let_def)
qed

end
