(* ===== verification/BrainMove.thy ===== *)
theory BrainMove
  imports OrgSchema OrgAccess JsNumber
begin

text \<open>
  Moving a brain to another organization and forgetting it (\<open>src/lib/brain-move.ts\<close>,
  \<open>src/lib/brain-forget.ts\<close>), and the credential a brain is read through
  (\<open>src/lib/storage-connections.ts\<close>).  The preview of a move runs the access rule once for each
  organization; the main result is that it announces what the access query answers before and after
  the move.  \<open>lc\<close> stands for \<open>localeCompare\<close>.
\<close>

section \<open>Storage connections\<close>

datatype brain_credential = TokenCredential | InstallationCredential "rat option"

text \<open>An installation id read with \<open>Number\<close> is none for \<open>NaN\<close>.\<close>

definition credentialFor :: "string option \<Rightarrow> rat option \<Rightarrow> brain_credential" where
  "credentialFor storage_kind installation_id =
     (if storage_kind = Some GITHUB_TOKEN_KIND then TokenCredential else InstallationCredential installation_id)"

definition credentialForConnection :: "conn_row \<Rightarrow> brain_credential" where
  "credentialForConnection conn = credentialFor (Some (c_kind conn)) (js_number (c_external conn))"

definition getConnection :: "odb \<Rightarrow> string \<Rightarrow> conn_row option" where
  "getConnection db connectionId = find (\<lambda>c. c_id c = connectionId) (t_conns db)"

datatype storage_error = NoStorage string

definition orgStorage :: "odb \<Rightarrow> org_row \<Rightarrow> storage_error + conn_row" where
  "orgStorage db og =
     (case Option.bind (nonempty (o_conn og)) (getConnection db) of
        None \<Rightarrow> Inl (NoStorage (o_id og))
      | Some c \<Rightarrow> Inr c)"

definition orgAdministersConnection :: "org_row \<Rightarrow> conn_row \<Rightarrow> bool" where
  "orgAdministersConnection og conn \<longleftrightarrow> c_owner conn = Some (o_id og)"

section \<open>The preview of a move\<close>

record move_person =
  mp_user :: string
  mp_email :: string
  mp_source :: "role option"
  mp_dest :: "role option"
  mp_grant :: "role option"

datatype move_outcome = Unchanged | Changed | Loses | Gains

record move_change =
  mc_user :: string
  mc_email :: string
  mc_before :: "role option"
  mc_after :: "role option"
  mc_via :: "access_via option"
  mc_outcome :: move_outcome

definition outcome_of :: "role option \<Rightarrow> role option \<Rightarrow> move_outcome" where
  "outcome_of before after =
     (if after = None then Loses else if before = None then Gains
      else if before = after then Unchanged else Changed)"

definition move_change_of :: "string \<Rightarrow> bool \<Rightarrow> move_person \<Rightarrow> move_change option" where
  "move_change_of visibility readOnly p =
     (let before = effectiveBrainRole visibility (mp_source p) (mp_grant p) readOnly;
          after = effectiveBrainRole visibility (mp_dest p) (mp_grant p) readOnly
      in if before = None \<and> after = None then None
         else Some \<lparr>mc_user = mp_user p, mc_email = mp_email p, mc_before = before, mc_after = after,
                    mc_via = (if after \<noteq> None then Some (accessVia (mp_dest p) (mp_grant p)) else None),
                    mc_outcome = outcome_of before after\<rparr>)"

fun outcome_rank :: "move_outcome \<Rightarrow> int" where
  "outcome_rank Loses = 0"
| "outcome_rank Changed = 1"
| "outcome_rank Gains = 2"
| "outcome_rank Unchanged = 3"

definition planBrainMove ::
  "(string \<Rightarrow> string \<Rightarrow> int) \<Rightarrow> string \<Rightarrow> bool \<Rightarrow> move_person list \<Rightarrow> move_change list" where
  "planBrainMove lc visibility readOnly people =
     js_sort (\<lambda>a b. cmp_or (outcome_rank (mc_outcome a) - outcome_rank (mc_outcome b)) (lc (mc_email a) (mc_email b)))
       (List.map_filter (move_change_of visibility readOnly) people)"

text \<open>The three left joins match at most one row each: the pairs are primary keys.\<close>

definition loadMovePeople :: "odb \<Rightarrow> string \<Rightarrow> string \<Rightarrow> string \<Rightarrow> move_person list" where
  "loadMovePeople db brainId fromOrgId toOrgId =
     filter (\<lambda>p. mp_source p \<noteq> None \<or> mp_dest p \<noteq> None \<or> mp_grant p \<noteq> None)
       (map (\<lambda>u. \<lparr>mp_user = u_id u, mp_email = u_email u,
                   mp_source = getMemberRole db fromOrgId (u_id u),
                   mp_dest = getMemberRole db toOrgId (u_id u),
                   mp_grant = getBrainGrant db brainId (u_id u)\<rparr>) (t_users db))"

definition countPendingBrainInvites :: "odb \<Rightarrow> nat \<Rightarrow> string \<Rightarrow> nat" where
  "countPendingBrainInvites db now brainId =
     length (filter (\<lambda>i. i_brain i = Some brainId \<and> pending now i) (t_invites db))"

text \<open>The lines of the preview, each with what it quotes.\<close>

datatype move_why = NoReason | NoMemberNoGrant | GuestCapped | MemberOf

datatype move_line =
    MoveQuestion string string string
  | BlankLine
  | StorageStays string
  | AccessChanges
  | AccessOf string "role option" "role option" move_why
  | NobodyChanges
  | UnchangedFor nat "string list"
  | InvitesMove nat
  | UsageStays string
  | NothingYet

definition move_why_of :: "move_change \<Rightarrow> move_why" where
  "move_why_of c =
     (if mc_outcome c = Loses then NoMemberNoGrant
      else if mc_via c = Some ViaGuest then GuestCapped
      else if mc_outcome c = Gains \<and> mc_via c = Some ViaOrg then MemberOf
      else NoReason)"

definition describeMove :: "string \<Rightarrow> string \<Rightarrow> string \<Rightarrow> string \<Rightarrow> move_change list \<Rightarrow> nat \<Rightarrow> move_line list" where
  "describeMove brain from_org to_org storageAccount changes pendingInvites =
     (let moved = filter (\<lambda>c. mc_outcome c \<noteq> Unchanged) changes;
          same = filter (\<lambda>c. mc_outcome c = Unchanged) changes
      in [MoveQuestion brain from_org to_org, BlankLine, StorageStays storageAccount, BlankLine]
         @ (if moved \<noteq> []
            then AccessChanges # map (\<lambda>c. AccessOf (mc_email c) (mc_before c) (mc_after c) (move_why_of c)) moved
            else [NobodyChanges])
         @ (if same \<noteq> [] then [UnchangedFor (length same) (map mc_email same)] else [])
         @ (if pendingInvites \<noteq> 0 then [InvitesMove pendingInvites] else [])
         @ [UsageStays from_org, BlankLine, NothingYet])"

section \<open>The move\<close>

text \<open>Both updates land or none does; they fail on an organization that does not exist.\<close>

definition moveBrain :: "odb \<Rightarrow> string \<Rightarrow> string \<Rightarrow> sql_error + odb" where
  "moveBrain db brainId toOrgId =
     (let waits = (\<lambda>i. i_brain i = Some brainId \<and> i_accepted i = None) in
      if toOrgId \<notin> set (map o_id (t_orgs db))
         \<and> ((\<exists>b \<in> set (t_brains db). b_id b = brainId) \<or> (\<exists>i \<in> set (t_invites db). waits i))
      then Inl ForeignKeyFailed
      else Inr (db\<lparr>t_brains := row_update (\<lambda>b. b_id b = brainId) (\<lambda>b. b\<lparr>b_org := toOrgId\<rparr>) (t_brains db),
                   t_invites := row_update waits (\<lambda>i. i\<lparr>i_org := toOrgId\<rparr>) (t_invites db)\<rparr>))"

section \<open>Forgetting a brain\<close>

text \<open>
  One batch over \<open>BRAIN_PURGED_TABLES\<close> and \<open>brains\<close>: the unlinked tables, the grants, the
  invitations, then the rows of the brains themselves.
\<close>

definition forgetBrains :: "odb \<Rightarrow> (string \<Rightarrow> bool) \<Rightarrow> odb" where
  "forgetBrains db P =
     db\<lparr>t_residue := row_delete (\<lambda>(t, b). t \<in> set BRAIN_UNLINKED_TABLES \<and> P b) (t_residue db),
        t_grants := row_delete (\<lambda>g. P (g_brain g)) (t_grants db),
        t_invites := row_delete (\<lambda>i. case i_brain i of None \<Rightarrow> False | Some b \<Rightarrow> P b) (t_invites db),
        t_brains := row_delete (\<lambda>b. P (b_id b)) (t_brains db)\<rparr>"

definition forgetBrain :: "odb \<Rightarrow> string \<Rightarrow> odb" where
  "forgetBrain db brainId = forgetBrains db (\<lambda>b. b = brainId)"

section \<open>Both keep the schema\<close>

lemma image_row_update_in:
  "k ` set rows \<subseteq> A \<Longrightarrow> (\<And>r. k (f r) \<in> A) \<Longrightarrow> k ` set (row_update P f rows) \<subseteq> A"
  by (auto simp: row_update_def)

lemma row_update_none: "\<forall>r \<in> set rows. \<not> P r \<Longrightarrow> row_update P f rows = rows"
  by (simp add: row_update_def map_idI)

lemma moveBrain_schema:
  assumes run: "moveBrain db k d = Inr db'" and ok: "schema_ok db"
  shows "schema_ok db'"
proof -
  let ?W = "\<lambda>i. i_brain i = Some k \<and> i_accepted i = None"
  let ?bs = "row_update (\<lambda>b. b_id b = k) (\<lambda>b. b\<lparr>b_org := d\<rparr>) (t_brains db)"
  let ?is = "row_update ?W (\<lambda>i. i\<lparr>i_org := d\<rparr>) (t_invites db)"
  from run have db': "db' = db\<lparr>t_brains := ?bs, t_invites := ?is\<rparr>"
    by (simp add: moveBrain_def Let_def split: if_splits)
  from ok have old: "b_org ` set (t_brains db) \<subseteq> o_id ` set (t_orgs db)"
    "i_org ` set (t_invites db) \<subseteq> o_id ` set (t_orgs db)" by (simp_all add: schema_unfold)
  have "b_org ` set ?bs \<subseteq> o_id ` set (t_orgs db) \<and> i_org ` set ?is \<subseteq> o_id ` set (t_orgs db)"
  proof (cases "d \<in> o_id ` set (t_orgs db)")
    case True
    with old show ?thesis by (intro conjI image_row_update_in) simp_all
  next
    case False
    with run have "\<forall>b \<in> set (t_brains db). \<not> b_id b = k" "\<forall>i \<in> set (t_invites db). \<not> ?W i"
      by (auto simp: moveBrain_def Let_def split: if_splits)
    with old show ?thesis by (simp add: row_update_none)
  qed
  with ok show ?thesis by (simp add: db' schema_unfold image_row_update UN_row_update)
qed

lemma forgetBrains_schema: "schema_ok db \<Longrightarrow> schema_ok (forgetBrains db P)"
proof -
  assume ok: "schema_ok db"
  let ?gs = "row_delete (\<lambda>g. P (g_brain g)) (t_grants db)"
  let ?is = "row_delete (\<lambda>i. case i_brain i of None \<Rightarrow> False | Some b \<Rightarrow> P b) (t_invites db)"
  let ?bs = "row_delete (\<lambda>b. P (b_id b)) (t_brains db)"
  have b: "b_id ` set ?bs = {k \<in> b_id ` set (t_brains db). \<not> P k}" by (auto simp: row_delete_def)
  have "g_brain ` set ?gs \<subseteq> b_id ` set (t_brains db)" "\<forall>k \<in> g_brain ` set ?gs. \<not> P k"
    using ok by (auto simp: schema_unfold row_delete_def)
  moreover have "(\<Union>i \<in> set ?is. set_option (i_brain i)) \<subseteq> b_id ` set (t_brains db)"
    "\<forall>k \<in> (\<Union>i \<in> set ?is. set_option (i_brain i)). \<not> P k"
    using ok UN_row_delete by (auto simp: schema_unfold row_delete_def)
  ultimately have "g_brain ` set ?gs \<subseteq> b_id ` set ?bs" "(\<Union>i \<in> set ?is. set_option (i_brain i)) \<subseteq> b_id ` set ?bs"
    unfolding b by blast+
  with ok show ?thesis
    by (simp add: forgetBrains_def schema_unfold image_row_delete UN_row_delete)
qed

lemma forgetBrain_schema: "schema_ok db \<Longrightarrow> schema_ok (forgetBrain db k)"
  by (simp add: forgetBrain_def forgetBrains_schema)

section \<open>What one account is told about one brain\<close>

definition role_on :: "odb \<Rightarrow> string \<Rightarrow> string \<Rightarrow> role option" where
  "role_on db u k = map_option ab_role (find (\<lambda>b. ab_brain_id b = k) (queryAccessibleBrains db [u]))"

text \<open>A brain that is listed at all: not archived, bound to a connection, in an organization that is not suspended.\<close>

definition listed_brain :: "odb \<Rightarrow> brain_row \<Rightarrow> bool" where
  "listed_brain db b \<longleftrightarrow>
     b \<in> set (t_brains db) \<and> b_archived b = None \<and> b_conn b \<noteq> None
     \<and> (\<forall>og \<in> set (t_orgs db). o_id og = b_org b \<longrightarrow> o_suspended og = None)"

lemma memberships_of_one:
  assumes "keys_ok db"
  shows "set (memberships_of db [u] k) = {getMemberRole db k u}"
proof (cases "filter (\<lambda>m. m_org m = k \<and> m_user m \<in> set [u]) (t_members db)")
  case Nil
  then have "getMemberRole db k u = None" by (auto simp: getMemberRole_def find_None_iff filter_empty_conv)
  with Nil show ?thesis by (simp add: memberships_of_def)
next
  case (Cons m ms)
  have "Some (m_role x) = getMemberRole db k u" if "x \<in> set (t_members db)" "m_org x = k" "m_user x = u" for x
    using getMemberRole_row [OF assms that(1)] that(2,3) by simp
  moreover have "\<forall>x \<in> set (m # ms). x \<in> set (t_members db) \<and> m_org x = k \<and> m_user x = u"
    unfolding Cons [symmetric] by simp
  ultimately have "(\<lambda>m. Some (m_role m)) ` set (m # ms) = {getMemberRole db k u}" by auto
  then show ?thesis unfolding memberships_of_def Cons Let_def by simp
qed

lemma row_of_account:
  assumes ok: "schema_ok db" and b: "b \<in> set (t_brains db)"
    and r: "r \<in> set (queryBrainRows db [u])" "b_id (r_brain r) = b_id b"
  shows "row_role r
     = effectiveBrainRole (b_visibility b) (getMemberRole db (b_org b) u) (getBrainGrant db (b_id b) u) (b_read_only b)"
proof -
  have keys: "keys_ok db" using ok by blast
  have rb: "r_brain r = b" by (rule brain_unique [OF keys row_brain_in [OF r(1)] b r(2)])
  have "r_org_role r = getMemberRole db (b_org b) u \<and> r_grant_role r = getBrainGrant db (b_id b) u"
    using r(1) unfolding in_queryBrainRows in_leg_members in_leg_grants rb
  proof
    assume "open_row db r \<and> (\<exists>m \<in> set (t_members db). m_org m = b_org b \<and> m_user m \<in> set [u]
        \<and> r_org_role r = Some (m_role m) \<and> r_grant_role r = getBrainGrant db (b_id b) (m_user m))"
    then show ?thesis using getMemberRole_row [OF keys] by force
  next
    assume "open_row db r \<and> (\<exists>g \<in> set (t_grants db). g_brain g = b_id b \<and> g_user g \<in> set [u]
        \<and> r_grant_role r = Some (g_role g) \<and> r_org_role r \<in> set (memberships_of db [u] (b_org b)))"
    then show ?thesis using getBrainGrant_row [OF keys] memberships_of_one [OF keys, of u "b_org b"] by force
  qed
  then show ?thesis by (simp add: row_role_def rb)
qed

lemma row_exists:
  assumes ok: "schema_ok db" and b: "listed_brain db b"
    and some: "getMemberRole db (b_org b) u \<noteq> None \<or> getBrainGrant db (b_id b) u \<noteq> None"
  shows "\<exists>r \<in> set (queryBrainRows db [u]). b_id (r_brain r) = b_id b"
proof -
  have keys: "keys_ok db" using ok by blast
  have bin: "b \<in> set (t_brains db)" using b by (simp add: listed_brain_def)
  have "b_org ` set (t_brains db) \<subseteq> o_id ` set (t_orgs db)" using ok by (simp add: schema_unfold)
  with bin have "b_org b \<in> o_id ` set (t_orgs db)" by blast
  then obtain og where og: "og \<in> set (t_orgs db)" "o_id og = b_org b" by (metis imageE)
  obtain ci where ci: "b_conn b = Some ci" using b by (auto simp: listed_brain_def)
  have "(\<Union>b \<in> set (t_brains db). set_option (b_conn b)) \<subseteq> c_id ` set (t_conns db)" using ok by (simp add: schema_unfold)
  moreover have "ci \<in> (\<Union>b \<in> set (t_brains db). set_option (b_conn b))" using bin ci by (intro UN_I [OF bin]) simp
  ultimately have "ci \<in> c_id ` set (t_conns db)" by blast
  then obtain c where c: "c \<in> set (t_conns db)" "b_conn b = Some (c_id c)" using ci by (metis imageE)
  let ?r = "\<lambda>ro rg. \<lparr>r_brain = b, r_org = og, r_conn = c, r_org_role = ro, r_grant_role = rg\<rparr>"
  have op: "open_row db (?r ro rg)" for ro rg
    using b og c by (simp add: open_row_def listed_brain_def)
  show ?thesis
  proof (cases "getMemberRole db (b_org b) u")
    case (Some q)
    from getMemberRole_Some [OF this] obtain m where m: "m \<in> set (t_members db)" "m_org m = b_org b" "m_user m = u" by blast
    then have "?r (Some (m_role m)) (getBrainGrant db (b_id b) u) \<in> set (queryBrainRows db [u])"
      unfolding in_queryBrainRows in_leg_members using op by auto
    then show ?thesis by (rule bexI [rotated]) simp
  next
    case None
    with some obtain q where "getBrainGrant db (b_id b) u = Some q" by blast
    from getBrainGrant_Some [OF this] obtain g where g: "g \<in> set (t_grants db)" "g_brain g = b_id b" "g_user g = u" by blast
    have "getMemberRole db (b_org b) u \<in> set (memberships_of db [u] (b_org b))"
      by (simp add: memberships_of_one [OF keys])
    then have "?r (getMemberRole db (b_org b) u) (Some (g_role g)) \<in> set (queryBrainRows db [u])"
      unfolding in_queryBrainRows in_leg_grants using op g by auto
    then show ?thesis by (rule bexI [rotated]) simp
  qed
qed

lemma role_on_rule:
  assumes ok: "schema_ok db" and b: "listed_brain db b"
  shows "role_on db u (b_id b)
     = effectiveBrainRole (b_visibility b) (getMemberRole db (b_org b) u) (getBrainGrant db (b_id b) u) (b_read_only b)"
    (is "_ = ?E")
proof -
  let ?as = "queryAccessibleBrains db [u]"
  note exact = accessible_exact [of db "[u]"]
  have bin: "b \<in> set (t_brains db)" using b by (simp add: listed_brain_def)
  note rows = row_of_account [OF ok bin]
  show ?thesis
  proof (cases "find (\<lambda>x. ab_brain_id x = b_id b) ?as")
    case None
    then have "b_id b \<notin> ab_brain_id ` set ?as" by (force simp: find_None_iff)
    with exact have no: "\<forall>r \<in> set (queryBrainRows db [u]). b_id (r_brain r) = b_id b \<longrightarrow> row_role r = None" by blast
    have "?E = None"
    proof (rule ccontr)
      assume e: "?E \<noteq> None"
      then have "getMemberRole db (b_org b) u \<noteq> None \<or> getBrainGrant db (b_id b) u \<noteq> None"
        by (auto simp: effectiveBrainRole_None_iff)
      from row_exists [OF ok b this] obtain r where r: "r \<in> set (queryBrainRows db [u])" "b_id (r_brain r) = b_id b" by blast
      with no have "row_role r = None" by blast
      with rows [OF r] e show False by simp
    qed
    with None show ?thesis by (simp add: role_on_def)
  next
    case (Some x)
    then have x: "x \<in> set ?as" "ab_brain_id x = b_id b" using find_sound by fastforce+
    with exact obtain r where "r \<in> set (queryBrainRows db [u])" "b_id (r_brain r) = b_id b" "row_role r = Some (ab_role x)"
      by metis
    with rows Some show ?thesis by (simp add: role_on_def)
  qed
qed

section \<open>The preview says what the move does\<close>

text \<open>The preview of a move of one brain, and its entry for one account.\<close>

definition move_preview :: "(string \<Rightarrow> string \<Rightarrow> int) \<Rightarrow> odb \<Rightarrow> brain_row \<Rightarrow> string \<Rightarrow> move_change list" where
  "move_preview lc db b d = planBrainMove lc (b_visibility b) (b_read_only b) (loadMovePeople db (b_id b) (b_org b) d)"

lemma set_planBrainMove: "c \<in> set (planBrainMove lc v ro ps) \<longleftrightarrow> (\<exists>p \<in> set ps. move_change_of v ro p = Some c)"
  by (force simp: planBrainMove_def map_filter_def)

lemma moveBrain_Inr:
  assumes run: "moveBrain db (b_id b) d = Inr db'" and b: "b \<in> set (t_brains db)"
  shows "b\<lparr>b_org := d\<rparr> \<in> set (t_brains db')" "t_orgs db' = t_orgs db"
    "getMemberRole db' = getMemberRole db" "getBrainGrant db' = getBrainGrant db"
proof -
  from run have db': "db' = db\<lparr>t_brains := row_update (\<lambda>x. b_id x = b_id b) (\<lambda>b. b\<lparr>b_org := d\<rparr>) (t_brains db),
      t_invites := row_update (\<lambda>i. i_brain i = Some (b_id b) \<and> i_accepted i = None) (\<lambda>i. i\<lparr>i_org := d\<rparr>) (t_invites db)\<rparr>"
    by (simp add: moveBrain_def Let_def split: if_splits)
  show "b\<lparr>b_org := d\<rparr> \<in> set (t_brains db')" unfolding db' using b by (auto simp: row_update_def)
  show "t_orgs db' = t_orgs db" "getMemberRole db' = getMemberRole db" "getBrainGrant db' = getBrainGrant db"
    by (simp_all add: db' getMemberRole_def getBrainGrant_def fun_eq_iff)
qed

lemma role_after_move:
  assumes ok: "schema_ok db" and b: "listed_brain db b" and run: "moveBrain db (b_id b) d = Inr db'"
    and dest: "og \<in> set (t_orgs db)" "o_id og = d" "o_suspended og = None"
  shows "role_on db' u (b_id b)
     = effectiveBrainRole (b_visibility b) (getMemberRole db d u) (getBrainGrant db (b_id b) u) (b_read_only b)"
proof -
  have bin: "b \<in> set (t_brains db)" using b by (simp add: listed_brain_def)
  note m = moveBrain_Inr [OF run bin]
  have "distinct (map o_id (t_orgs db))" using ok by (simp add: schema_unfold)
  with dest have "\<forall>x \<in> set (t_orgs db). o_id x = d \<longrightarrow> o_suspended x = None"
    by (metis distinct_map inj_onD)
  then have "listed_brain db' (b\<lparr>b_org := d\<rparr>)" using b m(1,2) by (simp add: listed_brain_def)
  from role_on_rule [OF moveBrain_schema [OF run ok] this] m(3,4) show ?thesis by simp
qed

lemma in_move_preview:
  "c \<in> set (move_preview lc db b d) \<longleftrightarrow>
     (\<exists>u \<in> set (t_users db).
        let s = getMemberRole db (b_org b) (u_id u); t = getMemberRole db d (u_id u); g = getBrainGrant db (b_id b) (u_id u) in
        move_change_of (b_visibility b) (b_read_only b)
          \<lparr>mp_user = u_id u, mp_email = u_email u, mp_source = s, mp_dest = t, mp_grant = g\<rparr> = Some c)"
  (is "?L \<longleftrightarrow> ?R")
proof
  assume ?L
  then show ?R by (auto simp: move_preview_def set_planBrainMove loadMovePeople_def Let_def)
next
  assume ?R
  then obtain u where u: "u \<in> set (t_users db)" "move_change_of (b_visibility b) (b_read_only b)
      \<lparr>mp_user = u_id u, mp_email = u_email u, mp_source = getMemberRole db (b_org b) (u_id u),
        mp_dest = getMemberRole db d (u_id u), mp_grant = getBrainGrant db (b_id b) (u_id u)\<rparr> = Some c"
    by (auto simp: Let_def)
  then have "getMemberRole db (b_org b) (u_id u) \<noteq> None \<or> getMemberRole db d (u_id u) \<noteq> None
      \<or> getBrainGrant db (b_id b) (u_id u) \<noteq> None"
    by (auto simp: move_change_of_def Let_def effectiveBrainRole_None_iff split: if_splits)
  with u show ?L by (auto simp: move_preview_def set_planBrainMove loadMovePeople_def intro!: bexI [of _ u])
qed

text \<open>
  C3. The preview of a move is true: for every account, taken by itself, the roles it announces are the
  ones the access query of that account answers for the brain before the move and after it, and the
  accounts it lists are exactly those that reach the brain on either side.  (A person with several linked
  accounts reaches what the accounts reach together; the preview speaks of each account alone.)
\<close>

theorem move_preview_exact:
  assumes "schema_ok db" "listed_brain db b" "moveBrain db (b_id b) d = Inr db'"
    and "og \<in> set (t_orgs db)" "o_id og = d" "o_suspended og = None" and u: "u \<in> set (t_users db)"
  shows "(\<forall>c \<in> set (move_preview lc db b d). mc_user c = u_id u \<longrightarrow>
            mc_before c = role_on db (u_id u) (b_id b) \<and> mc_after c = role_on db' (u_id u) (b_id b))
     \<and> ((\<exists>c \<in> set (move_preview lc db b d). mc_user c = u_id u)
          \<longleftrightarrow> role_on db (u_id u) (b_id b) \<noteq> None \<or> role_on db' (u_id u) (b_id b) \<noteq> None)"
proof -
  have b: "role_on db v (b_id b) = effectiveBrainRole (b_visibility b) (getMemberRole db (b_org b) v)
      (getBrainGrant db (b_id b) v) (b_read_only b)" for v
    by (rule role_on_rule [OF assms(1,2)])
  have a: "role_on db' v (b_id b) = effectiveBrainRole (b_visibility b) (getMemberRole db d v)
      (getBrainGrant db (b_id b) v) (b_read_only b)" for v
    by (rule role_after_move [OF assms(1-6)])
  have entry: "mc_before c = role_on db v (b_id b) \<and> mc_after c = role_on db' v (b_id b)
      \<and> (role_on db v (b_id b) \<noteq> None \<or> role_on db' v (b_id b) \<noteq> None)"
    if "c \<in> set (move_preview lc db b d)" "mc_user c = v" for c v
    using that unfolding in_move_preview a b by (auto simp: move_change_of_def Let_def split: if_splits)
  moreover have "\<exists>c \<in> set (move_preview lc db b d). mc_user c = u_id u"
    if "role_on db (u_id u) (b_id b) \<noteq> None \<or> role_on db' (u_id u) (b_id b) \<noteq> None"
  proof -
    let ?p = "\<lparr>mp_user = u_id u, mp_email = u_email u, mp_source = getMemberRole db (b_org b) (u_id u),
      mp_dest = getMemberRole db d (u_id u), mp_grant = getBrainGrant db (b_id b) (u_id u)\<rparr>"
    from that obtain c where c: "move_change_of (b_visibility b) (b_read_only b) ?p = Some c" "mc_user c = u_id u"
      unfolding a b by (auto simp: move_change_of_def Let_def)
    then have "c \<in> set (move_preview lc db b d)" unfolding in_move_preview Let_def using u by (intro bexI [of _ u])
    with c(2) show ?thesis by blast
  qed
  ultimately show ?thesis by blast
qed

text \<open>A second organization, with the outsider of the sample as its owner.\<close>

definition two_orgs :: odb where
  "two_orgs = sample_db\<lparr>t_orgs := t_orgs sample_db @
       [\<lparr>o_id = ''beta'', o_name = ''Beta'', o_model = ''hosted'', o_installation = 7,
         o_brain_owner = ''beta'', o_github = None, o_conn = Some ''github-app:7'',
         o_created_by = ''out'', o_created = 1, o_suspended = None\<rparr>],
     t_members := t_members sample_db @ [\<lparr>m_org = ''beta'', m_user = ''out'', m_role = Owner, m_added = 3\<rparr>]\<rparr>"

definition open_row_brain :: brain_row where
  "open_row_brain = sample_brain ''open'' ''org'' 0"

lemma two_orgs_schema: "schema_ok two_orgs"
  by (simp add: two_orgs_def sample_defs schema_unfold)

lemma moved_open:
  "moveBrain two_orgs ''open'' ''beta''
     = Inr (two_orgs\<lparr>t_brains := [open_row_brain\<lparr>b_org := ''beta''\<rparr>, sample_brain ''closed'' ''private'' 1]\<rparr>)"
  by (simp add: moveBrain_def two_orgs_def open_row_brain_def sample_defs row_update_def)

theorem move_preview_exact_witness:
  "\<exists>db'. moveBrain two_orgs ''open'' ''beta'' = Inr db'
     \<and> role_on two_orgs ''ed'' ''open'' = Some Editor \<and> role_on db' ''ed'' ''open'' = None
     \<and> role_on two_orgs ''out'' ''open'' = None \<and> role_on db' ''out'' ''open'' = Some Owner"
proof -
  define db' where "db' = two_orgs\<lparr>t_brains := [open_row_brain\<lparr>b_org := ''beta''\<rparr>, sample_brain ''closed'' ''private'' 1]\<rparr>"
  have run: "moveBrain two_orgs (b_id open_row_brain) ''beta'' = Inr db'"
    using moved_open by (simp add: db'_def open_row_brain_def sample_brain_def)
  have b: "listed_brain two_orgs open_row_brain"
    by (simp add: listed_brain_def two_orgs_def open_row_brain_def sample_defs)
  have og: "t_orgs two_orgs ! 1 \<in> set (t_orgs two_orgs)" "o_id (t_orgs two_orgs ! 1) = ''beta''"
    "o_suspended (t_orgs two_orgs ! 1) = None"
    by (simp_all add: two_orgs_def sample_defs)
  have u: "sample_user ''ed'' ''ed@a'' \<in> set (t_users two_orgs)" "sample_user ''out'' ''out@b'' \<in> set (t_users two_orgs)"
    by (simp_all add: two_orgs_def sample_defs)
  note exact = move_preview_exact [OF two_orgs_schema b run og, where lc = code_unit_cmp, THEN conjunct1, rule_format]
  have "\<lparr>mc_user = ''ed'', mc_email = ''ed@a'', mc_before = Some Editor, mc_after = None, mc_via = None, mc_outcome = Loses\<rparr>
      \<in> set (move_preview code_unit_cmp two_orgs open_row_brain ''beta'')"
    unfolding in_move_preview
    by (rule bexI [OF _ u(1)]) (simp add: two_orgs_def open_row_brain_def sample_defs getMemberRole_def getBrainGrant_def
        move_change_of_def effectiveBrainRole_def outcome_of_def)
  moreover have "\<lparr>mc_user = ''out'', mc_email = ''out@b'', mc_before = None, mc_after = Some Owner, mc_via = Some ViaOrg,
      mc_outcome = Gains\<rparr> \<in> set (move_preview code_unit_cmp two_orgs open_row_brain ''beta'')"
    unfolding in_move_preview
    by (rule bexI [OF _ u(2)]) (simp add: two_orgs_def open_row_brain_def sample_defs getMemberRole_def getBrainGrant_def
        move_change_of_def effectiveBrainRole_def outcome_of_def accessVia_def)
  ultimately show ?thesis
    using exact [OF u(1)] exact [OF u(2)] run
    by (intro exI [of _ db']) (fastforce simp: sample_user_def open_row_brain_def sample_brain_def)
qed

end
