(* ===== verification/BrainSelect.thy ===== *)
theory BrainSelect
  imports OrgAccess
begin

text \<open>
  Which brain and which organization a call acts on (\<open>src/lib/orgs.ts\<close>, from
  \<open>orgDisplay\<close> and \<open>listAccessibleOrgs\<close> to \<open>matchBrain\<close>): the fuzzy resolution of a
  caller's handle, the fallback to the active and then the oldest entry, and the refusal to guess.
  An error carries the data its message interpolates.
\<close>

section \<open>Names\<close>

definition orgDisplay :: "'a brain_ref_scheme \<Rightarrow> string" where
  "orgDisplay b =
     (if ab_org_model b = ''platform'' then ''Personal''
      else if trim (ab_org_name b) \<noteq> [] then trim (ab_org_name b) else ab_owner b)"

definition orgLabel :: "org_row \<Rightarrow> string" where
  "orgLabel org =
     (if o_model org = ''platform'' then ''Personal''
      else if trim (o_name org) \<noteq> [] then trim (o_name org) else ''Organization'')"

definition brainLabelQualified :: "'a brain_ref_scheme \<Rightarrow> string" where
  "brainLabelQualified b = ref_label b @ '' ('' @ orgDisplay b @ '')''"

definition storage_locator :: "'a brain_ref_scheme \<Rightarrow> string" where
  "storage_locator b = ab_owner b @ ''/'' @ ab_repo b"

definition brainRefs :: "'a brain_ref_scheme \<Rightarrow> string \<times> string \<times> string" where
  "brainRefs b = (ab_brain_id b, ab_id b, ref_label b)"

definition isActiveBrain :: "'a brain_ref_scheme \<Rightarrow> string option \<Rightarrow> bool" where
  "isActiveBrain b pointer =
     (case nonempty pointer of None \<Rightarrow> False | Some p \<Rightarrow> p = ab_brain_id b \<or> p = storage_locator b)"

definition activeAfterDisconnect :: "string option \<Rightarrow> string \<Rightarrow> string list \<Rightarrow> string option" where
  "activeAfterDisconnect activeId removedId before =
     (if activeId \<noteq> Some removedId then activeId else find (\<lambda>id. id \<noteq> removedId) before)"

section \<open>Matching a handle\<close>

datatype 'b matched = Matched 'b | Several "'b list" | NoMatch

text \<open>\<open>a ?? b\<close> on the result of \<open>find\<close>.\<close>

definition or_else :: "'a option \<Rightarrow> 'a option \<Rightarrow> 'a option" where
  "or_else x y = (case x of None \<Rightarrow> y | Some _ \<Rightarrow> x)"

definition exact_brain :: "'a brain_ref_scheme list \<Rightarrow> string \<Rightarrow> 'a brain_ref_scheme option" where
  "exact_brain brains q =
     or_else (find (\<lambda>b. lower (ab_id b) = q) brains)
     (or_else (find (\<lambda>b. lower (ab_brain_id b) = q) brains)
     (or_else (find (\<lambda>b. lower (storage_locator b) = q) brains)
              (find (\<lambda>b. lower (ab_repo b) = q) brains)))"

definition brain_mentions :: "string \<Rightarrow> 'a brain_ref_scheme \<Rightarrow> bool" where
  "brain_mentions q b \<longleftrightarrow>
     contains (lower (ab_id b)) q \<or> contains (lower (storage_locator b)) q
     \<or> contains (lower (ab_repo b)) q \<or> contains (lower (ab_org_name b)) q
     \<or> contains (lower (ref_label b)) q"

definition one_or_several :: "'b list \<Rightarrow> 'b matched" where
  "one_or_several subs = (case subs of [] \<Rightarrow> NoMatch | [b] \<Rightarrow> Matched b | _ \<Rightarrow> Several subs)"

definition matchBrain :: "'a brain_ref_scheme list \<Rightarrow> string \<Rightarrow> 'a brain_ref_scheme matched" where
  "matchBrain brains query =
     (let q = lower (trim query) in
      if q = [] then NoMatch
      else case exact_brain brains q of
        Some b \<Rightarrow> Matched b
      | None \<Rightarrow>
          (case Option.bind (handleOfSlug q) (\<lambda>handle. find (\<lambda>b. ab_handle b = handle) brains) of
             Some b \<Rightarrow> Matched b
           | None \<Rightarrow> one_or_several (filter (brain_mentions q) brains)))"

text \<open>\<open>closedBrainMessage\<close>: the label and the organization its sentence names.\<close>

definition closedBrainMessage :: "brain_ref list \<Rightarrow> string \<Rightarrow> (string \<times> string) option" where
  "closedBrainMessage stewarded query =
     (case matchBrain stewarded query of
        Matched b \<Rightarrow> Some (ref_label b, orgDisplay b)
      | _ \<Rightarrow> None)"

datatype choose_error =
    NothingToChoose
  | Ambiguous string "string list"
  | NoSuchHandle string "string list"
  | OrgSuspended string

definition chooseBrain ::
  "'a brain_ref_scheme list \<Rightarrow> string option \<Rightarrow> string option \<Rightarrow> choose_error + 'a brain_ref_scheme" where
  "chooseBrain brains brain activeBrainId =
     (if brains = [] then Inl NothingToChoose
      else case nonempty brain of
        Some q \<Rightarrow>
          (case matchBrain brains q of
             Matched b \<Rightarrow> Inr b
           | Several bs \<Rightarrow> Inl (Ambiguous q (map brainLabelQualified bs))
           | NoMatch \<Rightarrow> Inl (NoSuchHandle q (map brainLabelQualified brains)))
      | None \<Rightarrow> Inr (case find (\<lambda>b. isActiveBrain b activeBrainId) brains of
                       Some b \<Rightarrow> b | None \<Rightarrow> hd brains))"

section \<open>Organizations\<close>

record accessible_org =
  ao_org :: org_row
  ao_role :: role
  ao_account :: "string option"

definition org_rows :: "odb \<Rightarrow> string list \<Rightarrow> (org_row \<times> role \<times> string option) list" where
  "org_rows db userIds =
     sort_key (\<lambda>(ob, _). (o_created ob, o_id ob))
       [(ob, m_role m,
         Option.bind (o_conn ob) (\<lambda>k. map_option c_account (find (\<lambda>c. c_id c = k) (t_conns db)))).
        m \<leftarrow> t_members db, ob \<leftarrow> t_orgs db,
        o_id ob = m_org m \<and> m_user m \<in> set userIds \<and> o_suspended ob = None]"

definition fold_org ::
  "(string \<times> accessible_org) list \<Rightarrow> org_row \<times> role \<times> string option \<Rightarrow> (string \<times> accessible_org) list" where
  "fold_org byId row =
     (case row of (org, role, account) \<Rightarrow>
        (case map_of byId (o_id org) of
           None \<Rightarrow> AList.update (o_id org) \<lparr>ao_org = org, ao_role = role, ao_account = account\<rparr> byId
         | Some seen \<Rightarrow>
             if roleAtLeast role (ao_role seen) then AList.update (o_id org) (seen\<lparr>ao_role := role\<rparr>) byId
             else byId))"

definition listAccessibleOrgs :: "odb \<Rightarrow> string list \<Rightarrow> accessible_org list" where
  "listAccessibleOrgs db userIds =
     (if userIds = [] then [] else map snd (foldl fold_org [] (org_rows db userIds)))"

definition listOrgMemberships :: "odb \<Rightarrow> string list \<Rightarrow> (string \<times> string \<times> role) list" where
  "listOrgMemberships db userIds =
     map (\<lambda>ob. (o_id (ao_org ob), orgLabel (ao_org ob), ao_role ob)) (listAccessibleOrgs db userIds)"

definition membershipNote :: "(string \<times> string \<times> role) list option \<Rightarrow> string" where
  "membershipNote orgs =
     (case orgs of
        None \<Rightarrow> []
      | Some [] \<Rightarrow> '' Not a member of any organization.''
      | Some os \<Rightarrow>
          '' Member of '' @ join_with '', '' (map (\<lambda>(_, l, r). l @ '' ('' @ role_token r @ '')'') os) @ ''.'')"

definition org_handles :: "accessible_org \<Rightarrow> string list" where
  "org_handles ob =
     map lower (filter (\<lambda>s. s \<noteq> [])
       [o_id (ao_org ob), o_name (ao_org ob), case ao_account ob of Some a \<Rightarrow> a | None \<Rightarrow> []])"

definition matchOrg :: "accessible_org list \<Rightarrow> string \<Rightarrow> accessible_org matched" where
  "matchOrg orgs query =
     (let q = lower (trim query) in
      if q = [] then NoMatch
      else case find (\<lambda>ob. q \<in> set (org_handles ob)) orgs of
        Some ob \<Rightarrow> Matched ob
      | None \<Rightarrow> one_or_several (filter (\<lambda>ob. \<exists>h \<in> set (org_handles ob). contains h q) orgs))"

definition firstSuspendedOrg :: "odb \<Rightarrow> string list \<Rightarrow> org_row option" where
  "firstSuspendedOrg db userIds =
     (if userIds = [] then None
      else case sort_key (\<lambda>ob. (o_created ob, o_id ob))
             [ob. m \<leftarrow> t_members db, ob \<leftarrow> t_orgs db,
                  o_id ob = m_org m \<and> m_user m \<in> set userIds \<and> o_suspended ob \<noteq> None] of
        [] \<Rightarrow> None | ob # _ \<Rightarrow> Some ob)"

definition chooseOrg ::
  "accessible_org list \<Rightarrow> string option \<Rightarrow> string option \<Rightarrow> choose_error + accessible_org" where
  "chooseOrg orgs org activeOrgId =
     (if orgs = [] then Inl NothingToChoose
      else case nonempty org of
        Some q \<Rightarrow>
          (case matchOrg orgs q of
             Matched ob \<Rightarrow> Inr ob
           | Several os \<Rightarrow> Inl (Ambiguous q (map (\<lambda>ob. orgLabel (ao_org ob)) os))
           | NoMatch \<Rightarrow> Inl (NoSuchHandle q (map (\<lambda>ob. orgLabel (ao_org ob)) orgs)))
      | None \<Rightarrow> Inr (case find (\<lambda>ob. Some (o_id (ao_org ob)) = activeOrgId) orgs of
                       Some ob \<Rightarrow> ob | None \<Rightarrow> hd orgs))"

text \<open>The thunk \<open>activeOrgId\<close> is its value here; it is consulted only when it can matter.\<close>

definition resolveOrgForPerson ::
  "odb \<Rightarrow> string list \<Rightarrow> string option \<Rightarrow> string option \<Rightarrow> choose_error + accessible_org option" where
  "resolveOrgForPerson db userIds org activeOrgId =
     (let orgs = listAccessibleOrgs db userIds in
      if orgs = [] then
        (case firstSuspendedOrg db userIds of
           Some s \<Rightarrow> Inl (OrgSuspended (o_id s))
         | None \<Rightarrow> Inr None)
      else
        map_sum id Some
          (chooseOrg orgs org
             (if nonempty org = None \<and> 1 < length orgs then activeOrgId else None)))"

section \<open>Matching never guesses\<close>

lemma or_else_Some: "or_else x y = Some b \<longleftrightarrow> x = Some b \<or> x = None \<and> y = Some b"
  by (cases x) (auto simp: or_else_def)

lemma or_else_None: "or_else x y = None \<longleftrightarrow> x = None \<and> y = None"
  by (cases x) (auto simp: or_else_def)

lemma find_only:
  assumes x: "x \<in> set xs" "P x" and only: "\<forall>y \<in> set xs. P y \<longrightarrow> y = x"
  shows "find P xs = Some x"
proof (cases "find P xs")
  case None
  with x show ?thesis by (simp add: find_None_iff)
next
  case (Some y)
  with find_sound [OF Some] only show ?thesis by blast
qed

text \<open>The names that reach one brain before any substring is tried.\<close>

definition named_exactly :: "string \<Rightarrow> 'a brain_ref_scheme \<Rightarrow> bool" where
  "named_exactly q b \<longleftrightarrow>
     q \<in> {lower (ab_id b), lower (ab_brain_id b), lower (storage_locator b), lower (ab_repo b)}"

lemma exact_brain_sound: "exact_brain brains q = Some b \<Longrightarrow> b \<in> set brains \<and> named_exactly q b"
  unfolding exact_brain_def or_else_Some by (elim disjE conjE; drule find_sound; simp add: named_exactly_def)

lemma exact_brain_None: "exact_brain brains q = None \<longleftrightarrow> (\<forall>b \<in> set brains. \<not> named_exactly q b)"
  by (auto simp: exact_brain_def or_else_None find_None_iff named_exactly_def)

lemma one_or_several_Matched: "one_or_several subs = Matched b \<longleftrightarrow> subs = [b]"
  by (auto simp: one_or_several_def split: list.splits)

lemma one_or_several_Several: "one_or_several subs = Several bs \<longleftrightarrow> subs = bs \<and> 1 < length bs"
  by (auto simp: one_or_several_def split: list.splits)

lemma one_or_several_NoMatch: "one_or_several subs = NoMatch \<longleftrightarrow> subs = []"
  by (auto simp: one_or_several_def split: list.splits)

lemma filter_single: "filter P xs = [x] \<Longrightarrow> x \<in> set xs \<and> P x \<and> (\<forall>y \<in> set xs. P y \<longrightarrow> y = x)"
proof -
  assume "filter P xs = [x]"
  then have "{y \<in> set xs. P y} = {x}" by (metis list.set(1) list.simps(15) set_filter)
  then show ?thesis by blast
qed

lemma matchBrain_Matched:
  assumes m: "matchBrain brains query = Matched b"
  defines "q \<equiv> lower (trim query)"
  shows "b \<in> set brains
    \<and> (named_exactly q b \<or> handleOfSlug q = Some (ab_handle b)
       \<or> brain_mentions q b \<and> (\<forall>c \<in> set brains. brain_mentions q c \<longrightarrow> c = b))"
proof (cases "exact_brain brains q")
  case (Some c)
  with m have "c = b" by (simp add: matchBrain_def Let_def q_def split: if_splits)
  with Some show ?thesis using exact_brain_sound by blast
next
  case None
  show ?thesis
  proof (cases "Option.bind (handleOfSlug q) (\<lambda>handle. find (\<lambda>b. ab_handle b = handle) brains)")
    case None
    with \<open>exact_brain brains q = None\<close> m
    have "one_or_several (filter (brain_mentions q) brains) = Matched b"
      by (simp add: matchBrain_def Let_def q_def split: if_splits)
    then have "filter (brain_mentions q) brains = [b]" by (simp only: one_or_several_Matched)
    from filter_single [OF this] show ?thesis by blast
  next
    case (Some c)
    with \<open>exact_brain brains q = None\<close> m have "c = b"
      by (simp add: matchBrain_def Let_def q_def split: if_splits)
    with Some show ?thesis by (auto simp: bind_eq_Some_conv dest: find_sound)
  qed
qed

text \<open>
  C17.  A call never acts on a brain the caller did not name.  When a handle is given (blank or
  not), \<open>chooseBrain\<close> returns a brain of the caller's own list that the handle names exactly
  (its slug, its key, its storage locator or its repository), or whose slug handle the handle
  ends in, or that is the only brain of the list the handle occurs in.
\<close>

theorem chooseBrain_never_guesses:
  assumes "handle \<noteq> []" and chosen: "chooseBrain brains (Some handle) active = Inr b"
  shows "b \<in> set brains \<and> trim handle \<noteq> []
    \<and> (named_exactly (lower (trim handle)) b
       \<or> handleOfSlug (lower (trim handle)) = Some (ab_handle b)
       \<or> (\<forall>c \<in> set brains. brain_mentions (lower (trim handle)) c \<longleftrightarrow> c = b))"
proof -
  from assms have m: "matchBrain brains handle = Matched b"
    by (auto simp: chooseBrain_def nonempty_def split: if_splits matched.splits)
  then have "lower (trim handle) \<noteq> []" by (auto simp: matchBrain_def Let_def split: if_splits)
  then have "trim handle \<noteq> []" by (auto simp: lower_def)
  with matchBrain_Matched [OF m] show ?thesis by blast
qed

definition sample_ref :: "string \<Rightarrow> string \<Rightarrow> string \<Rightarrow> brain_ref" where
  "sample_ref k name handle =
     \<lparr>ab_id = brainSlug name handle, ab_brain_id = k, ab_handle = handle, ab_org_id = ''acme'',
      ab_org_name = ''Acme'', ab_org_model = ''github'', ab_installation = 7, ab_account = ''acme'',
      ab_conn = ''c1'', ab_kind = GITHUB_APP_KIND, ab_owner = ''acme'', ab_repo = k, ab_name = Some name,
      ab_org_role = None, ab_visibility = ''org'', ab_read_only = False\<rparr>"

lemmas select_eval =
  chooseBrain_def matchBrain_def exact_brain_def or_else_def sample_ref_def nonempty_def brainSlug_def
  slugifyName_def storage_locator_def one_or_several_def brain_mentions_def

lemma is_handle_sample: "is_handle ''3fa9c2''" "is_handle ''0b1d77''"
  by (simp_all add: is_handle_def is_hex_def is_digit_def)

theorem chooseBrain_never_guesses_witness:
  "sample_ref ''wiki'' ''Team'' ''3fa9c2'' \<in> set [sample_ref ''notes'' ''Notes'' ''0b1d77'', sample_ref ''wiki'' ''Team'' ''3fa9c2'']
   \<and> trim '' WIKI '' \<noteq> []"
proof -
  have "chooseBrain [sample_ref ''notes'' ''Notes'' ''0b1d77'', sample_ref ''wiki'' ''Team'' ''3fa9c2'']
          (Some '' WIKI '') None = Inr (sample_ref ''wiki'' ''Team'' ''3fa9c2'')"
    by code_simp
  from chooseBrain_never_guesses [OF _ this] show ?thesis by blast
qed

text \<open>
   A link made before a brain was renamed still opens it: the slug of any earlier name with
  the brain's handle resolves to that brain, as long as handles are unique in the list and no
  other brain is called exactly that.
\<close>

theorem renamed_brain_resolves:
  assumes h: "is_handle (ab_handle b)" and b: "b \<in> set brains"
    and unique: "\<forall>c \<in> set brains. ab_handle c = ab_handle b \<longrightarrow> c = b"
    and free: "\<forall>c \<in> set brains. c \<noteq> b \<longrightarrow> \<not> named_exactly (brainSlug oldname (ab_handle b)) c"
  shows "matchBrain brains (brainSlug oldname (ab_handle b)) = Matched b"
proof -
  let ?q = "brainSlug oldname (ab_handle b)"
  have q: "lower (trim ?q) = ?q" by (rule brainSlug_plain [OF h])
  have hs: "handleOfSlug ?q = Some (ab_handle b)" by (rule handleOfSlug_brainSlug [OF h])
  then have ne: "?q \<noteq> []" by (auto simp: handleOfSlug_def Let_def after_last_dash_def lower_def is_handle_def split: if_splits)
  show ?thesis
  proof (cases "exact_brain brains ?q")
    case (Some c)
    with exact_brain_sound [OF Some] free have "c = b" by blast
    with Some q ne show ?thesis by (simp add: matchBrain_def)
  next
    case None
    have "find (\<lambda>c. ab_handle c = ab_handle b) brains = Some b"
      using find_only [OF b, of "\<lambda>c. ab_handle c = ab_handle b"] unique by simp
    with None q ne hs show ?thesis by (simp add: matchBrain_def)
  qed
qed

theorem renamed_brain_resolves_witness:
  "matchBrain [sample_ref ''notes'' ''Notes'' ''0b1d77'', sample_ref ''wiki'' ''Handbook'' ''3fa9c2'']
     (brainSlug ''Team Wiki'' ''3fa9c2'') = Matched (sample_ref ''wiki'' ''Handbook'' ''3fa9c2'')"
proof -
  let ?b = "sample_ref ''wiki'' ''Handbook'' ''3fa9c2''"
  let ?bs = "[sample_ref ''notes'' ''Notes'' ''0b1d77'', ?b]"
  have h: "ab_handle ?b = ''3fa9c2''" by (simp add: sample_ref_def)
  have other: "\<not> named_exactly (brainSlug ''Team Wiki'' ''3fa9c2'') (sample_ref ''notes'' ''Notes'' ''0b1d77'')"
    by code_simp
  have "matchBrain ?bs (brainSlug ''Team Wiki'' (ab_handle ?b)) = Matched ?b"
  proof (rule renamed_brain_resolves)
    show "is_handle (ab_handle ?b)" by (simp add: h is_handle_sample)
    show "?b \<in> set ?bs" by simp
    show "\<forall>c \<in> set ?bs. ab_handle c = ab_handle ?b \<longrightarrow> c = ?b"
      by (simp add: sample_ref_def)
    show "\<forall>c \<in> set ?bs. c \<noteq> ?b \<longrightarrow> \<not> named_exactly (brainSlug ''Team Wiki'' (ab_handle ?b)) c"
      using other by (simp add: h)
  qed
  then show ?thesis by (simp add: h)
qed

section \<open>The organizations of a person\<close>

definition org_inv ::
  "(org_row \<times> role \<times> string option) list \<Rightarrow> (string \<times> accessible_org) list \<Rightarrow> bool" where
  "org_inv seen byId \<longleftrightarrow>
     distinct (map fst byId)
     \<and> (\<forall>k. (map_of byId k \<noteq> None) = (\<exists>x \<in> set seen. o_id (fst x) = k))
     \<and> (\<forall>k e. map_of byId k = Some e \<longrightarrow>
          o_id (ao_org e) = k
          \<and> (\<exists>x \<in> set seen. fst x = ao_org e)
          \<and> (\<exists>x \<in> set seen. o_id (fst x) = k \<and> fst (snd x) = ao_role e)
          \<and> (\<forall>x \<in> set seen. o_id (fst x) = k \<longrightarrow> fst (snd x) \<le> ao_role e))"

lemma org_inv_step:
  assumes inv: "org_inv seen byId"
  shows "org_inv (seen @ [row]) (fold_org byId row)"
proof -
  obtain ob rl ac where row: "row = (ob, rl, ac)" by (cases row)
  let ?k = "o_id ob"
  show ?thesis
  proof (cases "map_of byId ?k")
    case None
    with inv have fresh: "\<forall>x \<in> set seen. o_id (fst x) \<noteq> ?k"
      unfolding org_inv_def by blast
    have "fold_org byId row = AList.update ?k \<lparr>ao_org = ob, ao_role = rl, ao_account = ac\<rparr> byId"
      using None by (simp add: fold_org_def row)
    with inv fresh show ?thesis
      by (auto simp: org_inv_def update_conv' distinct_update row
          simp del: map_of_eq_Some_iff Some_eq_map_of_iff split: if_splits)
  next
    case e: (Some e)
    from inv e have old: "o_id (ao_org e) = ?k"
      "\<exists>x \<in> set seen. fst x = ao_org e"
      "\<exists>x \<in> set seen. o_id (fst x) = ?k \<and> fst (snd x) = ao_role e"
      "\<forall>x \<in> set seen. o_id (fst x) = ?k \<longrightarrow> fst (snd x) \<le> ao_role e"
      unfolding org_inv_def by blast+
    show ?thesis
    proof (cases "roleAtLeast rl (ao_role e)")
      case True
      then have new: "fold_org byId (ob, rl, ac) = AList.update ?k (e\<lparr>ao_role := rl\<rparr>) byId"
        using e by (simp add: fold_org_def row)
      from True have le: "ao_role e \<le> rl" by simp
      with old(4) have "\<forall>x \<in> set seen. o_id (fst x) = ?k \<longrightarrow> fst (snd x) \<le> rl" by fastforce
      with inv old(1,2) e show ?thesis
        unfolding row new org_inv_def
        by (auto simp: update_conv' distinct_update simp del: map_of_eq_Some_iff Some_eq_map_of_iff)
    next
      case False
      then have new: "fold_org byId (ob, rl, ac) = byId"
        using e by (simp add: fold_org_def row)
      from False have le: "rl \<le> ao_role e" by simp
      with inv old e show ?thesis
        unfolding row new org_inv_def
        by (auto simp del: map_of_eq_Some_iff Some_eq_map_of_iff)
    qed
  qed
qed

lemma org_inv_foldl: "org_inv seen byId \<Longrightarrow> org_inv (seen @ rows) (foldl fold_org byId rows)"
proof (induction rows arbitrary: seen byId)
  case Nil
  then show ?case by simp
next
  case (Cons r rows)
  from Cons.IH [OF org_inv_step [OF Cons.prems, of r]] show ?case by simp
qed

lemma in_org_rows:
  "(ob, rl, ac) \<in> set (org_rows db ids) \<Longrightarrow>
     ob \<in> set (t_orgs db) \<and> o_suspended ob = None
     \<and> (\<exists>m \<in> set (t_members db). m_org m = o_id ob \<and> m_user m \<in> set ids \<and> m_role m = rl)"
  by (auto simp: org_rows_def)

lemma org_rows_has:
  assumes "m \<in> set (t_members db)" "ob \<in> set (t_orgs db)" "o_id ob = m_org m" "m_user m \<in> set ids"
    "o_suspended ob = None"
  shows "\<exists>ac. (ob, m_role m, ac) \<in> set (org_rows db ids)"
  using assms unfolding org_rows_def by fastforce

lemma listAccessibleOrgs_sound:
  assumes a: "a \<in> set (listAccessibleOrgs db ids)"
  shows "ao_org a \<in> set (t_orgs db) \<and> o_suspended (ao_org a) = None
    \<and> (\<exists>m \<in> set (t_members db). m_org m = o_id (ao_org a) \<and> m_user m \<in> set ids \<and> m_role m = ao_role a)
    \<and> (\<forall>m \<in> set (t_members db). m_org m = o_id (ao_org a) \<and> m_user m \<in> set ids \<longrightarrow> m_role m \<le> ao_role a)"
proof -
  let ?al = "foldl fold_org [] (org_rows db ids)"
  have "org_inv [] []" by (simp add: org_inv_def)
  from org_inv_foldl [OF this, of "org_rows db ids"] have inv: "org_inv (org_rows db ids) ?al" by simp
  from a obtain k where "(k, a) \<in> set ?al" by (auto simp: listAccessibleOrgs_def split: if_splits)
  with inv have k: "map_of ?al k = Some a" by (auto simp: org_inv_def)
  from inv k have id: "o_id (ao_org a) = k"
    and row: "\<exists>x \<in> set (org_rows db ids). fst x = ao_org a"
    and own: "\<exists>x \<in> set (org_rows db ids). o_id (fst x) = k \<and> fst (snd x) = ao_role a"
    and top: "\<forall>x \<in> set (org_rows db ids). o_id (fst x) = k \<longrightarrow> fst (snd x) \<le> ao_role a"
    unfolding org_inv_def by blast+
  from row have org: "ao_org a \<in> set (t_orgs db)" "o_suspended (ao_org a) = None"
    using in_org_rows by fastforce+
  from own id have ex: "\<exists>m \<in> set (t_members db). m_org m = o_id (ao_org a) \<and> m_user m \<in> set ids \<and> m_role m = ao_role a"
    using in_org_rows by fastforce
  have "m_role m \<le> ao_role a"
    if "m \<in> set (t_members db)" "m_org m = o_id (ao_org a)" "m_user m \<in> set ids" for m
    using org_rows_has [OF that(1) org(1) _ that(3) org(2)] that(2) top id by fastforce
  with org ex show ?thesis by blast
qed

lemma listAccessibleOrgs_Nil:
  "listAccessibleOrgs db ids = [] \<longleftrightarrow>
     (\<forall>m \<in> set (t_members db). \<forall>ob \<in> set (t_orgs db).
        o_id ob = m_org m \<and> m_user m \<in> set ids \<longrightarrow> o_suspended ob \<noteq> None)"
proof -
  have grow: "fold_org al row \<noteq> []" for al row
    by (auto simp: fold_org_def split: prod.splits option.splits)
  have "foldl fold_org al rows = [] \<longleftrightarrow> al = [] \<and> rows = []" for al rows
    using grow by (induction rows arbitrary: al) auto
  then have "listAccessibleOrgs db ids = [] \<longleftrightarrow> ids = [] \<or> org_rows db ids = []"
    by (simp add: listAccessibleOrgs_def)
  also have "org_rows db ids = [] \<longleftrightarrow> (\<forall>x. x \<notin> set (org_rows db ids))" by auto
  finally show ?thesis using in_org_rows org_rows_has
    by (metis (no_types, lifting) empty_iff list.set(1) prod_cases3)
qed

lemma first_None: "(if p then None else case xs of [] \<Rightarrow> None | x # _ \<Rightarrow> Some x) = None \<longleftrightarrow> p \<or> xs = []"
  by (cases xs) auto

lemma firstSuspendedOrg_None:
  "firstSuspendedOrg db ids = None \<longleftrightarrow>
     (\<forall>m \<in> set (t_members db). \<forall>ob \<in> set (t_orgs db).
        o_id ob = m_org m \<and> m_user m \<in> set ids \<longrightarrow> o_suspended ob = None)"
proof -
  let ?rows = "[ob. m \<leftarrow> t_members db, ob \<leftarrow> t_orgs db,
                  o_id ob = m_org m \<and> m_user m \<in> set ids \<and> o_suspended ob \<noteq> None]"
  have "firstSuspendedOrg db ids = None \<longleftrightarrow> ids = [] \<or> sort_key (\<lambda>ob. (o_created ob, o_id ob)) ?rows = []"
    unfolding firstSuspendedOrg_def by (rule first_None)
  also have "sort_key (\<lambda>ob. (o_created ob, o_id ob)) ?rows = [] \<longleftrightarrow> ?rows = []"
    by (rule sort_key_eq_Nil)
  also have "?rows = [] \<longleftrightarrow> (\<forall>ob. ob \<notin> set ?rows)"
    by (rule list_Nil_iff)
  also have "ids = [] \<or> (\<forall>ob. ob \<notin> set ?rows) \<longleftrightarrow>
     (\<forall>m \<in> set (t_members db). \<forall>ob \<in> set (t_orgs db).
        o_id ob = m_org m \<and> m_user m \<in> set ids \<longrightarrow> o_suspended ob = None)"
    by auto
  finally show ?thesis .
qed

lemma matchOrg_Matched: "matchOrg orgs q = Matched a \<Longrightarrow> a \<in> set orgs"
  by (auto simp: matchOrg_def Let_def one_or_several_Matched split: if_splits option.splits
      dest: find_sound filter_single)

lemma chooseOrg_in: "chooseOrg orgs org active = Inr a \<Longrightarrow> a \<in> set orgs"
  by (auto simp: chooseOrg_def split: if_splits option.splits matched.splits
      dest: matchOrg_Matched find_sound)

lemma resolveOrg_exact:
  "(resolveOrgForPerson db ids handle active = Inr None \<longleftrightarrow>
      (\<forall>m \<in> set (t_members db). \<forall>ob \<in> set (t_orgs db). \<not> (o_id ob = m_org m \<and> m_user m \<in> set ids)))
   \<and> (\<forall>a. resolveOrgForPerson db ids handle active = Inr (Some a) \<longrightarrow>
        ao_org a \<in> set (t_orgs db) \<and> o_suspended (ao_org a) = None
        \<and> (\<exists>m \<in> set (t_members db). m_org m = o_id (ao_org a) \<and> m_user m \<in> set ids \<and> m_role m = ao_role a)
        \<and> (\<forall>m \<in> set (t_members db). m_org m = o_id (ao_org a) \<and> m_user m \<in> set ids \<longrightarrow> m_role m \<le> ao_role a))"
proof (intro conjI allI impI)
  have "resolveOrgForPerson db ids handle active = Inr None \<longleftrightarrow>
          listAccessibleOrgs db ids = [] \<and> firstSuspendedOrg db ids = None"
    by (auto simp: resolveOrgForPerson_def Let_def map_sum_def split: option.splits sum.splits)
  then show "resolveOrgForPerson db ids handle active = Inr None \<longleftrightarrow>
      (\<forall>m \<in> set (t_members db). \<forall>ob \<in> set (t_orgs db). \<not> (o_id ob = m_org m \<and> m_user m \<in> set ids))"
    unfolding listAccessibleOrgs_Nil firstSuspendedOrg_None by blast
next
  fix a
  assume "resolveOrgForPerson db ids handle active = Inr (Some a)"
  then obtain act where "chooseOrg (listAccessibleOrgs db ids) handle act = Inr a"
    by (auto simp: resolveOrgForPerson_def Let_def map_sum_def split: option.splits sum.splits if_splits)
  then have a: "a \<in> set (listAccessibleOrgs db ids)" by (rule chooseOrg_in)
  note sound = listAccessibleOrgs_sound [OF a]
  from sound show "ao_org a \<in> set (t_orgs db)" "o_suspended (ao_org a) = None"
    "\<exists>m \<in> set (t_members db). m_org m = o_id (ao_org a) \<and> m_user m \<in> set ids \<and> m_role m = ao_role a"
    by blast+
  from sound show "\<forall>m \<in> set (t_members db). m_org m = o_id (ao_org a) \<and> m_user m \<in> set ids \<longrightarrow> m_role m \<le> ao_role a"
    by blast
qed

text \<open>
  C18.  Provisioning starts only for a person with no membership anywhere: \<open>resolveOrgForPerson\<close>
  answers null exactly then, so a member of one suspended organization is refused instead of
  being given a new one.  An organization it does answer is one the person belongs to, not
  suspended, with the highest role any of their linked identities holds there.
\<close>

theorem resolveOrg_provisions_only_newcomers:
  "(resolveOrgForPerson db ids handle active = Inr None \<longleftrightarrow>
      (\<forall>m \<in> set (t_members db). \<forall>ob \<in> set (t_orgs db). \<not> (o_id ob = m_org m \<and> m_user m \<in> set ids)))
   \<and> (\<forall>a. resolveOrgForPerson db ids handle active = Inr (Some a) \<longrightarrow>
        ao_org a \<in> set (t_orgs db) \<and> o_suspended (ao_org a) = None
        \<and> (\<exists>m \<in> set (t_members db). m_org m = o_id (ao_org a) \<and> m_user m \<in> set ids \<and> m_role m = ao_role a)
        \<and> (\<forall>m \<in> set (t_members db). m_org m = o_id (ao_org a) \<and> m_user m \<in> set ids \<longrightarrow> m_role m \<le> ao_role a))"
  by (rule resolveOrg_exact)

theorem resolveOrg_provisions_only_newcomers_witness:
  "resolveOrgForPerson sample_db [''stranger''] None None = Inr None
   \<and> resolveOrgForPerson sample_db [''own''] None None \<noteq> Inr None"
proof
  show "resolveOrgForPerson sample_db [''stranger''] None None = Inr None"
    by (rule resolveOrg_provisions_only_newcomers [THEN conjunct1, THEN iffD2]) (simp add: sample_defs)
  have "\<not> (\<forall>m \<in> set (t_members sample_db). \<forall>ob \<in> set (t_orgs sample_db).
            \<not> (o_id ob = m_org m \<and> m_user m \<in> set [''own'']))" by (simp add: sample_defs)
  then show "resolveOrgForPerson sample_db [''own''] None None \<noteq> Inr None"
    using resolveOrg_provisions_only_newcomers [of sample_db "[''own'']" None None] by metis
qed

end
