(* ===== verification/OrgOnboard.thy ===== *)
theory OrgOnboard
  imports Invites BrainMove BrainSelect
begin

text \<open>
  How an organization comes to be: a person's first request (\<open>src/lib/provision.ts\<close>), an
  organization created in product or from a GitHub installation (\<open>src/lib/org-connect.ts\<close>,
  \<open>src/tools/org-onboarding.ts\<close>), and the tenant of a single-user deployment
  (\<open>src/lib/static-tenant.ts\<close>).  A value of \<open>crypto.randomUUID()\<close> is an argument.
\<close>

section \<open>The platform installation\<close>

datatype platform_problem = NotConfigured | BadInstallation string

definition platformInstall :: "string option \<Rightarrow> string option \<Rightarrow> platform_problem + string \<times> int" where
  "platformInstall PLATFORM_ORG PLATFORM_INSTALLATION_ID =
     (let org = (case PLATFORM_ORG of Some s \<Rightarrow> trim s | None \<Rightarrow> []);
          raw = (case PLATFORM_INSTALLATION_ID of Some s \<Rightarrow> trim s | None \<Rightarrow> []) in
      if org = [] \<or> raw = [] then Inl NotConfigured
      else case finite_number raw of
        None \<Rightarrow> Inl (BadInstallation raw)
      | Some n \<Rightarrow>
          if n \<noteq> of_int \<lfloor>n\<rfloor> \<or> n \<le> 0 then Inl (BadInstallation raw) else Inr (org, \<lfloor>n\<rfloor>))"

section \<open>A person's first request\<close>

datatype no_brain = MayCreate | NoneShared | NoneConfigured

definition noBrainOutcome :: "role \<Rightarrow> bool \<Rightarrow> no_brain" where
  "noBrainOutcome role orgHasAnyBrain =
     (if roleAtLeast role Editor then MayCreate else if orgHasAnyBrain then NoneShared else NoneConfigured)"

record org_context =
  oc_org :: org_row
  oc_brain :: "brain_row option"
  oc_role :: role

datatype provision_problem =
    StatementFailed sql_error
  | NoBrainFor no_brain
  | NotInvited string
  | NotPersisted string string

definition create_with_owner ::
  "odb \<Rightarrow> nat \<Rightarrow> string \<Rightarrow> string \<Rightarrow> string \<Rightarrow> int \<Rightarrow> string \<Rightarrow> string option \<Rightarrow> string \<Rightarrow> odb \<times> sql_error option" where
  "create_with_owner db now orgId name model installationId brainOwner github userId =
     then_do (run_statement db (createOrg db now orgId name model installationId brainOwner github userId))
       (\<lambda>db1. run_statement db1 (addMembership db1 now orgId userId Owner))"

definition mint_org ::
  "odb \<Rightarrow> nat \<Rightarrow> string \<Rightarrow> string \<Rightarrow> string \<Rightarrow> string \<Rightarrow> int \<Rightarrow> odb \<times> (provision_problem + org_context)" where
  "mint_org db now uuid userId email org installationId =
     (case create_with_owner db now uuid email ''platform'' installationId org None userId of
        (db1, Some e) \<Rightarrow> (db1, Inl (StatementFailed e))
      | (db1, None) \<Rightarrow>
          (case getMembershipWithOrg db1 userId of
             None \<Rightarrow> (db1, Inl (NotPersisted uuid email))
           | Some (role, row) \<Rightarrow>
               (db1, Inr \<lparr>oc_org = row, oc_brain = getDefaultBrainForUser db1 uuid userId role, oc_role = role\<rparr>)))"

definition provisionOrgForUser ::
  "odb \<Rightarrow> nat \<Rightarrow> string \<Rightarrow> string \<Rightarrow> string \<Rightarrow> string option \<Rightarrow> string option \<Rightarrow> int option \<Rightarrow> bool
     \<Rightarrow> odb \<times> (provision_problem + org_context)" where
  "provisionOrgForUser db now uuid userId email name org installationId autoProvision =
     (case upsertAppUser db now userId email name None of
        Inl e \<Rightarrow> (db, Inl (StatementFailed e))
      | Inr db1 \<Rightarrow>
          (case claimPendingInvites db1 now [userId] of
             (db2, Inl e) \<Rightarrow> (db2, Inl (StatementFailed e))
           | (db2, Inr _) \<Rightarrow>
               (case getMembershipWithOrg db2 userId of
                  Some (role, row) \<Rightarrow>
                    (case getDefaultBrainForUser db2 (o_id row) userId role of
                       Some brain \<Rightarrow> (db2, Inr \<lparr>oc_org = row, oc_brain = Some brain, oc_role = role\<rparr>)
                     | None \<Rightarrow>
                         (let outcome = noBrainOutcome role (getAnyBrainInOrg db2 (o_id row) \<noteq> None) in
                          if outcome \<noteq> MayCreate then (db2, Inl (NoBrainFor outcome))
                          else (db2, Inr \<lparr>oc_org = row, oc_brain = None, oc_role = role\<rparr>)))
                | None \<Rightarrow>
                    (case (autoProvision, nonempty org, installationId) of
                       (True, Some o', Some i) \<Rightarrow> mint_org db2 now uuid userId email o' i
                     | _ \<Rightarrow> (db2, Inl (NotInvited email))))))"

section \<open>An organization in product\<close>

definition MAX_ORG_NAME :: nat where "MAX_ORG_NAME = 80"

datatype org_name_problem = NoOrgName | OrgNameTooLong | OrgNameTaken string

definition orgNameProblem :: "string \<Rightarrow> accessible_org list \<Rightarrow> org_name_problem option" where
  "orgNameProblem name mine =
     (let n = trim name in
      if n = [] then Some NoOrgName
      else if MAX_ORG_NAME < length n then Some OrgNameTooLong
      else if list_ex (\<lambda>x. lower (trim (o_name (ao_org x))) = lower n) mine then Some (OrgNameTaken n)
      else None)"

definition createHostedOrg ::
  "odb \<Rightarrow> nat \<Rightarrow> string \<Rightarrow> string \<Rightarrow> string \<Rightarrow> string \<times> int \<Rightarrow> odb \<times> (sql_error + org_row option)" where
  "createHostedOrg db now uuid userId name platform =
     (case create_with_owner db now uuid (trim name) ''hosted'' (snd platform) (fst platform) None userId of
        (db1, Some e) \<Rightarrow> (db1, Inl e)
      | (db1, None) \<Rightarrow> (db1, Inr (getOrgById db1 uuid)))"

record connect_result =
  cr_org :: string
  cr_login :: string
  cr_created :: bool
  cr_user_install :: bool

text \<open>The join of the connection and the organization that owns it: the first such row.\<close>

definition owned_connection :: "odb \<Rightarrow> string \<Rightarrow> (string \<times> string) option" where
  "owned_connection db connectionId =
     (case [(o_id og, c_account c). c \<leftarrow> t_conns db, og \<leftarrow> t_orgs db,
              c_owner c = Some (o_id og) \<and> c_id c = connectionId \<and> o_model og = ''customer''] of
        [] \<Rightarrow> None
      | x # _ \<Rightarrow> Some x)"

definition connectCustomerOrg ::
  "odb \<Rightarrow> nat \<Rightarrow> string \<Rightarrow> string \<Rightarrow> int \<Rightarrow> string \<Rightarrow> string option \<Rightarrow> string option \<Rightarrow> odb \<times> (sql_error + connect_result)" where
  "connectCustomerOrg db now uuid userId installationId orgLogin accountType name =
     (let onUser = (accountType = Some ''User'') in
      case owned_connection db (githubAppConnectionId installationId) of
        Some (k, account) \<Rightarrow>
          (case addMembership db now k userId Owner of
             Inl e \<Rightarrow> (db, Inl e)
           | Inr db1 \<Rightarrow> (db1, Inr \<lparr>cr_org = k, cr_login = account, cr_created = False, cr_user_install = onUser\<rparr>))
      | None \<Rightarrow>
          (let display = (case nonempty (map_option trim name) of Some n \<Rightarrow> n | None \<Rightarrow> orgLogin) in
           case create_with_owner db now uuid display ''customer'' installationId orgLogin (Some orgLogin) userId of
             (db1, Some e) \<Rightarrow> (db1, Inl e)
           | (db1, None) \<Rightarrow>
               (db1, Inr \<lparr>cr_org = uuid, cr_login = orgLogin, cr_created = True, cr_user_install = onUser\<rparr>)))"

text \<open>\<open>create_org\<close>: what is stashed for an installation is part of the answer.\<close>

datatype 'e create_org_refusal =
    ScopeRefused 'e
  | NeedsAccount
  | BadOrgName org_name_problem
  | NoAppSlug
  | NotOffered
  | Platform platform_problem
  | OrgStatementFailed sql_error

datatype create_org_reply =
    InstallLink string string string string
  | OrgCreated "org_row option"

record org_env =
  env_slug :: "string option"
  env_auto_provision :: "string option"
  env_platform_org :: "string option"
  env_platform_installation :: "string option"

definition create_org ::
  "odb \<Rightarrow> nat \<Rightarrow> string \<Rightarrow> 'e + string option \<Rightarrow> accessible_org list \<Rightarrow> 'a org_env_scheme \<Rightarrow> string \<Rightarrow> bool
     \<Rightarrow> odb \<times> ('e create_org_refusal + create_org_reply)" where
  "create_org db now uuid scope mine env name github =
     (case scope of
        Inl e \<Rightarrow> (db, Inl (ScopeRefused e))
      | Inr account \<Rightarrow>
          (case nonempty account of
             None \<Rightarrow> (db, Inl NeedsAccount)
           | Some actor \<Rightarrow>
               (case orgNameProblem name mine of
                  Some p \<Rightarrow> (db, Inl (BadOrgName p))
                | None \<Rightarrow>
                    if github then
                      (case nonempty (env_slug env) of
                         None \<Rightarrow> (db, Inl NoAppSlug)
                       | Some slug \<Rightarrow> (db, Inr (InstallLink slug uuid actor (trim name))))
                    else if env_auto_provision env \<noteq> Some ''true'' then (db, Inl NotOffered)
                    else (case platformInstall (env_platform_org env) (env_platform_installation env) of
                            Inl p \<Rightarrow> (db, Inl (Platform p))
                          | Inr platform \<Rightarrow>
                              (case createHostedOrg db now uuid actor (trim name) platform of
                                 (db1, Inl e) \<Rightarrow> (db1, Inl (OrgStatementFailed e))
                               | (db1, Inr row) \<Rightarrow> (db1, Inr (OrgCreated row)))))))"

section \<open>The tenant of a single-user deployment\<close>

definition STATIC_ORG_ID :: string where "STATIC_ORG_ID = ''static''"
definition STATIC_USER_ID :: string where "STATIC_USER_ID = ''static-operator''"
definition STATIC_USER_EMAIL :: string where "STATIC_USER_EMAIL = ''operator@static.invalid''"
definition GITHUB_TOKEN_CONNECTION_ID :: string where "GITHUB_TOKEN_CONNECTION_ID = ''github-token:env''"

text \<open>The credential of a deployment: no installation stands for the token.\<close>

definition staticConnection :: "int option \<Rightarrow> string \<Rightarrow> conn_row" where
  "staticConnection credential owner =
     (case credential of
        None \<Rightarrow> \<lparr>c_id = GITHUB_TOKEN_CONNECTION_ID, c_provider = ''github'', c_kind = GITHUB_TOKEN_KIND,
                 c_external = ''env'', c_account = owner, c_owner = Some STATIC_ORG_ID\<rparr>
      | Some i \<Rightarrow> \<lparr>c_id = githubAppConnectionId i, c_provider = ''github'', c_kind = GITHUB_APP_KIND,
                   c_external = show_int i, c_account = owner, c_owner = Some STATIC_ORG_ID\<rparr>)"

definition static_user :: "nat \<Rightarrow> odb \<Rightarrow> odb" where
  "static_user now db =
     (if \<exists>u \<in> set (t_users db). u_id u = STATIC_USER_ID \<or> u_email u = STATIC_USER_EMAIL then db
      else db\<lparr>t_users := t_users db @
             [\<lparr>u_id = STATIC_USER_ID, u_email = STATIC_USER_EMAIL, u_name = Some ''Operator'', u_github = None,
               u_person = None, u_created = now\<rparr>]\<rparr>)"

definition static_org :: "nat \<Rightarrow> int \<Rightarrow> string \<Rightarrow> odb \<Rightarrow> odb" where
  "static_org now installationId owner db =
     (if \<exists>r \<in> set (t_orgs db). o_id r = STATIC_ORG_ID
      then db\<lparr>t_orgs := row_update (\<lambda>r. o_id r = STATIC_ORG_ID)
                (\<lambda>r. r\<lparr>o_installation := installationId, o_brain_owner := owner\<rparr>) (t_orgs db)\<rparr>
      else db\<lparr>t_orgs := t_orgs db @
             [\<lparr>o_id = STATIC_ORG_ID, o_name = ''Personal'', o_model = ''platform'', o_installation = installationId,
               o_brain_owner = owner, o_github = None, o_conn = None, o_created_by = STATIC_USER_ID,
               o_created = now, o_suspended = None\<rparr>]\<rparr>)"

definition static_member :: "nat \<Rightarrow> odb \<Rightarrow> sql_error + odb" where
  "static_member now db =
     (if getMemberRole db STATIC_ORG_ID STATIC_USER_ID \<noteq> None then Inr db
      else addMembership db now STATIC_ORG_ID STATIC_USER_ID Owner)"

definition static_conn :: "conn_row \<Rightarrow> odb \<Rightarrow> sql_error + odb" where
  "static_conn conn db =
     (if \<exists>c \<in> set (t_conns db). c_id c = c_id conn
      then Inr (db\<lparr>t_conns := row_update (\<lambda>c. c_id c = c_id conn) (\<lambda>c. c\<lparr>c_account := c_account conn\<rparr>) (t_conns db)\<rparr>)
      else if \<exists>c \<in> set (t_conns db). (c_provider c, c_kind c, c_external c) = (c_provider conn, c_kind conn, c_external conn)
      then Inl UniqueFailed
      else Inr (db\<lparr>t_conns := t_conns db @ [conn]\<rparr>))"

definition static_default :: "conn_row \<Rightarrow> odb \<Rightarrow> odb" where
  "static_default conn db =
     db\<lparr>t_orgs := row_update (\<lambda>r. o_id r = STATIC_ORG_ID) (\<lambda>r. r\<lparr>o_conn := Some (c_id conn)\<rparr>) (t_orgs db)\<rparr>"

definition static_brain :: "nat \<Rightarrow> conn_row \<Rightarrow> string \<Rightarrow> string \<Rightarrow> odb \<Rightarrow> sql_error + odb" where
  "static_brain now conn owner repo db =
     (let here = (\<lambda>b. b_owner b = owner \<and> b_repo b = repo) in
      if \<exists>b \<in> set (t_brains db). here b
      then Inr (db\<lparr>t_brains := row_update here
             (\<lambda>b. b\<lparr>b_org := STATIC_ORG_ID, b_conn := Some (c_id conn), b_archived := None\<rparr>) (t_brains db)\<rparr>)
      else if brainIdFor owner repo \<in> set (map b_id (t_brains db)) then Inl UniqueFailed
      else Inr (db\<lparr>t_brains := t_brains db @
             [\<lparr>b_id = brainIdFor owner repo, b_org = STATIC_ORG_ID, b_owner = owner, b_repo = repo, b_name = None,
               b_created_by = Some STATIC_USER_ID, b_visibility = ''org'', b_created = now, b_archived = None,
               b_read_only = False, b_conn = Some (c_id conn), b_handle = None\<rparr>]\<rparr>))"

text \<open>The last statements select the stale brains again for each table: the purged rows go first.\<close>

definition stale_brain :: "string \<Rightarrow> string \<Rightarrow> brain_row \<Rightarrow> bool" where
  "stale_brain owner repo b \<longleftrightarrow> b_org b = STATIC_ORG_ID \<and> \<not> (b_owner b = owner \<and> b_repo b = repo)"

definition ensureStaticTenant ::
  "odb \<Rightarrow> nat \<Rightarrow> string \<Rightarrow> string \<Rightarrow> int option \<Rightarrow> sql_error + odb" where
  "ensureStaticTenant db now owner repo credential =
     (let conn = staticConnection credential owner;
          installationId = (case credential of Some i \<Rightarrow> i | None \<Rightarrow> 0);
          stale = (\<exists>b \<in> set (t_brains db). stale_brain owner repo b) in
      case static_member now (static_org now installationId owner (static_user now db)) of
        Inl e \<Rightarrow> Inl e
      | Inr db1 \<Rightarrow>
          (case static_conn conn db1 of
             Inl e \<Rightarrow> Inl e
           | Inr db2 \<Rightarrow>
               (case static_brain now conn owner repo (static_default conn db2) of
                  Inl e \<Rightarrow> Inl e
                | Inr db3 \<Rightarrow>
                    Inr (if stale
                         then forgetBrains db3 (\<lambda>k. \<exists>b \<in> set (t_brains db3). b_id b = k \<and> stale_brain owner repo b)
                         else db3))))"

end
