(* ===== verification/BrainAccess.thy ===== *)
theory BrainAccess
  imports Invites
begin

text \<open>
  The sharing tools (\<open>src/tools/brain-access.ts\<close>): \<open>brain_access\<close> reads who reaches one brain,
  \<open>share_brain\<close> makes every change to it.  A refusal after a first write leaves that write in
  place, so \<open>share_brain\<close> returns the database it reached beside its answer.
\<close>

record access_context =
  ac_brain :: string
  ac_label :: string
  ac_role :: "role option"
  ac_org_role :: "role option"
  ac_org :: "string option"
  ac_actor :: "string option"

text \<open>The row a call resolved to: \<open>brain_id\<close>, \<open>visibility\<close>, \<open>org_id\<close>.\<close>

type_synonym brain_head = "string \<times> string \<times> string"

definition resolveBrainRow :: "odb \<Rightarrow> access_context \<Rightarrow> brain_head option" where
  "resolveBrainRow db ctx =
     map_option (\<lambda>b. (b_id b, b_visibility b, b_org b)) (find (\<lambda>b. b_id b = ac_brain ctx) (t_brains db))"

record access_payload =
  pl_access :: "brain_access_entry list"
  pl_invites :: "invite_row list"
  pl_visibility :: string
  pl_user :: string
  pl_role :: "role option"
  pl_org_role :: "role option"
  pl_can_share :: bool

definition accessPayload :: "odb \<Rightarrow> nat \<Rightarrow> access_context \<Rightarrow> brain_head \<Rightarrow> access_payload" where
  "accessPayload db now ctx row =
     (case row of (brainId, visibility, orgId) \<Rightarrow>
        \<lparr>pl_access = listBrainAccess db brainId orgId visibility,
          pl_invites = listPendingBrainInvites db now brainId,
          pl_visibility = visibility,
          pl_user = (case ac_actor ctx of Some a \<Rightarrow> a | None \<Rightarrow> []),
          pl_role = ac_role ctx, pl_org_role = ac_org_role ctx,
          pl_can_share = roleAtLeast
            (case sharingAuthority (ac_role ctx) (ac_org_role ctx) of Some a \<Rightarrow> a | None \<Rightarrow> Viewer) Admin\<rparr>)"

definition access_line :: "brain_access_entry \<Rightarrow> string" where
  "access_line e =
     (let who = (case nonempty (ba_name e) of
                   Some n \<Rightarrow> n @ '' <'' @ ba_email e @ ''>'' | None \<Rightarrow> ba_email e);
          how = (if ba_self_granted e then ''shared with themselves as an organization admin''
                 else if ba_via e = ViaGrant then ''shared directly''
                 else if ba_via e = ViaGuest then ''guest, not in the organization''
                 else ''via organization'')
      in ''- '' @ who @ '': '' @ roleLabel (ba_role e) @ '' ('' @ how @ '')'')"

definition accessText :: "string \<Rightarrow> string \<Rightarrow> brain_access_entry list \<Rightarrow> invite_row list \<Rightarrow> string" where
  "accessText label visibility entries invites =
     (let n = length entries;
          head = (if visibility = ''private''
                  then [DQUOTE] @ label @ [DQUOTE] @ '' is private: '' @ show_nat n @ '' ''
                       @ (if n = 1 then ''person has'' else ''people have'') @ '' access:''
                  else [DQUOTE] @ label @ [DQUOTE] @ '' is shared with everyone in the organization (''
                       @ show_nat n @ '' '' @ (if n = 1 then ''person'' else ''people'') @ ''):'');
          waiting = map (\<lambda>i. ''- '' @ i_email i @ '': '' @ roleLabel (i_role i) @ '' (invited, not signed in yet)'')
                      invites
      in if entries = [] then head
         else join_with [NL] (head # map access_line entries @ waiting))"

datatype share_refusal =
    NeedsSharingAdmin "role option"
  | OrganizationsOnly
  | BadShareArguments
  | NothingToChange
  | NotAnEmail string
  | GrantsTooMuch role
  | GuestCannotAdminister
  | OwnAccess
  | ShareRefused_by_db sql_error

datatype share_note =
    Opened_to_org | Made_private | Was_org_wide | Was_private
  | No_account_nor_invite string | Cancelled_invite string | Invited_guest string role
  | Was_not_shared string | No_direct_share string
  | Unshared string | Unshared_but_visible string
  | Now_on_brain string bool role | Shared_with string bool role
  | Sign_in_hint | Self_share_visible

definition guestRefusal :: "role \<Rightarrow> role \<Rightarrow> share_refusal option" where
  "guestRefusal actorRole target =
     (if \<not> roleAtLeast actorRole target then Some (GrantsTooMuch actorRole)
      else if roleAtLeast target Admin then Some GuestCannotAdminister
      else None)"

definition brain_access :: "odb \<Rightarrow> nat \<Rightarrow> access_context \<Rightarrow> share_refusal + string \<times> access_payload" where
  "brain_access db now ctx =
     (case resolveBrainRow db ctx of
        None \<Rightarrow> Inl OrganizationsOnly
      | Some row \<Rightarrow>
          (let sc = accessPayload db now ctx row in
           Inr (accessText (ac_label ctx) (pl_visibility sc) (pl_access sc) (pl_invites sc), sc)))"

text \<open>\<open>z.enum\<close> of the arguments, and the role a share asks for.\<close>

definition share_arguments_ok :: "string option \<Rightarrow> string option \<Rightarrow> bool" where
  "share_arguments_ok access visibility \<longleftrightarrow>
     (case access of None \<Rightarrow> True | Some s \<Rightarrow> s \<in> {''viewer'', ''editor'', ''admin'', ''none''})
     \<and> (case visibility of None \<Rightarrow> True | Some s \<Rightarrow> s \<in> {''private'', ''org''})"

definition share_target :: "string option \<Rightarrow> role" where
  "share_target access =
     (case nonempty access of
        None \<Rightarrow> Editor
      | Some s \<Rightarrow> (case parseRole s of Some r \<Rightarrow> r | None \<Rightarrow> Editor))"

text \<open>Someone with no account: a brain invitation, or the cancellation of one.\<close>

definition share_stranger ::
  "odb \<Rightarrow> nat \<Rightarrow> role \<Rightarrow> string \<Rightarrow> string \<Rightarrow> string \<Rightarrow> string \<Rightarrow> string \<Rightarrow> string option
     \<Rightarrow> odb \<times> (share_refusal + share_note list)" where
  "share_stranger db now authority uuid orgId actor brainId emailTrim access =
     (let waiting = getPendingBrainInvite db now brainId emailTrim in
      if access = Some ''none'' then
        (if waiting = None then (db, Inr [No_account_nor_invite emailTrim])
         else (cancelBrainInvites db brainId emailTrim, Inr [Cancelled_invite emailTrim]))
      else
        (let target = share_target access in
         case guestRefusal authority target of
           Some e \<Rightarrow> (db, Inl e)
         | None \<Rightarrow>
             (let db1 = (if waiting \<noteq> None then cancelBrainInvites db brainId emailTrim else db) in
              case createInvitation db1 now uuid orgId emailTrim target actor (Some brainId) of
                Inl e \<Rightarrow> (db1, Inl (ShareRefused_by_db e))
              | Inr db2 \<Rightarrow> (db2, Inr [Invited_guest emailTrim target]))))"

definition unshare_user ::
  "odb \<Rightarrow> access_context \<Rightarrow> string \<Rightarrow> string \<Rightarrow> string \<Rightarrow> app_user \<Rightarrow> odb \<times> (share_refusal + share_note list)" where
  "unshare_user db ctx actor brainId visibility user =
     (let db1 = cancelBrainInvites db brainId (u_email user) in
      if u_id user = actor \<and> \<not> stewardsBrain (ac_org_role ctx) then (db1, Inl OwnAccess)
      else if getBrainGrant db1 brainId (u_id user) = None
      then (db1, Inr [if visibility = ''private'' then Was_not_shared (u_email user)
                      else No_direct_share (u_email user)])
      else (removeBrainGrant db1 brainId (u_id user),
            Inr [if visibility = ''private'' then Unshared (u_email user)
                 else Unshared_but_visible (u_email user)]))"

definition share_user ::
  "odb \<Rightarrow> nat \<Rightarrow> role \<Rightarrow> string \<Rightarrow> string \<Rightarrow> string \<Rightarrow> bool \<Rightarrow> app_user \<Rightarrow> string option
     \<Rightarrow> odb \<times> (share_refusal + share_note list)" where
  "share_user db now authority actor brainId visibility guest user access =
     (let target = share_target access in
      if \<not> roleAtLeast authority target then (db, Inl (GrantsTooMuch authority))
      else case (if guest then guestRefusal authority target else None) of
        Some e \<Rightarrow> (db, Inl e)
      | None \<Rightarrow>
          (let existing = getBrainGrant db brainId (u_id user) in
           case setBrainGrant db now brainId (u_id user) target (Some actor) of
             Inl e \<Rightarrow> (db, Inl (ShareRefused_by_db e))
           | Inr db' \<Rightarrow>
               (db', Inr ((if existing \<noteq> None then Now_on_brain (u_email user) guest target
                           else Shared_with (u_email user) guest target)
                          # (if guest \<and> existing = None then [Sign_in_hint] else [])
                          @ (if u_id user = actor \<and> visibility = ''private'' then [Self_share_visible] else [])))))"

definition share_with_email ::
  "odb \<Rightarrow> nat \<Rightarrow> access_context \<Rightarrow> role \<Rightarrow> string \<Rightarrow> string \<Rightarrow> string \<Rightarrow> brain_head \<Rightarrow> string
     \<Rightarrow> string option \<Rightarrow> odb \<times> (share_refusal + share_note list)" where
  "share_with_email db now ctx authority uuid orgId actor row email access =
     (case row of (brainId, visibility, _) \<Rightarrow>
        (let emailTrim = trim email in
         if \<not> contains emailTrim ''@'' then (db, Inl (NotAnEmail emailTrim))
         else case getAppUserByEmail db emailTrim of
           None \<Rightarrow> share_stranger db now authority uuid orgId actor brainId emailTrim access
         | Some user \<Rightarrow>
             if access = Some ''none'' then unshare_user db ctx actor brainId visibility user
             else share_user db now authority actor brainId visibility
                    (getMemberRole db orgId (u_id user) = None) user access))"

definition flip_visibility ::
  "odb \<Rightarrow> brain_head \<Rightarrow> string option \<Rightarrow> odb \<times> brain_head \<times> share_note list" where
  "flip_visibility db row visibility =
     (case row of (brainId, old, orgId) \<Rightarrow>
        (case nonempty visibility of
           None \<Rightarrow> (db, row, [])
         | Some v \<Rightarrow>
             if v \<noteq> old
             then (setBrainVisibility db brainId v, (brainId, v, orgId),
                   [if v = ''org'' then Opened_to_org else Made_private])
             else (db, row, [if v = ''org'' then Was_org_wide else Was_private])))"

definition share_brain ::
  "odb \<Rightarrow> nat \<Rightarrow> access_context \<Rightarrow> string \<Rightarrow> string option \<Rightarrow> string option \<Rightarrow> string option
     \<Rightarrow> odb \<times> (share_refusal + share_note list \<times> access_payload)" where
  "share_brain db now ctx uuid email access visibility =
     (if \<not> share_arguments_ok access visibility then (db, Inl BadShareArguments)
      else case sharingAuthority (ac_role ctx) (ac_org_role ctx) of
        None \<Rightarrow> (db, Inl (NeedsSharingAdmin (ac_role ctx)))
      | Some authority \<Rightarrow>
          if \<not> roleAtLeast authority Admin then (db, Inl (NeedsSharingAdmin (ac_role ctx)))
          else case resolveBrainRow db ctx of
            None \<Rightarrow> (db, Inl OrganizationsOnly)
          | Some row \<Rightarrow>
              (case (nonempty (ac_org ctx), nonempty (ac_actor ctx)) of
                 (Some orgId, Some actor) \<Rightarrow>
                   if nonempty email = None \<and> nonempty visibility = None then (db, Inl NothingToChange)
                   else
                     (case flip_visibility db row visibility of (db1, row1, notes) \<Rightarrow>
                        (case nonempty email of
                           None \<Rightarrow> (db1, Inr (notes, accessPayload db1 now ctx row1))
                         | Some e \<Rightarrow>
                             (case share_with_email db1 now ctx authority uuid orgId actor row1 e access of
                                (db2, Inl er) \<Rightarrow> (db2, Inl er)
                              | (db2, Inr added) \<Rightarrow> (db2, Inr (notes @ added, accessPayload db2 now ctx row1)))))
               | _ \<Rightarrow> (db, Inl OrganizationsOnly)))"

section \<open>What a call can change\<close>

lemma find_key_append:
  "find P (xs @ [y]) = (case find P xs of None \<Rightarrow> if P y then Some y else None | Some x \<Rightarrow> Some x)"
  by (induction xs) auto

lemma getBrainGrant_setBrainGrant:
  assumes "setBrainGrant db now b u r by = Inr db'"
  shows "getBrainGrant db' k v = (if k = b \<and> v = u then Some r else getBrainGrant db k v)"
proof (cases "\<exists>g \<in> set (t_grants db). g_brain g = b \<and> g_user g = u")
  case True
  from True assms have gs: "t_grants db' = row_update (\<lambda>g. g_brain g = b \<and> g_user g = u)
      (\<lambda>g. g\<lparr>g_role := r, g_by := by, g_at := now\<rparr>) (t_grants db)"
    by (auto simp: setBrainGrant_def)
  moreover have "find (\<lambda>g. g_brain g = b \<and> g_user g = u) (t_grants db) \<noteq> None"
    using True unfolding find_None_iff by blast
  then obtain g where g: "find (\<lambda>g. g_brain g = b \<and> g_user g = u) (t_grants db) = Some g" by blast
  moreover from find_sound [OF this] have "g_brain g = b \<and> g_user g = u" by blast
  ultimately show ?thesis
  proof (cases "find (\<lambda>g. g_brain g = k \<and> g_user g = v) (t_grants db)")
    case (Some x)
    from find_sound [OF this] have "g_brain x = k \<and> g_user x = v" by blast
    with Some gs g show ?thesis by (auto simp: getBrainGrant_def find_row_update)
  next
    case None
    with gs g show ?thesis by (auto simp: getBrainGrant_def find_row_update)
  qed
next
  case False
  then have gs: "t_grants db' = t_grants db @ [\<lparr>g_brain = b, g_user = u, g_role = r, g_by = by, g_at = now\<rparr>]"
    using assms by (auto simp: setBrainGrant_def split: if_splits)
  have "find (\<lambda>g. g_brain g = b \<and> g_user g = u) (t_grants db) = None"
    using False by (simp add: find_None_iff)
  then show ?thesis unfolding getBrainGrant_def gs find_key_append by (auto split: option.splits)
qed

lemma getBrainGrant_removeBrainGrant:
  "getBrainGrant (removeBrainGrant db b u) k v = (if k = b \<and> v = u then None else getBrainGrant db k v)"
proof -
  have "find (\<lambda>g. g_brain g = k \<and> g_user g = v) (row_delete (\<lambda>g. g_brain g = b \<and> g_user g = u) gs) =
     (if k = b \<and> v = u then None else find (\<lambda>g. g_brain g = k \<and> g_user g = v) gs)" for gs
    by (induction gs) (auto simp: row_delete_def)
  from this [of "t_grants db"] show ?thesis by (simp add: getBrainGrant_def removeBrainGrant_def)
qed

lemma getBrainGrant_same: "t_grants db' = t_grants db \<Longrightarrow> getBrainGrant db' k u = getBrainGrant db k u"
  by (simp add: getBrainGrant_def)

text \<open>The brains up to the visibility of one, and the invitations up to the open ones of one address to one brain.\<close>

definition same_but_brain :: "string \<Rightarrow> brain_row list \<Rightarrow> brain_row list \<Rightarrow> bool" where
  "same_but_brain b bs bs' \<longleftrightarrow>
     filter (\<lambda>x. b_id x \<noteq> b) bs' = filter (\<lambda>x. b_id x \<noteq> b) bs
     \<and> map (\<lambda>x. x\<lparr>b_visibility := []\<rparr>) bs' = map (\<lambda>x. x\<lparr>b_visibility := []\<rparr>) bs"

definition open_invite_to :: "string \<Rightarrow> string \<Rightarrow> invite_row \<Rightarrow> bool" where
  "open_invite_to b e i \<longleftrightarrow> i_brain i = Some b \<and> sql_lower (i_email i) = sql_lower e \<and> i_accepted i = None"

definition addressed :: "odb \<Rightarrow> string \<Rightarrow> string \<Rightarrow> bool" where
  "addressed db e u \<longleftrightarrow> (\<exists>x \<in> set (t_users db). u_id x = u \<and> sql_lower (u_email x) = sql_lower e)"

definition allowed_grant :: "odb \<Rightarrow> role \<Rightarrow> string \<Rightarrow> string \<Rightarrow> role option \<Rightarrow> bool" where
  "allowed_grant db authority orgId u new \<longleftrightarrow>
     (\<forall>r. new = Some r \<longrightarrow> r \<le> authority \<and> (getMemberRole db orgId u = None \<longrightarrow> r \<le> Editor))"

definition share_effect :: "role \<Rightarrow> string \<Rightarrow> string \<Rightarrow> string \<Rightarrow> odb \<Rightarrow> odb \<Rightarrow> bool" where
  "share_effect authority orgId b e db db' \<longleftrightarrow>
     t_users db' = t_users db \<and> t_orgs db' = t_orgs db \<and> t_members db' = t_members db
     \<and> t_conns db' = t_conns db \<and> t_residue db' = t_residue db
     \<and> same_but_brain b (t_brains db) (t_brains db')
     \<and> (\<forall>k u. getBrainGrant db' k u = getBrainGrant db k u
              \<or> k = b \<and> addressed db e u \<and> allowed_grant db authority orgId u (getBrainGrant db' k u))
     \<and> filter (\<lambda>i. \<not> open_invite_to b e i) (t_invites db') = filter (\<lambda>i. \<not> open_invite_to b e i) (t_invites db)
     \<and> (\<forall>i \<in> set (t_invites db'). i \<in> set (t_invites db)
              \<or> i_org i = orgId \<and> open_invite_to b e i \<and> i_role i \<le> Editor)"

lemma share_effect_refl [simp]: "share_effect a k b e db db"
  by (simp add: share_effect_def same_but_brain_def)

lemma share_effect_trans:
  assumes "share_effect a k b e db1 db2" "share_effect a k b e db2 db3"
  shows "share_effect a k b e db1 db3"
proof -
  have "getMemberRole db2 = getMemberRole db1"
    using assms(1) by (intro ext) (simp add: share_effect_def getMemberRole_def)
  then have "allowed_grant db2 = allowed_grant db1"
    by (intro ext) (simp add: allowed_grant_def)
  moreover have "addressed db2 = addressed db1"
    using assms(1) by (intro ext) (simp add: share_effect_def addressed_def)
  ultimately show ?thesis using assms
    unfolding share_effect_def same_but_brain_def by metis
qed

lemma setBrainVisibility_effect: "share_effect a k b e db (setBrainVisibility db b v)"
proof -
  have "same_but_brain b bs (row_update (\<lambda>x. b_id x = b) (\<lambda>x. x\<lparr>b_visibility := v\<rparr>) bs)" for bs
    by (induction bs) (simp_all add: same_but_brain_def row_update_def)
  then show ?thesis
    by (simp add: share_effect_def setBrainVisibility_def getBrainGrant_def)
qed

lemma cancelBrainInvites_effect:
  assumes "sql_lower e' = sql_lower e"
  shows "share_effect a k b e db (cancelBrainInvites db b e')"
proof -
  have "filter (\<lambda>i. \<not> open_invite_to b e i) (filter (\<lambda>i. \<not> (i_brain i = Some b \<and> sql_lower (i_email i) = sql_lower e \<and> i_accepted i = None)) is)
      = filter (\<lambda>i. \<not> open_invite_to b e i) is" for "is"
    by (induction "is") (auto simp: open_invite_to_def)
  then show ?thesis
    by (simp add: share_effect_def cancelBrainInvites_def getBrainGrant_def same_but_brain_def row_delete_def assms)
qed

lemma removeBrainGrant_effect: "addressed db e u \<Longrightarrow> share_effect a k b e db (removeBrainGrant db b u)"
  by (auto simp: share_effect_def getBrainGrant_removeBrainGrant allowed_grant_def same_but_brain_def)
     (simp_all add: removeBrainGrant_def)

lemma setBrainGrant_effect:
  assumes "setBrainGrant db now b u r by = Inr db'" "allowed_grant db a k u (Some r)" "addressed db e u"
  shows "share_effect a k b e db db'"
proof -
  have "t_users db' = t_users db \<and> t_orgs db' = t_orgs db \<and> t_members db' = t_members db
     \<and> t_conns db' = t_conns db \<and> t_residue db' = t_residue db \<and> t_brains db' = t_brains db \<and> t_invites db' = t_invites db"
    using assms(1) by (auto simp: setBrainGrant_def split: if_splits)
  then show ?thesis
    using assms(2,3) by (simp add: share_effect_def same_but_brain_def getBrainGrant_setBrainGrant [OF assms(1)])
qed

lemma createInvitation_effect:
  assumes "createInvitation db now i k e r by (Some b) = Inr db'" "r \<le> Editor"
  shows "share_effect a k b e db db'"
  using assms
  by (auto simp: createInvitation_def share_effect_def same_but_brain_def getBrainGrant_def open_invite_to_def split: if_splits)

lemma guestRefusal_None: "guestRefusal a t = None \<Longrightarrow> t \<le> a \<and> t \<le> Editor"
  by (cases t) (auto simp: guestRefusal_def split: if_splits)

lemma flip_visibility_effect:
  assumes "flip_visibility db (b, v, k') vis = (db', row', notes)"
  shows "share_effect a k b e db db' \<and> fst row' = b"
  using assms setBrainVisibility_effect
  by (auto simp: flip_visibility_def split: option.splits if_splits)

lemma share_stranger_effect: "share_effect a k b e db (fst (share_stranger db now a uuid k actor b e access))"
proof -
  let ?db1 = "if getPendingBrainInvite db now b e \<noteq> None then cancelBrainInvites db b e else db"
  have one: "share_effect a k b e db ?db1" by (simp add: cancelBrainInvites_effect)
  have two: "share_effect a k b e db db2"
    if "guestRefusal a t = None" "createInvitation ?db1 now uuid k e t actor (Some b) = Inr db2" for t db2
    using share_effect_trans [OF one createInvitation_effect [OF that(2)]] guestRefusal_None [OF that(1)] by blast
  show ?thesis
    unfolding share_stranger_def Let_def
    using one two by (auto simp: cancelBrainInvites_effect split: option.splits sum.splits)
qed

lemma found_by_email: "getAppUserByEmail db e = Some x \<Longrightarrow> addressed db e (u_id x) \<and> sql_lower (u_email x) = sql_lower e"
  by (auto simp: getAppUserByEmail_def addressed_def find_Some_iff)

lemma unshare_user_effect:
  assumes "getAppUserByEmail db e = Some user"
  shows "share_effect a k b e db (fst (unshare_user db ctx actor b v user))"
proof -
  let ?db1 = "cancelBrainInvites db b (u_email user)"
  have one: "share_effect a k b e db ?db1" using found_by_email [OF assms] by (simp add: cancelBrainInvites_effect)
  have "addressed ?db1 e (u_id user)"
    using found_by_email [OF assms] by (simp add: addressed_def cancelBrainInvites_def)
  then have "share_effect a k b e db (removeBrainGrant ?db1 b (u_id user))"
    using share_effect_trans [OF one removeBrainGrant_effect] by blast
  with one show ?thesis by (simp add: unshare_user_def Let_def)
qed

lemma share_user_effect:
  assumes "getAppUserByEmail db e = Some user"
  shows "share_effect a k b e db (fst (share_user db now a actor b v (getMemberRole db k (u_id user) = None) user access))"
proof -
  let ?t = "share_target access"
  show ?thesis
  proof (cases "?t \<le> a \<and> (if getMemberRole db k (u_id user) = None then guestRefusal a ?t else None) = None")
    case True
    then have ok: "allowed_grant db a k (u_id user) (Some ?t)"
      by (auto simp: allowed_grant_def dest: guestRefusal_None split: if_splits)
    show ?thesis
    proof (cases "setBrainGrant db now b (u_id user) ?t (Some actor)")
      case (Inl e)
      with True show ?thesis by (simp add: share_user_def Let_def)
    next
      case (Inr db')
      with True setBrainGrant_effect [OF Inr ok] found_by_email [OF assms] show ?thesis by (simp add: share_user_def Let_def)
    qed
  next
    case False
    then show ?thesis by (auto simp: share_user_def Let_def split: option.splits)
  qed
qed

lemma share_with_email_effect:
  "share_effect a k b (trim e) db (fst (share_with_email db now ctx a uuid k actor (b, v, k') e access))"
  by (auto simp: share_with_email_def Let_def share_stranger_effect intro: unshare_user_effect share_user_effect
      split: option.splits)

text \<open>
  C5.  What \<open>share_brain\<close> can do, whatever its arguments and whether it succeeds, refuses half way or fails
  on a statement: users, organizations, memberships, connections and leftovers stay as they are; of the
  brains only the visibility of the one the call resolved to can change; a grant that changed is on that
  brain, of the account with the address named, never above the caller's sharing authority and at most an
  editor's for someone who is not a member of the organization; of the invitations only the open ones of
  that address to that brain can go, and a new one is an open one of that address to that brain, of the
  caller's organization and at most an editor's.
  Without an admin's sharing authority the call changes nothing at all.
\<close>

theorem share_brain_confined:
  "(case sharingAuthority (ac_role ctx) (ac_org_role ctx) of
      Some authority \<Rightarrow>
        (if Admin \<le> authority
         then share_effect authority (case ac_org ctx of Some k \<Rightarrow> k | None \<Rightarrow> []) (ac_brain ctx)
                (case nonempty email of Some e \<Rightarrow> trim e | None \<Rightarrow> []) db
                (fst (share_brain db now ctx uuid email access visibility))
         else fst (share_brain db now ctx uuid email access visibility) = db)
    | None \<Rightarrow> fst (share_brain db now ctx uuid email access visibility) = db)"
proof (cases "sharingAuthority (ac_role ctx) (ac_org_role ctx)")
  case None
  then show ?thesis by (simp add: share_brain_def)
next
  case (Some a)
  note auth = Some
  show ?thesis
  proof (cases "Admin \<le> a \<and> share_arguments_ok access visibility")
    case False
    with Some show ?thesis by (auto simp: share_brain_def)
  next
    case True
    show ?thesis
    proof (cases "\<exists>row k actor. resolveBrainRow db ctx = Some row \<and> nonempty (ac_org ctx) = Some k
             \<and> nonempty (ac_actor ctx) = Some actor \<and> \<not> (nonempty email = None \<and> nonempty visibility = None)")
      case False
      with True Some have "fst (share_brain db now ctx uuid email access visibility) = db"
        by (auto simp: share_brain_def split: option.splits)
      with True Some show ?thesis by simp
    next
      case t: True
      then obtain row k actor where row: "resolveBrainRow db ctx = Some row" and k: "nonempty (ac_org ctx) = Some k"
        and actor: "nonempty (ac_actor ctx) = Some actor"
        and some: "\<not> (nonempty email = None \<and> nonempty visibility = None)" by blast
      obtain b v k' where r: "row = (b, v, k')" by (cases row)
      have b: "b = ac_brain ctx" using row r by (auto simp: resolveBrainRow_def find_Some_iff)
      have org: "ac_org ctx = Some k" using k by (auto simp: nonempty_def split: option.splits if_splits)
      obtain db1 row1 nts where flip: "flip_visibility db row visibility = (db1, row1, nts)"
        by (cases "flip_visibility db row visibility")
      let ?e = "case nonempty email of Some e \<Rightarrow> trim e | None \<Rightarrow> []"
      from flip_visibility_effect [of db b v k' visibility db1 row1 nts a k ?e] flip r
      have e1: "share_effect a k b ?e db db1" and "fst row1 = b" by auto
      then obtain v1 k1 where row1: "row1 = (b, v1, k1)" by (cases row1) auto
      have run: "fst (share_brain db now ctx uuid email access visibility) =
          (case nonempty email of None \<Rightarrow> db1
           | Some e \<Rightarrow> fst (share_with_email db1 now ctx a uuid k actor row1 e access))"
        using True Some row k actor if_not_P [OF some] flip
        by (auto simp: share_brain_def simp del: not_None_eq split: option.splits prod.splits sum.splits)
      have "share_effect a k b ?e db (fst (share_brain db now ctx uuid email access visibility))"
      proof (cases "nonempty email")
        case None
        with run e1 show ?thesis by simp
      next
        case (Some e)
        then have e2: "share_effect a k b (trim e) db db1" using e1 by simp
        with run share_effect_trans [OF e2 share_with_email_effect] row1 Some show ?thesis by simp
      qed
      with True auth org b show ?thesis by simp
    qed
  qed
qed

section \<open>Revoking\<close>

lemma share_brain_email_run:
  assumes run: "share_brain db now ctx uuid email access visibility = (db', Inr (ns, pl))"
    and e: "nonempty email = Some e"
  obtains authority k actor v k' db1 v1 nts more where
    "resolveBrainRow db ctx = Some (ac_brain ctx, v, k')"
    "flip_visibility db (ac_brain ctx, v, k') visibility = (db1, (ac_brain ctx, v1, k'), nts)"
    "share_with_email db1 now ctx authority uuid k actor (ac_brain ctx, v1, k') e access = (db', Inr more)"
    "pl_visibility pl = v1"
proof -
  from run obtain authority where a: "sharingAuthority (ac_role ctx) (ac_org_role ctx) = Some authority"
    "Admin \<le> authority" and args: "share_arguments_ok access visibility"
    by (auto simp: share_brain_def split: if_splits option.splits)
  from run a args obtain row where row: "resolveBrainRow db ctx = Some row"
    by (auto simp: share_brain_def split: option.splits)
  from run a args row obtain k where k: "nonempty (ac_org ctx) = Some k"
    by (auto simp: share_brain_def split: option.splits)
  from run a args row k obtain actor where actor: "nonempty (ac_actor ctx) = Some actor"
    by (auto simp: share_brain_def split: option.splits)
  obtain v k' where r: "row = (ac_brain ctx, v, k')"
    using row by (cases row) (auto simp: resolveBrainRow_def dest!: find_sound)
  obtain db1 row1 nts where flip: "flip_visibility db row visibility = (db1, row1, nts)"
    by (cases "flip_visibility db row visibility")
  then obtain v1 where row1: "row1 = (ac_brain ctx, v1, k')"
    by (auto simp: flip_visibility_def r split: option.splits if_splits)
  have "share_brain db now ctx uuid email access visibility =
      (case share_with_email db1 now ctx authority uuid k actor row1 e access of
         (db2, Inl er) \<Rightarrow> (db2, Inl er)
       | (db2, Inr added) \<Rightarrow> (db2, Inr (nts @ added, accessPayload db2 now ctx row1)))"
    using a args row k actor flip e by (simp add: share_brain_def)
  with run obtain more where "share_with_email db1 now ctx authority uuid k actor row1 e access = (db', Inr more)"
    "pl = accessPayload db' now ctx row1"
    by (auto split: prod.splits sum.splits)
  with that [of v k' db1 v1 nts authority k actor more] row r row1 flip show thesis
    by (simp add: accessPayload_def)
qed

lemma flip_visibility_private:
  assumes d: "distinct (map b_id (t_brains db))" and row: "resolveBrainRow db ctx = Some (ac_brain ctx, v, k')"
    and flip: "flip_visibility db (ac_brain ctx, v, k') visibility = (db1, (ac_brain ctx, ''private'', k'), nts)"
  shows "\<forall>x \<in> set (t_brains db1). b_id x = ac_brain ctx \<longrightarrow> b_visibility x = ''private''"
    and "t_users db1 = t_users db"
proof -
  from row obtain x where x: "find (\<lambda>b. b_id b = ac_brain ctx) (t_brains db) = Some x" "b_visibility x = v"
    by (auto simp: resolveBrainRow_def)
  from find_sound [OF x(1)] have m: "x \<in> set (t_brains db)" "b_id x = ac_brain ctx" by blast+
  have only: "y = x" if "y \<in> set (t_brains db)" "b_id y = ac_brain ctx" for y
    using d m that by (metis distinct_map inj_onD)
  have cases: "db1 = setBrainVisibility db (ac_brain ctx) ''private'' \<or> db1 = db \<and> v = ''private''"
    using flip by (auto simp: flip_visibility_def split: option.splits if_splits)
  then show "\<forall>x \<in> set (t_brains db1). b_id x = ac_brain ctx \<longrightarrow> b_visibility x = ''private''"
  proof
    assume "db1 = setBrainVisibility db (ac_brain ctx) ''private''"
    then show ?thesis by (auto simp: setBrainVisibility_def row_update_def)
  next
    assume same: "db1 = db \<and> v = ''private''"
    show ?thesis using same only x(2) by blast
  qed
  from cases show "t_users db1 = t_users db" by (auto simp: setBrainVisibility_def)
qed

lemma unshare_user_run:
  assumes run: "unshare_user db ctx actor b v user = (db', Inr nts)"
  shows "getBrainGrant db' b (u_id user) = None" "t_brains db' = t_brains db" "t_users db' = t_users db"
    "t_invites db' = t_invites (cancelBrainInvites db b (u_email user))"
proof -
  let ?db1 = "cancelBrainInvites db b (u_email user)"
  from run consider "db' = ?db1" "getBrainGrant ?db1 b (u_id user) = None" | "db' = removeBrainGrant ?db1 b (u_id user)"
    by (auto simp: unshare_user_def Let_def split: if_splits)
  then have "getBrainGrant db' b (u_id user) = None \<and> t_brains db' = t_brains db \<and> t_users db' = t_users db
    \<and> t_invites db' = t_invites ?db1"
  proof cases
    case 1
    then show ?thesis by (simp add: cancelBrainInvites_def)
  next
    case 2
    have "getBrainGrant db' b (u_id user) = None" by (simp add: 2 getBrainGrant_removeBrainGrant)
    moreover have "t_brains db' = t_brains db" "t_users db' = t_users db" "t_invites db' = t_invites ?db1"
      by (simp_all add: 2 removeBrainGrant_def cancelBrainInvites_def)
    ultimately show ?thesis by blast
  qed
  then show "getBrainGrant db' b (u_id user) = None" "t_brains db' = t_brains db" "t_users db' = t_users db"
    "t_invites db' = t_invites ?db1" by blast+
qed

lemma private_without_grant:
  assumes priv: "\<forall>x \<in> set (t_brains db). b_id x = k \<longrightarrow> is_private (b_visibility x)"
    and g: "\<forall>u \<in> set ids. getBrainGrant db k u = None"
  shows "k \<notin> ab_brain_id ` set (queryAccessibleBrains db ids)"
proof
  assume "k \<in> ab_brain_id ` set (queryAccessibleBrains db ids)"
  then obtain b where b: "b \<in> set (queryAccessibleBrains db ids)" "ab_brain_id b = k" by auto
  from accessible_row [OF b(1)] obtain r where r: "r \<in> set (queryBrainRows db ids)"
    "b_id (r_brain r) = k" "row_role r = Some (ab_role b)" using b(2) by metis
  from row_closed [OF r(1,2) priv g] r(3) show False by simp
qed

lemma no_brain_invite_left:
  assumes d: "distinct (map u_id (t_users db))" and u: "u \<in> set (t_users db)"
    and inv: "t_invites db = t_invites (cancelBrainInvites db0 b (u_email u))"
  shows "\<forall>v \<in> set (findPendingInvites db now [u_id u]). mi_brain v \<noteq> Some b"
proof (intro ballI notI)
  fix v assume v: "v \<in> set (findPendingInvites db now [u_id u])" and b: "mi_brain v = Some b"
  from v obtain i y where i: "i \<in> set (t_invites db)" "pending now i" "y \<in> set (t_users db)" "u_id y = u_id u"
    "sql_lower (u_email y) = sql_lower (i_email i)" "mi_brain v = i_brain i"
    by (auto simp: findPendingInvites_def split: if_splits) blast
  from d u i(3,4) have "y = u" by (metis distinct_map inj_onD)
  with i b show False by (auto simp: inv cancelBrainInvites_def row_delete_def pending_def)
qed

text \<open>
  C8.  A revocation on a private brain is final: when \<open>share_brain\<close> with \<open>access: 'none'\<close> answers
  for an account and the brain is private, that account no longer reaches the brain by any
  leg of the query, and no pending invitation is left that would grant it back at its next
  sign-in.
\<close>

theorem share_brain_revokes:
  assumes users: "distinct (map u_id (t_users db))" and brains: "distinct (map b_id (t_brains db))"
    and run: "share_brain db now ctx uuid (Some email) (Some ''none'') visibility = (db', Inr (ns, pl))"
    and account: "getAppUserByEmail db (trim email) = Some u" and email: "email \<noteq> []"
    and closed: "pl_visibility pl = ''private''"
  shows "ac_brain ctx \<notin> ab_brain_id ` set (queryAccessibleBrains db' [u_id u])
    \<and> (\<forall>v \<in> set (findPendingInvites db' now [u_id u]). mi_brain v \<noteq> Some (ac_brain ctx))"
proof -
  have ne: "nonempty (Some email) = Some email" using email by (simp add: nonempty_def)
  obtain authority k actor v k' db1 nts more where
    row: "resolveBrainRow db ctx = Some (ac_brain ctx, v, k')"
    and flip: "flip_visibility db (ac_brain ctx, v, k') visibility = (db1, (ac_brain ctx, ''private'', k'), nts)"
    and go: "share_with_email db1 now ctx authority uuid k actor (ac_brain ctx, ''private'', k') email (Some ''none'')
               = (db', Inr more)"
    using share_brain_email_run [OF run ne] closed by metis
  note pr = flip_visibility_private [OF brains row flip]
  have acc1: "getAppUserByEmail db1 (trim email) = Some u" using account pr(2) by (simp add: getAppUserByEmail_def)
  have u: "u \<in> set (t_users db)" using account by (auto simp: getAppUserByEmail_def dest: find_sound)
  from go acc1 have un: "unshare_user db1 ctx actor (ac_brain ctx) ''private'' u = (db', Inr more)"
    by (auto simp: share_with_email_def Let_def split: if_splits)
  note un_facts = unshare_user_run [OF un]
  have "ac_brain ctx \<notin> ab_brain_id ` set (queryAccessibleBrains db' [u_id u])"
    using pr(1) un_facts(1,2) by (intro private_without_grant) (simp_all)
  moreover have "\<forall>v \<in> set (findPendingInvites db' now [u_id u]). mi_brain v \<noteq> Some (ac_brain ctx)"
    using users u un_facts(3,4) pr(2) by (intro no_brain_invite_left) simp_all
  ultimately show ?thesis by blast
qed

definition owner_access :: access_context where
  "owner_access = \<lparr>ac_brain = ''closed'', ac_label = ''Closed'', ac_role = None, ac_org_role = Some Owner,
     ac_org = Some ''acme'', ac_actor = Some ''own''\<rparr>"

lemmas share_eval =
  owner_access_def share_brain_def share_arguments_ok_def sharingAuthority_def stewardsBrain_def
  resolveBrainRow_def flip_visibility_def share_with_email_def unshare_user_def removeBrainGrant_def
  cancelBrainInvites_def getBrainGrant_def getAppUserByEmail_def accessPayload_def nonempty_def
  trim_def trim_start_def trim_end_def is_space_def drop_trailing_def sql_lower_def is_upper_def
  row_delete_def contains_def Let_def sample_defs

theorem share_brain_revokes_witness:
  "''closed'' \<in> ab_brain_id ` set (queryAccessibleBrains sample_db [''ed''])
   \<and> ''closed'' \<notin> ab_brain_id ` set (queryAccessibleBrains
        (fst (share_brain sample_db 5 owner_access ''i9'' (Some ''ed@a'') (Some ''none'') None)) [''ed''])"
proof
  show "''closed'' \<in> ab_brain_id ` set (queryAccessibleBrains sample_db [''ed''])"
    by code_simp
  have run: "\<exists>ns pl. share_brain sample_db 5 owner_access ''i9'' (Some ''ed@a'') (Some ''none'') None =
      (fst (share_brain sample_db 5 owner_access ''i9'' (Some ''ed@a'') (Some ''none'') None), Inr (ns, pl))
      \<and> pl_visibility pl = ''private''"
    by (simp add: share_eval)
  then obtain ns pl where r: "share_brain sample_db 5 owner_access ''i9'' (Some ''ed@a'') (Some ''none'') None =
      (fst (share_brain sample_db 5 owner_access ''i9'' (Some ''ed@a'') (Some ''none'') None), Inr (ns, pl))"
    "pl_visibility pl = ''private''" by blast
  have ed: "getAppUserByEmail sample_db (trim ''ed@a'') = Some (sample_user ''ed'' ''ed@a'')"
    by (simp add: share_eval)
  have "ac_brain owner_access \<notin> ab_brain_id ` set (queryAccessibleBrains
      (fst (share_brain sample_db 5 owner_access ''i9'' (Some ''ed@a'') (Some ''none'') None))
      [u_id (sample_user ''ed'' ''ed@a'')])"
    using share_brain_revokes [OF _ _ r(1) ed _ r(2)] by (simp add: sample_defs)
  then show "''closed'' \<notin> ab_brain_id ` set (queryAccessibleBrains
        (fst (share_brain sample_db 5 owner_access ''i9'' (Some ''ed@a'') (Some ''none'') None)) [''ed''])"
    by (simp add: owner_access_def sample_user_def)
qed

end
