(* ===== verification/Session.thy ===== *)
theory Session
  imports OrgOnboard BrainAccess
begin

text \<open>
  One request (the class \<open>McpSession\<close> of \<open>src/worker.ts\<close>): who calls, which brain or which
  organization the call acts on, and at what role.  A session is the platform database, the store of
  active-brain pointers and what the class remembers during the request; a method takes a session
  and returns the session it leaves beside its answer, so that what was written before an error stays
  written.  The GitHub client and a brain's configuration are built from the credential and the
  repository a method answers, outside the model.
\<close>

section \<open>State\<close>

text \<open>
  The environment of a request.  \<open>en_static\<close> is what \<open>staticAuth\<close> answers, \<open>en_draw k\<close> the
  handles drawn in the \<open>k\<close>-th listing, and \<open>en_kv\<close> whether the pointer store answers.
\<close>

record session_env = org_env +
  en_mode :: string
  en_user :: "string option"
  en_email :: "string option"
  en_static :: "(string \<times> string \<times> int option) option"
  en_token :: "string option"
  en_draw :: "nat \<Rightarrow> nat \<Rightarrow> nat \<Rightarrow> string"
  en_uuid :: string
  en_now :: nat
  en_kv :: bool

datatype session_error =
    NoIdentity
  | ProductAccountsOnly
  | NoBrain
  | SuspendedOrg string
  | ClosedBrain string string
  | Unchosen choose_error
  | RoleGate role_error
  | Unprovisioned provision_problem
  | PlatformProblem platform_problem
  | OrgStorage storage_error
  | NoToken
  | StaticMisconfigured
  | DbFailed sql_error

record session =
  s_db :: odb
  s_kv :: "string \<Rightarrow> string option"
  s_active :: "string option"
  s_claimed :: bool
  s_caller :: "(session_error + string) option"
  s_lists :: nat
  s_scope :: "(string \<times> string) option"

type_synonym 'a act = "session \<Rightarrow> session \<times> (session_error + 'a)"

definition act_then :: "'a act \<Rightarrow> ('a \<Rightarrow> 'b act) \<Rightarrow> 'b act" where
  "act_then m k s = (case m s of (s1, Inl e) \<Rightarrow> (s1, Inl e) | (s1, Inr x) \<Rightarrow> k x s1)"

definition act_of :: "session_error + 'a \<Rightarrow> 'a act" where
  "act_of r s = (s, r)"

definition lift_db :: "('e \<Rightarrow> session_error) \<Rightarrow> (odb \<Rightarrow> odb \<times> ('e + 'a)) \<Rightarrow> 'a act" where
  "lift_db f run s =
     (case run (s_db s) of
        (db, Inl e) \<Rightarrow> (s\<lparr>s_db := db\<rparr>, Inl (f e))
      | (db, Inr x) \<Rightarrow> (s\<lparr>s_db := db\<rparr>, Inr x))"

text \<open>\<open>buildServer\<close> starts from what the previous request left: the rows and the pointers.\<close>

definition open_session :: "odb \<Rightarrow> (string \<Rightarrow> string option) \<Rightarrow> session" where
  "open_session db kv =
     \<lparr>s_db = db, s_kv = kv, s_active = None, s_claimed = False, s_caller = None, s_lists = 0, s_scope = None\<rparr>"

section \<open>The caller\<close>

definition userKey :: "session_env \<Rightarrow> string" where
  "userKey env =
     (case en_user env of
        Some u \<Rightarrow> u
      | None \<Rightarrow> if en_mode env = ''static'' then STATIC_USER_ID else ''anon'')"

definition loadActiveBrain :: "session_env \<Rightarrow> session \<Rightarrow> session" where
  "loadActiveBrain env s =
     s\<lparr>s_active := (if en_kv env then s_kv s (''active_brain:'' @ userKey env) else None)\<rparr>"

definition setActiveBrain :: "session_env \<Rightarrow> string \<Rightarrow> session \<Rightarrow> session" where
  "setActiveBrain env i s =
     s\<lparr>s_active := Some i,
       s_kv := (if en_kv env then (s_kv s)(''active_brain:'' @ userKey env := Some i) else s_kv s)\<rparr>"

definition static_caller :: "session_env \<Rightarrow> string act" where
  "static_caller env s =
     (case en_static env of
        None \<Rightarrow> (s, Inl StaticMisconfigured)
      | Some (owner, repo, credential) \<Rightarrow>
          (case ensureStaticTenant (s_db s) (en_now env) owner repo credential of
             Inl e \<Rightarrow> (s, Inl (DbFailed e))
           | Inr db \<Rightarrow> (s\<lparr>s_db := db\<rparr>, Inr STATIC_USER_ID)))"

text \<open>In static mode the operator's rows are written on first use, once for a request.\<close>

definition callerUserId :: "session_env \<Rightarrow> string option act" where
  "callerUserId env s =
     (if en_mode env \<noteq> ''static'' then (s, Inr (en_user env))
      else case s_caller s of
        Some r \<Rightarrow> (s, map_sum id Some r)
      | None \<Rightarrow> (case static_caller env s of (s1, r) \<Rightarrow> (s1\<lparr>s_caller := Some r\<rparr>, map_sum id Some r)))"

definition signed_in :: "session_env \<Rightarrow> string act" where
  "signed_in env =
     act_then (callerUserId env)
       (\<lambda>u. act_of (case nonempty u of None \<Rightarrow> Inl NoIdentity | Some x \<Rightarrow> Inr x))"

text \<open>One claim for a request; an error of it is logged and forgotten.\<close>

definition claimInvites :: "session_env \<Rightarrow> string list \<Rightarrow> session \<Rightarrow> session" where
  "claimInvites env userIds s =
     (if s_claimed s then s
      else s\<lparr>s_claimed := True, s_db := fst (claimPendingInvites (s_db s) (en_now env) userIds)\<rparr>)"

definition personUserIds :: "session_env \<Rightarrow> string \<Rightarrow> string list act" where
  "personUserIds env userId s =
     (let ids = linkedUserIds (s_db s) userId in (claimInvites env ids s, Inr ids))"

definition noteScope :: "string \<Rightarrow> string \<Rightarrow> session \<Rightarrow> session" where
  "noteScope orgId brainId s = (if orgId \<noteq> [] then s\<lparr>s_scope := Some (orgId, brainId)\<rparr> else s)"

section \<open>What the caller reaches\<close>

definition list_brains :: "session_env \<Rightarrow> string list \<Rightarrow> accessible_brain list act" where
  "list_brains env ids s =
     lift_db DbFailed (\<lambda>db. listAccessibleBrains db (en_draw env (s_lists s)) ids) (s\<lparr>s_lists := Suc (s_lists s)\<rparr>)"

definition list_person :: "session_env \<Rightarrow> string \<Rightarrow> accessible_brain list act" where
  "list_person env userId = act_then (personUserIds env userId) (list_brains env)"

definition list_stewarded :: "session_env \<Rightarrow> string \<Rightarrow> brain_ref list act" where
  "list_stewarded env userId =
     act_then (personUserIds env userId) (\<lambda>ids s. (s, Inr (listStewardedBrains (s_db s) ids)))"

definition for_caller :: "session_env \<Rightarrow> (string \<Rightarrow> 'b list act) \<Rightarrow> 'b list act" where
  "for_caller env k =
     act_then (callerUserId env)
       (\<lambda>u. case nonempty u of None \<Rightarrow> act_of (Inr []) | Some x \<Rightarrow> k x)"

definition listAccessibleBrainsForCaller :: "session_env \<Rightarrow> accessible_brain list act" where
  "listAccessibleBrainsForCaller env = for_caller env (list_person env)"

definition listStewardedBrainsForCaller :: "session_env \<Rightarrow> brain_ref list act" where
  "listStewardedBrainsForCaller env = for_caller env (list_stewarded env)"

definition activeBrainOrgId :: "session_env \<Rightarrow> string option act" where
  "activeBrainOrgId env s =
     (if nonempty (s_active s) = None then (s, Inr None)
      else act_then (listAccessibleBrainsForCaller env)
             (\<lambda>brains s. (s, Inr (map_option ab_org_id (find (\<lambda>b. isActiveBrain b (s_active s)) brains)))) s)"

text \<open>\<open>whoami\<close>'s memberships: a failed lookup answers undefined.\<close>

definition callerOrgMemberships :: "session_env \<Rightarrow> session \<Rightarrow> session \<times> (string \<times> string \<times> role) list option" where
  "callerOrgMemberships env s =
     (case act_then (callerUserId env)
             (\<lambda>u. case nonempty u of
                    None \<Rightarrow> act_of (Inr None)
                  | Some x \<Rightarrow> act_then (personUserIds env x)
                      (\<lambda>ids s. (s, Inr (Some (listOrgMemberships (s_db s) ids))))) s of
        (s1, Inl _) \<Rightarrow> (s1, None)
      | (s1, Inr r) \<Rightarrow> (s1, r))"

section \<open>The brain of a call\<close>

definition autoProvisionOrg :: "session_env \<Rightarrow> string \<Rightarrow> string \<Rightarrow> org_context act" where
  "autoProvisionOrg env userId email =
     (let auto = (env_auto_provision env = Some ''true'');
          platform = (if auto
                      then map_sum PlatformProblem Some
                             (platformInstall (env_platform_org env) (env_platform_installation env))
                      else Inr None) in
      act_then (act_of platform)
        (\<lambda>p. lift_db Unprovisioned
               (\<lambda>db. provisionOrgForUser db (en_now env) (en_uuid env) userId email None
                       (map_option fst p) (map_option snd p) auto)))"

definition first_touch :: "session_env \<Rightarrow> string \<Rightarrow> string \<Rightarrow> accessible_brain act" where
  "first_touch env userId email =
     act_then (autoProvisionOrg env userId email)
       (\<lambda>p. if o_suspended (oc_org p) \<noteq> None then act_of (Inl (SuspendedOrg (o_id (oc_org p))))
            else case oc_brain p of
              None \<Rightarrow> act_of (Inl NoBrain)
            | Some pb \<Rightarrow>
                act_then (list_person env userId)
                  (\<lambda>bs. act_of (case find (\<lambda>b. ab_brain_id b = b_id pb) bs of
                                  None \<Rightarrow> Inl NoBrain | Some b \<Rightarrow> Inr b)))"

definition not_chosen :: "session_env \<Rightarrow> string \<Rightarrow> string option \<Rightarrow> choose_error \<Rightarrow> accessible_brain act" where
  "not_chosen env userId brainArg e =
     (case nonempty brainArg of
        None \<Rightarrow> act_of (Inl (Unchosen e))
      | Some q \<Rightarrow>
          act_then (list_stewarded env userId)
            (\<lambda>closed. act_of (case closedBrainMessage closed q of
                                None \<Rightarrow> Inl (Unchosen e)
                              | Some (label, org) \<Rightarrow> Inl (ClosedBrain label org))))"

definition resolve_target :: "session_env \<Rightarrow> string \<Rightarrow> string \<Rightarrow> string option \<Rightarrow> accessible_brain act" where
  "resolve_target env userId email brainArg =
     act_then (list_person env userId)
       (\<lambda>brains s.
          if brains = [] then
            (if en_mode env = ''static'' then (s, Inl NoBrain) else first_touch env userId email s)
          else case chooseBrain brains brainArg (s_active s) of
            Inr b \<Rightarrow> (s, Inr b)
          | Inl e \<Rightarrow> not_chosen env userId brainArg e s)"

definition commitAuthorFor :: "app_user option \<Rightarrow> string \<Rightarrow> (string \<times> string) option" where
  "commitAuthorFor user tokenEmail =
     (let of_user = (case user of Some u \<Rightarrow> u_email u | None \<Rightarrow> []);
          email = trim (if of_user \<noteq> [] then of_user else tokenEmail) in
      if email = [] then None
      else Some (trim (case Option.bind user (\<lambda>u. nonempty (u_name u)) of Some n \<Rightarrow> n | None \<Rightarrow> email), email))"

record tenant_context =
  tc_credential :: brain_credential
  tc_repo :: "string \<times> string"
  tc_role :: role
  tc_org_role :: "role option"
  tc_org :: string
  tc_actor :: string
  tc_author :: "(string \<times> string) option"
  tc_brain :: string
  tc_handle :: string
  tc_label :: string

definition brain_credential_of :: "'a brain_ref_scheme \<Rightarrow> brain_credential" where
  "brain_credential_of b = credentialFor (Some (ab_kind b)) (Some (of_int (ab_installation b)))"

text \<open>\<open>requireToken\<close>, where the credential is the deployment's token.\<close>

definition client_problem :: "session_env \<Rightarrow> brain_credential \<Rightarrow> session_error option" where
  "client_problem env credential =
     (if credential = TokenCredential \<and> nonempty (map_option trim (en_token env)) = None then Some NoToken else None)"

definition resolveProductContext :: "session_env \<Rightarrow> string \<Rightarrow> string \<Rightarrow> string option \<Rightarrow> tenant_context act" where
  "resolveProductContext env userId email brainArg =
     act_then (resolve_target env userId email brainArg)
       (\<lambda>t s. let credential = brain_credential_of t in
          case client_problem env credential of
            Some e \<Rightarrow> (s, Inl e)
          | None \<Rightarrow>
              (noteScope (ab_org_id t) (ab_brain_id t) s,
               Inr \<lparr>tc_credential = credential, tc_repo = (ab_owner t, ab_repo t), tc_role = ab_role t,
                     tc_org_role = ab_org_role t, tc_org = ab_org_id t, tc_actor = userId,
                     tc_author = (if en_mode env = ''static'' then None
                                  else commitAuthorFor (getAppUser (s_db s) userId) email),
                     tc_brain = ab_brain_id t, tc_handle = ab_id t, tc_label = ref_label t\<rparr>))"

definition assert_role :: "role option \<Rightarrow> role option \<Rightarrow> session_error + unit" where
  "assert_role actual required = map_sum RoleGate id (assertRole actual required)"

definition tenantContext ::
  "session_env \<Rightarrow> role option \<Rightarrow> role option \<Rightarrow> string option \<Rightarrow> tenant_context act" where
  "tenantContext env requires requiresOrg brainArg =
     act_then (signed_in env)
       (\<lambda>userId. act_then (resolveProductContext env userId (case en_email env of Some e \<Rightarrow> e | None \<Rightarrow> []) brainArg)
          (\<lambda>ctx. act_then (act_of (assert_role (Some (tc_role ctx)) requires))
             (\<lambda>_. act_then (act_of (assert_role (tc_org_role ctx) requiresOrg))
                (\<lambda>_. act_of (Inr ctx)))))"

section \<open>What the sharing tools act on\<close>

record access_target = brain_ref +
  at_role :: "role option"

definition as_target :: "'a brain_ref_scheme \<Rightarrow> role option \<Rightarrow> access_target" where
  "as_target b r = brain_ref.extend (brain_ref.truncate b) \<lparr>at_role = r\<rparr>"

definition accessContext :: "session_env \<Rightarrow> string option \<Rightarrow> access_context act" where
  "accessContext env brainArg =
     act_then (signed_in env)
       (\<lambda>userId. act_then (personUserIds env userId)
          (\<lambda>ids. act_then (list_brains env ids)
             (\<lambda>opened s.
                let stewarded = listStewardedBrains (s_db s) ids;
                    everything = map (\<lambda>b. as_target b (Some (ab_role b))) opened
                                 @ map (\<lambda>b. as_target b None) stewarded in
                if everything = [] then (s, Inl NoBrain)
                else case chooseBrain everything brainArg (s_active s) of
                  Inl e \<Rightarrow> (s, Inl (Unchosen e))
                | Inr t \<Rightarrow>
                    (noteScope (ab_org_id t) (ab_brain_id t) s,
                     Inr \<lparr>ac_brain = ab_brain_id t, ac_label = ref_label t, ac_role = at_role t,
                           ac_org_role = ab_org_role t, ac_org = Some (ab_org_id t), ac_actor = Some userId\<rparr>))))"

section \<open>The organization of a call\<close>

record org_scope =
  os_org :: org_row
  os_storage :: conn_row
  os_role :: role
  os_actor :: string
  os_author :: "(string \<times> string) option"

text \<open>The thunk \<open>activeOrgId\<close>, called only where \<open>resolveOrgForPerson\<close> calls it.\<close>

definition pick_org :: "session_env \<Rightarrow> string list \<Rightarrow> string option \<Rightarrow> accessible_org option act" where
  "pick_org env ids org s =
     (let asks = (nonempty org = None \<and> 1 < length (listAccessibleOrgs (s_db s) ids)) in
      act_then (if asks then activeBrainOrgId env else act_of (Inr None))
        (\<lambda>active. act_of (map_sum Unchosen id (resolveOrgForPerson (s_db s) ids org active))) s)"

definition org_membership :: "session_env \<Rightarrow> string \<Rightarrow> string \<Rightarrow> accessible_org option \<Rightarrow> (role \<times> org_row) act" where
  "org_membership env userId email picked =
     (case picked of
        Some a \<Rightarrow> act_of (Inr (ao_role a, ao_org a))
      | None \<Rightarrow>
          act_then (autoProvisionOrg env userId email)
            (\<lambda>p. act_of (if o_suspended (oc_org p) \<noteq> None then Inl (SuspendedOrg (o_id (oc_org p)))
                         else Inr (oc_role p, oc_org p))))"

definition org_scope_of :: "session_env \<Rightarrow> string \<Rightarrow> string \<Rightarrow> role option \<Rightarrow> role \<times> org_row \<Rightarrow> org_scope act" where
  "org_scope_of env userId email requires m s =
     (case assert_role (Some (fst m)) requires of
        Inl e \<Rightarrow> (s, Inl e)
      | Inr _ \<Rightarrow>
          (case orgStorage (s_db s) (snd m) of
             Inl e \<Rightarrow> (s, Inl (OrgStorage e))
           | Inr conn \<Rightarrow>
               (case client_problem env (credentialForConnection conn) of
                  Some e \<Rightarrow> (s, Inl e)
                | None \<Rightarrow>
                    (noteScope (o_id (snd m)) [] s,
                     Inr \<lparr>os_org = snd m, os_storage = conn, os_role = fst m, os_actor = userId,
                           os_author = commitAuthorFor (getAppUser (s_db s) userId) email\<rparr>))))"

definition orgContext :: "session_env \<Rightarrow> role option \<Rightarrow> string option \<Rightarrow> org_scope act" where
  "orgContext env requires org =
     (case nonempty (en_user env) of
        None \<Rightarrow> act_of (Inl ProductAccountsOnly)
      | Some userId \<Rightarrow>
          if en_mode env \<noteq> ''oauth'' then act_of (Inl ProductAccountsOnly)
          else let email = (case en_email env of Some e \<Rightarrow> e | None \<Rightarrow> []) in
            act_then (personUserIds env userId)
              (\<lambda>ids. act_then (pick_org env ids org)
                 (\<lambda>picked. act_then (org_membership env userId email picked)
                    (org_scope_of env userId email requires))))"

end
