(* ===== verification/BrainTools.thy ===== *)
theory BrainTools
  imports Session
begin

text \<open>
  The brain selection tools (\<open>src/tools/brains.ts\<close>), the creation of an organization as a tool
  (\<open>src/tools/org-onboarding.ts\<close>) and the connected accounts (\<open>src/tools/connected-accounts.ts\<close>).
  What GitHub answers is an argument: \<open>scaffold\<close> for the creation of a repository, \<open>repos\<close> and
  \<open>reach\<close> for what an installation covers, and \<open>probe\<close> for what a brain's repository holds.
\<close>

section \<open>The list\<close>

record brain_card =
  bc_id :: string
  bc_label :: string
  bc_role :: string
  bc_active :: bool
  bc_can_manage :: bool
  bc_can_share :: bool
  bc_visibility :: string
  bc_org :: string
  bc_org_label :: string
  bc_read_only :: bool
  bc_setup :: "(bool \<times> string option) option"

definition brainRows :: "accessible_brain list \<Rightarrow> string option \<Rightarrow> brain_card list" where
  "brainRows brains activeId =
     map (\<lambda>b. \<lparr>bc_id = ab_id b, bc_label = ref_label b, bc_role = roleLabel (ab_role b),
                 bc_active = (Some (ab_id b) = activeId),
                 bc_can_manage = (case ab_org_role b of None \<Rightarrow> False | Some r \<Rightarrow> roleAtLeast r Admin),
                 bc_can_share = roleAtLeast (case sharingAuthority (Some (ab_role b)) (ab_org_role b) of
                                               Some r \<Rightarrow> r | None \<Rightarrow> Viewer) Admin,
                 bc_visibility = ab_visibility b, bc_org = ab_org_id b, bc_org_label = orgDisplay b,
                 bc_read_only = ab_read_only b, bc_setup = None\<rparr>) brains"

text \<open>\<open>rowsText\<close>, without its dashes and line ends: the label, the role and whether it is active.\<close>

definition rowsText :: "brain_card list \<Rightarrow> (string \<times> string \<times> bool) list" where
  "rowsText rows = map (\<lambda>r. (bc_label r, bc_role r, bc_active r)) rows"

definition closedText :: "brain_ref list \<Rightarrow> (string \<times> string) list" where
  "closedText stewarded = map (\<lambda>b. (ref_label b, orgDisplay b)) stewarded"

text \<open>
  \<open>detectRowSetup\<close>: \<open>None\<close> where a step of it throws.  The steps are whether the index holds a page,
  whether it does once refreshed, whether the tree lacks a configuration, and the open request for one.
\<close>

record setup_probe =
  sp_indexed :: "bool option"
  sp_refreshed :: "bool option"
  sp_needs :: "bool option"
  sp_request :: "string option option"

definition detectRowSetup :: "setup_probe \<Rightarrow> bool \<times> string option" where
  "detectRowSetup p =
     (case sp_indexed p of
        Some False \<Rightarrow>
          (case sp_refreshed p of
             Some False \<Rightarrow>
               (case sp_needs p of
                  Some True \<Rightarrow> (case sp_request p of Some url \<Rightarrow> (True, url) | None \<Rightarrow> (False, None))
                | _ \<Rightarrow> (False, None))
           | _ \<Rightarrow> (False, None))
      | _ \<Rightarrow> (False, None))"

definition activeHandle :: "accessible_brain list \<Rightarrow> string option \<Rightarrow> string option" where
  "activeHandle brains pointer = map_option ab_id (find (\<lambda>b. isActiveBrain b pointer) brains)"

definition listOrgs :: "session_env \<Rightarrow> accessible_org list act" where
  "listOrgs env =
     (case nonempty (en_user env) of
        None \<Rightarrow> act_of (Inr [])
      | Some u \<Rightarrow> act_then (personUserIds env u) (\<lambda>ids s. (s, Inr (listAccessibleOrgs (s_db s) ids))))"

definition manageableOrgs :: "session_env \<Rightarrow> (string \<times> string) list act" where
  "manageableOrgs env =
     act_then (listOrgs env)
       (\<lambda>orgs. act_of (Inr (map (\<lambda>x. (o_id (ao_org x), orgLabel (ao_org x)))
                             (filter (\<lambda>x. roleAtLeast (ao_role x) Admin) orgs))))"

text \<open>\<open>m().catch(() => undefined)\<close>\<close>

definition act_catch :: "'a act \<Rightarrow> 'a option act" where
  "act_catch m s = (case m s of (s1, Inl _) \<Rightarrow> (s1, Inr None) | (s1, Inr x) \<Rightarrow> (s1, Inr (Some x)))"

record brains_wire =
  bw_brains :: "brain_card list"
  bw_active :: "string option"

datatype brains_refusal =
    Thrown session_error
  | NoBrainsToSwitch
  | ManyBrains string "string list"
  | NoBrainMatching string "string list"
  | NeedsBrainName
  | RepoNotCreated string
  | SeveralNamed string "string list"
  | AlreadyHere string string
  | HostedStorage string
  | NotARepository string
  | NotCovered string string
  | RepoCheckFailed
  | AlreadyBrainHere string
  | AlreadyElsewhere string
  | NeedsSourceAdmin string
  | SourceMissing
  | NeedsOrgAdmin string
  | OnlyBrain
  | BrainStatement sql_error

datatype brains_reply =
    SwitchedTo string brains_wire
  | BrainList brains_wire "(string \<times> string) list" "(string \<times> string) list option"
  | CreatedBrain string string brains_wire
  | ConnectedBrain string string bool brains_wire
  | Connectable "(string \<times> string) list"
  | MovePreview "move_line list" "move_change list"
  | MovedBrain string string string string brains_wire
  | Disconnected string brains_wire

type_synonym brains_run = "session \<times> (brains_refusal + brains_reply)"

text \<open>A step whose error is the tool's answer.\<close>

definition run_act :: "'a act \<Rightarrow> session \<Rightarrow> (session \<Rightarrow> 'a \<Rightarrow> brains_run) \<Rightarrow> brains_run" where
  "run_act m s k = (case m s of (s1, Inl e) \<Rightarrow> (s1, Inl (Thrown e)) | (s1, Inr x) \<Rightarrow> k s1 x)"

definition run_db :: "session \<Rightarrow> (sql_error + odb) \<Rightarrow> (session \<Rightarrow> brains_run) \<Rightarrow> brains_run" where
  "run_db s r k = (case r of Inl e \<Rightarrow> (s, Inl (BrainStatement e)) | Inr db \<Rightarrow> k (s\<lparr>s_db := db\<rparr>))"

section \<open>Switching and listing\<close>

definition unmatched :: "string \<Rightarrow> accessible_brain list \<Rightarrow> accessible_brain matched \<Rightarrow> brains_refusal" where
  "unmatched brain brains m =
     (case m of
        Several bs \<Rightarrow> ManyBrains brain (map brainLabelQualified bs)
      | _ \<Rightarrow> NoBrainMatching brain (map brainLabelQualified brains))"

definition switch_brain :: "session_env \<Rightarrow> string \<Rightarrow> session \<Rightarrow> brains_run" where
  "switch_brain env brain s =
     run_act (tenantContext env None None None) s (\<lambda>s1 _.
     run_act (listAccessibleBrainsForCaller env) s1 (\<lambda>s2 brains.
       if brains = [] then (s2, Inl NoBrainsToSwitch)
       else case matchBrain brains brain of
         Matched b \<Rightarrow>
           (setActiveBrain env (ab_brain_id b) s2,
            Inr (SwitchedTo (ref_label b) \<lparr>bw_brains = brainRows brains (Some (ab_id b)), bw_active = Some (ab_id b)\<rparr>))
       | m \<Rightarrow> (s2, Inl (unmatched brain brains m))))"

definition with_setup :: "(accessible_brain \<Rightarrow> setup_probe) \<Rightarrow> accessible_brain list \<Rightarrow> brain_card list \<Rightarrow> brain_card list" where
  "with_setup probe brains rows =
     map (\<lambda>(r, b). if bc_can_manage r then r\<lparr>bc_setup := Some (detectRowSetup (probe b))\<rparr> else r) (zip rows brains)"

definition brains :: "session_env \<Rightarrow> (accessible_brain \<Rightarrow> setup_probe) \<Rightarrow> session \<Rightarrow> brains_run" where
  "brains env probe s =
     run_act (act_catch (orgContext env None None)) s (\<lambda>s1 _.
     run_act (listAccessibleBrainsForCaller env) s1 (\<lambda>s2 list.
       let active = activeHandle list (s_active s2) in
       run_act (act_catch (listStewardedBrainsForCaller env)) s2 (\<lambda>s3 shut.
       run_act (act_catch (manageableOrgs env)) s3 (\<lambda>s4 orgs.
         (s4, Inr (BrainList \<lparr>bw_brains = with_setup probe list (brainRows list active), bw_active = active\<rparr>
                     (closedText (case shut of Some c \<Rightarrow> c | None \<Rightarrow> [])) orgs))))))"

section \<open>Creating a brain\<close>

text \<open>\<open>s.toLowerCase().replace(/[^a-z0-9]+/g, '-').replace(/^-+|-+$/g, '')\<close>\<close>

definition slugName :: "string \<Rightarrow> string" where
  "slugName s = strip_dashes (dash_runs (lower s))"

datatype scaffold_result = Scaffolded string string | NameInUse | ScaffoldFailed

text \<open>The loop over the names \<open>base\<close>, \<open>base-2\<close>, up to \<open>base-25\<close>.\<close>

function create_repo :: "(string \<Rightarrow> scaffold_result) \<Rightarrow> string \<Rightarrow> nat \<Rightarrow> string \<Rightarrow> (string \<times> string) option" where
  "create_repo scaffold base attempt repo =
     (case scaffold repo of
        Scaffolded owner name \<Rightarrow> Some (owner, name)
      | ScaffoldFailed \<Rightarrow> None
      | NameInUse \<Rightarrow>
          if attempt < 25 then create_repo scaffold base (Suc attempt) (base @ [DASH] @ show_nat (Suc attempt))
          else None)"
  by pat_completeness auto
termination by (relation "measure (\<lambda>(_, _, attempt, _). 25 - attempt)") auto

declare create_repo.simps [simp del]

definition grant_creator :: "session_env \<Rightarrow> string \<Rightarrow> string \<Rightarrow> session \<Rightarrow> (session \<Rightarrow> brains_run) \<Rightarrow> brains_run" where
  "grant_creator env brainId actor s k =
     (if actor = [] then k s
      else run_db s (setBrainGrant (s_db s) (en_now env) brainId actor Admin (Some actor)) k)"

definition create_brain ::
  "session_env \<Rightarrow> (string \<Rightarrow> string \<Rightarrow> scaffold_result) \<Rightarrow> string \<Rightarrow> string option \<Rightarrow> session \<Rightarrow> brains_run" where
  "create_brain env scaffold name org s =
     run_act (orgContext env (Some Editor) org) s (\<lambda>s1 ctx.
       let display = trim name in
       if display = [] then (s1, Inl NeedsBrainName)
       else
         let owner = c_account (os_storage ctx);
             base = (case slugName display of [] \<Rightarrow> ''brain'' | b \<Rightarrow> b) in
         case create_repo (scaffold owner) base 1 base of
           None \<Rightarrow> (s1, Inl (RepoNotCreated owner))
         | Some (repoOwner, repoName) \<Rightarrow>
             let newBrainId = brainIdFor repoOwner repoName in
             run_db s1 (createBrain (s_db s1) (en_now env) newBrainId (o_id (os_org ctx)) repoOwner repoName
                          (Some display) (Some (os_actor ctx)) (Some ''private'') (Some (c_id (os_storage ctx)))) (\<lambda>s2.
             grant_creator env newBrainId (os_actor ctx) s2 (\<lambda>s3.
             run_act (listAccessibleBrainsForCaller env) (setActiveBrain env newBrainId s3) (\<lambda>s4 listed.
               let i = (case find (\<lambda>b. ab_brain_id b = newBrainId) listed of
                          Some b \<Rightarrow> ab_id b | None \<Rightarrow> repoOwner @ [SLASH] @ repoName) in
               (s4, Inr (CreatedBrain display i \<lparr>bw_brains = brainRows listed (Some i), bw_active = Some i\<rparr>))))))"

section \<open>Connecting and moving\<close>

definition moveInto :: "session_env \<Rightarrow> org_scope \<Rightarrow> accessible_brain \<Rightarrow> bool \<Rightarrow> string option
    \<Rightarrow> (string \<Rightarrow> string \<Rightarrow> int) \<Rightarrow> session \<Rightarrow> brains_run" where
  "moveInto env dest target confirm name lc s =
     (let label = ref_label target in
      if (case ab_org_role target of None \<Rightarrow> True | Some r \<Rightarrow> \<not> roleAtLeast r Admin)
      then (s, Inl (NeedsSourceAdmin label))
      else
        let newName = nonempty (map_option trim name);
            shown = (case newName of Some n \<Rightarrow> n | None \<Rightarrow> label) in
        case getOrgById (s_db s) (ab_org_id target) of
          None \<Rightarrow> (s, Inl SourceMissing)
        | Some source \<Rightarrow>
            let from_org = orgLabel source;
                to_org = orgLabel (os_org dest);
                storageAccount = (case getConnection (s_db s) (ab_conn target) of
                                    Some c \<Rightarrow> if c_owner c = None then ''Isomorphic hosted storage''
                                              else ab_account target @ '' on GitHub''
                                  | None \<Rightarrow> ab_account target @ '' on GitHub'') in
            if \<not> confirm then
              (let changes = planBrainMove lc (ab_visibility target) (ab_read_only target)
                               (loadMovePeople (s_db s) (ab_brain_id target) (ab_org_id target) (o_id (os_org dest))) in
               (s, Inr (MovePreview
                 (describeMove shown from_org to_org storageAccount changes
                    (countPendingBrainInvites (s_db s) (en_now env) (ab_brain_id target))) changes)))
            else
              run_db s (moveBrain (s_db s) (ab_brain_id target) (o_id (os_org dest))) (\<lambda>s1.
                let s2 = (case newName of
                            None \<Rightarrow> s1
                          | Some n \<Rightarrow> s1\<lparr>s_db := setBrainName (s_db s1) (ab_brain_id target) (Some n)\<rparr>) in
                run_act (listAccessibleBrainsForCaller env) s2 (\<lambda>s3 listed.
                  let active = activeHandle listed (s_active s3) in
                  (s3, Inr (MovedBrain shown from_org to_org storageAccount
                              \<lparr>bw_brains = brainRows listed active, bw_active = active\<rparr>)))))"

definition named_brain :: "string \<Rightarrow> accessible_brain \<Rightarrow> bool" where
  "named_brain q b \<longleftrightarrow>
     lower (ab_id b) = q \<or> lower (storage_locator b) = q \<or> lower (ab_repo b) = q \<or> lower (ref_label b) = q"

datatype reach_result = Reached | Refused_by_host | ReachError

definition adopt_repo ::
  "session_env \<Rightarrow> org_scope \<Rightarrow> (string \<Rightarrow> string \<Rightarrow> reach_result) \<Rightarrow> bool \<Rightarrow> string \<Rightarrow> string option \<Rightarrow> session \<Rightarrow> brains_run" where
  "adopt_repo env ctx reach needsConfig repo displayName s =
     (let orgId = o_id (os_org ctx);
          parts = (if contains repo [SLASH] then split_on SLASH repo else [c_account (os_storage ctx), repo]);
          owner = trim (hd parts);
          name = trim (case parts of _ # n # _ \<Rightarrow> n | _ \<Rightarrow> []) in
      if owner = [] \<or> name = [] then (s, Inl (NotARepository repo))
      else case reach owner name of
        Refused_by_host \<Rightarrow> (s, Inl (NotCovered owner name))
      | ReachError \<Rightarrow> (s, Inl RepoCheckFailed)
      | Reached \<Rightarrow>
          (case getBrainByRepo (s_db s) owner name of
             Some existing \<Rightarrow>
               (s, Inl (if b_org existing = orgId then AlreadyBrainHere (owner @ [SLASH] @ name)
                        else AlreadyElsewhere (owner @ [SLASH] @ name)))
           | None \<Rightarrow>
               let newBrainId = brainIdFor owner name in
               run_db s (createBrain (s_db s) (en_now env) newBrainId orgId owner name
                           (nonempty (map_option trim displayName)) (Some (os_actor ctx)) (Some ''private'')
                           (Some (c_id (os_storage ctx)))) (\<lambda>s1.
               grant_creator env newBrainId (os_actor ctx) s1 (\<lambda>s2.
               run_act (listAccessibleBrainsForCaller env) s2 (\<lambda>s3 listed.
                 let active = activeHandle listed (s_active s3);
                     repoPath = owner @ [SLASH] @ name;
                     connectedId = (case find (\<lambda>b. ab_brain_id b = newBrainId) listed of
                                      Some b \<Rightarrow> ab_id b | None \<Rightarrow> repoPath) in
                 (s3, Inr (ConnectedBrain repoPath connectedId needsConfig
                             \<lparr>bw_brains = brainRows listed active, bw_active = active\<rparr>)))))))"

definition connectable :: "accessible_brain list \<Rightarrow> (string \<times> string) list \<Rightarrow> (string \<times> string) list" where
  "connectable listed repos =
     filter (\<lambda>(ow, re). lower (ow @ [SLASH] @ re) \<notin> set (map (\<lambda>b. lower (storage_locator b)) listed)) repos"

definition connect_brain ::
  "session_env \<Rightarrow> (string \<Rightarrow> string \<Rightarrow> int) \<Rightarrow> (string \<times> string) list \<Rightarrow> (string \<Rightarrow> string \<Rightarrow> reach_result)
     \<Rightarrow> bool \<Rightarrow> string option \<Rightarrow> string option \<Rightarrow> string option \<Rightarrow> bool \<Rightarrow> session \<Rightarrow> brains_run" where
  "connect_brain env lc repos reach needsConfig repo org displayName confirm s =
     run_act (orgContext env (Some Admin) org) s (\<lambda>s1 ctx.
       let hosted = (\<not> orgAdministersConnection (os_org ctx) (os_storage ctx)) in
       case repo of
         Some r \<Rightarrow>
           run_act (listAccessibleBrainsForCaller env) s1 (\<lambda>s2 listed.
             case filter (named_brain (lower (trim r))) listed of
               [target] \<Rightarrow>
                 if ab_org_id target = o_id (os_org ctx)
                 then (s2, Inl (AlreadyHere (ref_label target) (orgLabel (os_org ctx))))
                 else moveInto env ctx target confirm displayName lc s2
             | [] \<Rightarrow>
                 if hosted then (s2, Inl (HostedStorage (orgLabel (os_org ctx))))
                 else adopt_repo env ctx reach needsConfig r displayName s2
             | hits \<Rightarrow> (s2, Inl (SeveralNamed r (map brainLabelQualified hits))))
       | None \<Rightarrow>
           if hosted then (s1, Inl (HostedStorage (orgLabel (os_org ctx))))
           else run_act (listAccessibleBrainsForCaller env) s1 (\<lambda>s2 listed.
                  (s2, Inr (Connectable (connectable listed repos)))))"

section \<open>Disconnecting\<close>

definition disconnect_brain :: "session_env \<Rightarrow> string \<Rightarrow> session \<Rightarrow> brains_run" where
  "disconnect_brain env brain s =
     run_act (tenantContext env None None None) s (\<lambda>s1 ctx.
     run_act (listAccessibleBrainsForCaller env) s1 (\<lambda>s2 listed.
       case matchBrain listed brain of
         Matched target \<Rightarrow>
           if (case ab_org_role target of None \<Rightarrow> True | Some r \<Rightarrow> \<not> roleAtLeast r Admin)
           then (s2, Inl (NeedsOrgAdmin (ref_label target)))
           else if length (filter (\<lambda>b. ab_org_id b = ab_org_id target) listed) \<le> 1 then (s2, Inl OnlyBrain)
           else
             let s3 = s2\<lparr>s_db := forgetBrain (s_db s2) (ab_brain_id target)\<rparr>;
                 active = activeAfterDisconnect (Some (tc_handle ctx)) (ab_id target) (map ab_id listed);
                 s4 = (if active \<noteq> Some (tc_handle ctx)
                       then (case find (\<lambda>b. Some (ab_id b) = active) listed of
                               Some survivor \<Rightarrow> setActiveBrain env (ab_brain_id survivor) s3 | None \<Rightarrow> s3)
                       else s3) in
             run_act (listAccessibleBrainsForCaller env) s4 (\<lambda>s5 now.
               (s5, Inr (Disconnected (ref_label target) \<lparr>bw_brains = brainRows now active, bw_active = active\<rparr>)))
       | m \<Rightarrow> (s2, Inl (unmatched brain listed m))))"

section \<open>Renaming\<close>

text \<open>The half of \<open>configure_brain\<close> that a call with \<open>name\<close> runs; \<open>None\<close> goes on to the layout.\<close>

definition configure_name :: "session_env \<Rightarrow> string option \<Rightarrow> string option \<Rightarrow> session \<Rightarrow> session \<times> (brains_refusal + (string \<times> string) option)" where
  "configure_name env brain name s =
     (case tenantContext env (Some Admin) None brain s of
        (s1, Inl e) \<Rightarrow> (s1, Inl (Thrown e))
      | (s1, Inr ctx) \<Rightarrow>
          (case name of
             None \<Rightarrow> (s1, Inr None)
           | Some n \<Rightarrow>
               if trim n = [] then (s1, Inl NeedsBrainName)
               else case listAccessibleBrainsForCaller env s1 of
                 (s2, Inl e) \<Rightarrow> (s2, Inl (Thrown e))
               | (s2, Inr listed) \<Rightarrow>
                   (case find (\<lambda>b. ab_brain_id b = tc_brain ctx) listed of
                      None \<Rightarrow> (s2, Inl (NoBrainMatching (tc_brain ctx) []))
                    | Some target \<Rightarrow>
                        (s2\<lparr>s_db := setBrainName (s_db s2) (ab_brain_id target) (Some (trim n))\<rparr>,
                         Inr (Some (ref_label target, trim n))))))"

section \<open>Organizations and accounts\<close>

definition create_org_tool ::
  "session_env \<Rightarrow> string \<Rightarrow> bool \<Rightarrow> session \<Rightarrow> session \<times> (session_error create_org_refusal + create_org_reply)" where
  "create_org_tool env name github s =
     (case orgContext env None None s of
        (s1, Inl e) \<Rightarrow> (s1, Inl (ScopeRefused e))
      | (s1, Inr ctx) \<Rightarrow>
          (case listOrgs env s1 of
             (s2, Inl e) \<Rightarrow> (s2, Inl (ScopeRefused e))
           | (s2, Inr mine) \<Rightarrow>
               (case create_org (s_db s2) (en_now env) (en_uuid env) (Inr (Some (os_actor ctx))) mine env name github of
                  (db, r) \<Rightarrow> (s2\<lparr>s_db := db\<rparr>, r))))"

datatype account_refusal =
    AccountThrown session_error
  | PersonsOnly
  | LinkingNotConfigured
  | NotYours string
  | LinkProblem link_error
  | WhichLogin

definition requirePerson :: "tenant_context \<Rightarrow> account_refusal + string" where
  "requirePerson ctx = (if tc_actor ctx = [] then Inl PersonsOnly else Inr (tc_actor ctx))"

definition person_of :: "session_env \<Rightarrow> session \<Rightarrow> session \<times> (account_refusal + string)" where
  "person_of env s =
     (case tenantContext env None None None s of
        (s1, Inl e) \<Rightarrow> (s1, Inl (AccountThrown e))
      | (s1, Inr ctx) \<Rightarrow> (s1, requirePerson ctx))"

definition connected_accounts :: "session_env \<Rightarrow> session \<Rightarrow> session \<times> (account_refusal + connected_account list)" where
  "connected_accounts env s =
     (case person_of env s of
        (s1, Inl e) \<Rightarrow> (s1, Inl e)
      | (s1, Inr actor) \<Rightarrow> (s1, Inr (listConnectedAccounts (s_db s1) actor)))"

text \<open>
  \<open>link_identity\<close> answers a link whose state names the actor; the state, a fresh UUID, is kept in the
  pointer store, and the sign-in that follows the link runs \<open>mergePersons\<close>.
\<close>

definition link_identity ::
  "session_env \<Rightarrow> string option \<Rightarrow> session \<Rightarrow> session \<times> (account_refusal + string)" where
  "link_identity env base s =
     (case person_of env s of
        (s1, Inl e) \<Rightarrow> (s1, Inl e)
      | (s1, Inr actor) \<Rightarrow>
          (case nonempty (map_option (drop_trailing (\<lambda>c. c = SLASH)) base) of
             None \<Rightarrow> (s1, Inl LinkingNotConfigured)
           | Some b \<Rightarrow>
               (s1\<lparr>s_kv := (s_kv s1)(''pending_link:'' @ en_uuid env := Some actor)\<rparr>,
                Inr (b @ ''/link/start?state='' @ en_uuid env))))"

definition unlink_identity ::
  "session_env \<Rightarrow> string \<Rightarrow> session \<Rightarrow> session \<times> (account_refusal + string \<times> connected_account list)" where
  "unlink_identity env email s =
     (case person_of env s of
        (s1, Inl e) \<Rightarrow> (s1, Inl e)
      | (s1, Inr actor) \<Rightarrow>
          if email = [] then (s1, Inl WhichLogin)
          else case getAppUserByEmail (s_db s1) (trim email) of
            None \<Rightarrow> (s1, Inl (NotYours (trim email)))
          | Some target \<Rightarrow>
              (case unlinkIdentity (s_db s1) actor (u_id target) of
                 Inl e \<Rightarrow> (s1, Inl (LinkProblem e))
               | Inr db \<Rightarrow> (s1\<lparr>s_db := db\<rparr>, Inr (u_email target, listConnectedAccounts db actor))))"

end
