(* ===== verification/Members.thy ===== *)
theory Members
  imports OrgAccess
begin

text \<open>
  The roster tools (\<open>src/tools/members.ts\<close>): \<open>invite_member\<close>, \<open>set_member_role\<close> and
  \<open>remove_member\<close>, with the gate \<open>getContext({ requiresOrg: 'admin' })\<close> runs before each.  A
  call returns the database it left and either the refusal it answered or the roster it shows.
\<close>

section \<open>The caller\<close>

record brain_context =
  cx_org :: "string option"
  cx_actor :: "string option"
  cx_role :: "role option"
  cx_org_role :: "role option"

datatype member_refusal =
    Gate role_error
  | BadArguments
  | SingleTenant
  | NotOfThisOrg
  | BadEmail string
  | AboveOwnRole role
  | AlreadyMember string role
  | NotAssignable string
  | NotInOrganization string
  | OwnRoleFixed
  | OwnerRoleFixed
  | AlreadyHas string role
  | RemovesSelf
  | RemovesOwner
  | NobodyFound string
  | Refused_by_db sql_error

record roster =
  ro_members :: "member list"
  ro_invites :: "invite_row list"
  ro_me :: "string \<times> role"

datatype member_reply =
    Added string role roster
  | Invited string role roster
  | Changed string role roster
  | Removed string roster
  | Revoked string roster

definition requireOrg :: "brain_context \<Rightarrow> member_refusal + (string \<times> string \<times> role)" where
  "requireOrg ctx =
     (case (nonempty (cx_org ctx), nonempty (cx_actor ctx)) of
        (Some k, Some a) \<Rightarrow>
          (case cx_org_role ctx of None \<Rightarrow> Inl NotOfThisOrg | Some r \<Rightarrow> Inr (k, a, r))
      | _ \<Rightarrow> Inl SingleTenant)"

text \<open>\<open>getContext({ requiresOrg: 'admin' })\<close> followed by \<open>requireOrg\<close>.\<close>

definition admin_scope :: "brain_context \<Rightarrow> member_refusal + (string \<times> string \<times> role)" where
  "admin_scope ctx =
     (case assertRole (cx_org_role ctx) (Some Admin) of Inl e \<Rightarrow> Inl (Gate e) | Inr _ \<Rightarrow> requireOrg ctx)"

definition roster_of :: "odb \<Rightarrow> nat \<Rightarrow> string \<Rightarrow> string \<Rightarrow> role \<Rightarrow> roster" where
  "roster_of db now orgId actor orgRole =
     \<lparr>ro_members = listMembers db orgId, ro_invites = listPendingInvites db now orgId,
       ro_me = (actor, orgRole)\<rparr>"

definition members_tool :: "odb \<Rightarrow> nat \<Rightarrow> brain_context \<Rightarrow> member_refusal + roster" where
  "members_tool db now ctx =
     (case requireOrg ctx of Inl e \<Rightarrow> Inl e | Inr (k, a, r) \<Rightarrow> Inr (roster_of db now k a r))"

text \<open>The argument schema: \<open>z.enum(['viewer', 'editor', 'admin'])\<close>.\<close>

definition enum_role :: "string \<Rightarrow> role option" where
  "enum_role s = find (\<lambda>r. role_token r = s) ASSIGNABLE_ROLES"

section \<open>The tools\<close>

definition invite_member ::
  "odb \<Rightarrow> nat \<Rightarrow> brain_context \<Rightarrow> string \<Rightarrow> string \<Rightarrow> string option \<Rightarrow> odb \<times> (member_refusal + member_reply)" where
  "invite_member db now ctx uuid email role =
     (if (case role of Some s \<Rightarrow> enum_role s = None | None \<Rightarrow> False) then (db, Inl BadArguments)
      else case admin_scope ctx of
        Inl e \<Rightarrow> (db, Inl e)
      | Inr (orgId, actor, orgRole) \<Rightarrow>
          (let emailTrim = trim email;
               target = (case Option.bind role enum_role of Some r \<Rightarrow> r | None \<Rightarrow> Editor) in
           if emailTrim = [] \<or> \<not> contains emailTrim ''@'' then (db, Inl (BadEmail email))
           else if \<not> roleAtLeast orgRole target then (db, Inl (AboveOwnRole orgRole))
           else case getAppUserByEmail db emailTrim of
             Some existing \<Rightarrow>
               (case getMemberRole db orgId (u_id existing) of
                  Some current \<Rightarrow> (db, Inl (AlreadyMember (u_email existing) current))
                | None \<Rightarrow>
                    (case addMembership db now orgId (u_id existing) target of
                       Inl e \<Rightarrow> (db, Inl (Refused_by_db e))
                     | Inr db' \<Rightarrow>
                         (db', Inr (Added (u_email existing) target (roster_of db' now orgId actor orgRole)))))
           | None \<Rightarrow>
               (case createInvitation db now uuid orgId emailTrim target actor None of
                  Inl e \<Rightarrow> (db, Inl (Refused_by_db e))
                | Inr db' \<Rightarrow>
                    (db', Inr (Invited emailTrim target (roster_of db' now orgId actor orgRole))))))"

definition set_member_role ::
  "odb \<Rightarrow> nat \<Rightarrow> brain_context \<Rightarrow> string \<Rightarrow> string \<Rightarrow> odb \<times> (member_refusal + member_reply)" where
  "set_member_role db now ctx email role =
     (if enum_role role = None then (db, Inl BadArguments)
      else case admin_scope ctx of
        Inl e \<Rightarrow> (db, Inl e)
      | Inr (orgId, actor, orgRole) \<Rightarrow>
          (case parseRole role of
             None \<Rightarrow> (db, Inl (NotAssignable role))
           | Some nxt \<Rightarrow>
               if nxt = Owner then (db, Inl (NotAssignable role))
               else if \<not> roleAtLeast orgRole nxt then (db, Inl (AboveOwnRole orgRole))
               else case getAppUserByEmail db (trim email) of
                 None \<Rightarrow> (db, Inl (NotInOrganization (trim email)))
               | Some user \<Rightarrow>
                   (case getMemberRole db orgId (u_id user) of
                      None \<Rightarrow> (db, Inl (NotInOrganization (trim email)))
                    | Some current \<Rightarrow>
                        if u_id user = actor then (db, Inl OwnRoleFixed)
                        else if current = Owner then (db, Inl OwnerRoleFixed)
                        else if current = nxt then (db, Inl (AlreadyHas (u_email user) nxt))
                        else let db' = setMemberRole db orgId (u_id user) nxt in
                          (db', Inr (Changed (u_email user) nxt (roster_of db' now orgId actor orgRole))))))"

definition remove_member ::
  "odb \<Rightarrow> nat \<Rightarrow> brain_context \<Rightarrow> string \<Rightarrow> odb \<times> (member_refusal + member_reply)" where
  "remove_member db now ctx email =
     (case admin_scope ctx of
        Inl e \<Rightarrow> (db, Inl e)
      | Inr (orgId, actor, orgRole) \<Rightarrow>
          (let emailTrim = trim email;
               user = getAppUserByEmail db emailTrim;
               current = Option.bind user (\<lambda>u. getMemberRole db orgId (u_id u)) in
           case (user, current) of
             (Some u, Some r) \<Rightarrow>
               if u_id u = actor then (db, Inl RemovesSelf)
               else if r = Owner then (db, Inl RemovesOwner)
               else let db' = deleteUserBrainGrantsInOrg (removeMembership db orgId (u_id u)) orgId (u_id u) in
                 (db', Inr (Removed (u_email u) (roster_of db' now orgId actor orgRole)))
           | _ \<Rightarrow>
               (let mine = filter (\<lambda>i. lower (i_email i) = lower emailTrim) (listPendingInvites db now orgId) in
                if mine \<noteq> []
                then let db' = foldl (\<lambda>d i. revokeInvite d orgId (i_id i)) db mine in
                  (db', Inr (Revoked emailTrim (roster_of db' now orgId actor orgRole)))
                else (db, Inl (NobodyFound emailTrim)))))"

datatype member_call =
    InviteMember string string "string option"
  | SetMemberRole string string
  | RemoveMember string

fun member_step ::
  "odb \<Rightarrow> nat \<Rightarrow> brain_context \<Rightarrow> member_call \<Rightarrow> odb \<times> (member_refusal + member_reply)" where
  "member_step db now ctx (InviteMember uuid email role) = invite_member db now ctx uuid email role"
| "member_step db now ctx (SetMemberRole email role) = set_member_role db now ctx email role"
| "member_step db now ctx (RemoveMember email) = remove_member db now ctx email"

section \<open>Memberships after each statement\<close>

lemma getMemberRole_setMemberRole:
  "getMemberRole (setMemberRole db k u r) k' u' =
     (if k' = k \<and> u' = u \<and> getMemberRole db k u \<noteq> None then Some r else getMemberRole db k' u')"
proof -
  have "map_option m_role (find (\<lambda>m. m_org m = k' \<and> m_user m = u')
            (row_update (\<lambda>m. m_org m = k \<and> m_user m = u) (\<lambda>m. m\<lparr>m_role := r\<rparr>) ms)) =
     (if k' = k \<and> u' = u \<and> find (\<lambda>m. m_org m = k \<and> m_user m = u) ms \<noteq> None then Some r
      else map_option m_role (find (\<lambda>m. m_org m = k' \<and> m_user m = u') ms))" for ms
    by (induction ms) (auto simp: row_update_def)
  from this [of "t_members db"] show ?thesis
    by (simp add: getMemberRole_def setMemberRole_def del: option.map_sel not_None_eq)
qed

lemma getMemberRole_removeMembership:
  "getMemberRole (removeMembership db k u) k' u' = (if k' = k \<and> u' = u then None else getMemberRole db k' u')"
proof -
  have "find (\<lambda>m. m_org m = k' \<and> m_user m = u') (row_delete (\<lambda>m. m_org m = k \<and> m_user m = u) ms) =
     (if k' = k \<and> u' = u then None else find (\<lambda>m. m_org m = k' \<and> m_user m = u') ms)" for ms
    by (induction ms) (auto simp: row_delete_def)
  from this [of "t_members db"] show ?thesis by (simp add: getMemberRole_def removeMembership_def)
qed

lemma find_append: "find P (xs @ ys) = (case find P xs of None \<Rightarrow> find P ys | Some x \<Rightarrow> Some x)"
  by (induction xs) auto

lemma getMemberRole_addMembership:
  assumes "addMembership db now k u r = Inr db'"
  shows "getMemberRole db' k' u' = (if k' = k \<and> u' = u then Some r else getMemberRole db k' u')"
proof (cases "\<exists>m \<in> set (t_members db). m_org m = k \<and> m_user m = u")
  case True
  then have "db' = setMemberRole db k u r" "getMemberRole db k u \<noteq> None"
    using assms by (auto simp: addMembership_def setMemberRole_def getMemberRole_def find_None_iff)
  then show ?thesis by (simp add: getMemberRole_setMemberRole)
next
  case False
  then have "t_members db' = t_members db @ [\<lparr>m_org = k, m_user = u, m_role = r, m_added = now\<rparr>]"
    using assms by (auto simp: addMembership_def split: if_splits)
  moreover have "find (\<lambda>m. m_org m = k \<and> m_user m = u) (t_members db) = None"
    using False by (simp add: find_None_iff)
  ultimately show ?thesis by (auto simp: getMemberRole_def find_append split: option.splits)
qed

lemma getMemberRole_same_members: "t_members db' = t_members db \<Longrightarrow> getMemberRole db' k u = getMemberRole db k u"
  by (simp add: getMemberRole_def)

lemma revoke_fold_members:
  "t_members (foldl (\<lambda>d i. revokeInvite d k (f i)) db xs) = t_members db"
  by (induction xs arbitrary: db) (simp_all add: revokeInvite_def)

lemma createInvitation_members: "createInvitation db now i k e r b br = Inr db' \<Longrightarrow> t_members db' = t_members db"
  by (auto simp: createInvitation_def split: if_splits)

lemma deleteGrants_members: "t_members (deleteUserBrainGrantsInOrg db k u) = t_members db"
  by (simp add: deleteUserBrainGrantsInOrg_def)

lemma admin_scope_Inr:
  "admin_scope ctx = Inr (k, a, r) \<longleftrightarrow>
     nonempty (cx_org ctx) = Some k \<and> nonempty (cx_actor ctx) = Some a \<and> cx_org_role ctx = Some r \<and> Admin \<le> r"
  by (auto simp: admin_scope_def requireOrg_def assertRole_def split: option.splits sum.splits if_splits)

lemma enum_role_Some: "enum_role s = Some r \<Longrightarrow> r \<le> Admin"
  by (auto simp: enum_role_def find_Some_iff ASSIGNABLE_ROLES_def nth_Cons' split: if_splits)

text \<open>Every way a call changes a membership.\<close>

definition role_change :: "odb \<Rightarrow> brain_context \<Rightarrow> string \<Rightarrow> string \<Rightarrow> role option \<Rightarrow> bool" where
  "role_change db ctx k u new \<longleftrightarrow>
     (\<exists>orgRole. cx_org_role ctx = Some orgRole \<and> Admin \<le> orgRole \<and> cx_org ctx = Some k
        \<and> getMemberRole db k u \<noteq> Some Owner \<and> (getMemberRole db k u \<noteq> None \<longrightarrow> cx_actor ctx \<noteq> Some u)
        \<and> (\<forall>r. new = Some r \<longrightarrow> r \<le> orgRole \<and> r \<le> Admin))"

lemma nonempty_Some: "nonempty x = Some y \<Longrightarrow> x = Some y"
  by (auto simp: nonempty_def split: option.splits if_splits)

lemma invite_member_change:
  assumes run: "invite_member db now ctx uuid email role = (db', res)"
    and ch: "getMemberRole db' k u \<noteq> getMemberRole db k u"
  shows "role_change db ctx k u (getMemberRole db' k u)"
proof -
  let ?bad = "case role of Some s \<Rightarrow> enum_role s = None | None \<Rightarrow> False"
  define t where "t = (case Option.bind role enum_role of Some r \<Rightarrow> r | None \<Rightarrow> Editor)"
  have le: "t \<le> Admin" using enum_role_Some by (auto simp: t_def split: option.splits simp: bind_eq_Some_conv)
  from ch have ne: "t_members db' \<noteq> t_members db" by (auto dest: getMemberRole_same_members)
  have ok: "\<not> ?bad"
  proof
    assume ?bad
    with run ne show False by (simp add: invite_member_def)
  qed
  obtain orgId actor orgRole where sc: "admin_scope ctx = Inr (orgId, actor, orgRole)"
    using run ne ok by (cases "admin_scope ctx") (auto simp: invite_member_def simp del: split_paired_All)
  note run1 = run [unfolded invite_member_def if_not_P [OF ok] sc sum.case prod.case Let_def t_def [symmetric]]
  have mail: "\<not> (trim email = [] \<or> \<not> contains (trim email) ''@'')" and top: "\<not> \<not> roleAtLeast orgRole t"
    using run1 ne by (metis prod.inject)+
  note run2 = run1 [unfolded if_not_P [OF mail] if_not_P [OF top]]
  show ?thesis
  proof (cases "getAppUserByEmail db (trim email)")
    case None
    with run2 ne have False
      by (auto split: sum.splits dest: createInvitation_members)
    then show ?thesis ..
  next
    case (Some x)
    note run3 = run2 [unfolded Some option.case]
    from run3 ne have free: "getMemberRole db orgId (u_id x) = None" by (cases "getMemberRole db orgId (u_id x)") auto
    note run4 = run3 [unfolded free option.case]
    from run4 ne have add: "addMembership db now orgId (u_id x) t = Inr db'"
      by (cases "addMembership db now orgId (u_id x) t") auto
    with ch have "k = orgId \<and> u = u_id x \<and> getMemberRole db' k u = Some t"
      by (auto simp: getMemberRole_addMembership [OF add] split: if_splits)
    with sc free top le show ?thesis
      unfolding role_change_def admin_scope_Inr by (auto dest: nonempty_Some)
  qed
qed

lemma set_member_role_change:
  assumes run: "set_member_role db now ctx email role = (db', res)"
    and ch: "getMemberRole db' k u \<noteq> getMemberRole db k u"
  shows "role_change db ctx k u (getMemberRole db' k u)"
proof -
  from ch have ne: "db' \<noteq> db" by auto
  have ok: "enum_role role \<noteq> None"
  proof
    assume "enum_role role = None"
    with run ne show False by (simp add: set_member_role_def)
  qed
  obtain orgId actor orgRole where sc: "admin_scope ctx = Inr (orgId, actor, orgRole)"
    using run ne ok by (cases "admin_scope ctx") (auto simp: set_member_role_def simp del: split_paired_All)
  note run1 = run [unfolded set_member_role_def if_not_P [OF ok] sc sum.case prod.case]
  obtain nxt where nxt: "parseRole role = Some nxt" using run1 ne by (cases "parseRole role") auto
  note run2 = run1 [unfolded nxt option.case]
  have n: "nxt \<noteq> Owner" "\<not> \<not> roleAtLeast orgRole nxt" using run2 ne by (metis prod.inject)+
  note run3 = run2 [unfolded if_not_P [OF n(1)] if_not_P [OF n(2)]]
  obtain user where user: "getAppUserByEmail db (trim email) = Some user"
    using run3 ne by (cases "getAppUserByEmail db (trim email)") auto
  note run4 = run3 [unfolded user option.case]
  obtain cur where cur: "getMemberRole db orgId (u_id user) = Some cur"
    using run4 ne by (cases "getMemberRole db orgId (u_id user)") auto
  note run5 = run4 [unfolded cur option.case Let_def]
  have c: "u_id user \<noteq> actor" "cur \<noteq> Owner" and db': "db' = setMemberRole db orgId (u_id user) nxt"
    using run5 ne by (auto split: if_splits)
  with ch have "k = orgId \<and> u = u_id user \<and> getMemberRole db' k u = Some nxt"
    by (auto simp: getMemberRole_setMemberRole split: if_splits)
  moreover have "nxt \<le> Admin" using n(1) by (cases nxt) auto
  ultimately show ?thesis
    using sc n cur c unfolding role_change_def admin_scope_Inr by (auto dest: nonempty_Some)
qed

text \<open>The two ways \<open>remove_member\<close> changes the database.\<close>

lemma remove_member_cases:
  assumes run: "remove_member db now ctx email = (db', res)"
  obtains (refused) "db' = db" "\<exists>e. res = Inl e"
  | (revoked) k xs r where "db' = foldl (\<lambda>d (i :: invite_row). revokeInvite d k (i_id i)) db xs" "res = Inr (Revoked (trim email) r)"
  | (removed) k actor orgRole user cur r where "admin_scope ctx = Inr (k, actor, orgRole)"
      "getAppUserByEmail db (trim email) = Some user" "getMemberRole db k (u_id user) = Some cur"
      "u_id user \<noteq> actor" "cur \<noteq> Owner" "res = Inr (Removed (u_email user) r)"
      "db' = deleteUserBrainGrantsInOrg (removeMembership db k (u_id user)) k (u_id user)"
proof (cases "admin_scope ctx")
  case (Inl e)
  with run show thesis by (intro refused) (auto simp: remove_member_def)
next
  case (Inr sc)
  obtain k actor orgRole where sc: "sc = (k, actor, orgRole)" by (cases sc)
  note run1 = run [unfolded remove_member_def Inr sum.case sc prod.case Let_def]
  show thesis
  proof (cases "\<exists>user cur. getAppUserByEmail db (trim email) = Some user \<and> getMemberRole db k (u_id user) = Some cur")
    case True
    then obtain user cur where uc: "getAppUserByEmail db (trim email) = Some user"
      "getMemberRole db k (u_id user) = Some cur" by blast
    have cc: "Option.bind (Some user) (\<lambda>u. getMemberRole db k (u_id u)) = Some cur" by (simp add: uc)
    note run2 = run1 [unfolded uc(1) cc prod.case option.case]
    show thesis
    proof (cases "u_id user = actor \<or> cur = Owner")
      case True
      with run2 show thesis by (intro refused) (auto split: if_splits)
    next
      case False
      with run2 show thesis
        by (intro removed [OF Inr [unfolded sc] uc]) (auto split: if_splits)
    qed
  next
    case False
    show thesis
    proof (cases "getAppUserByEmail db (trim email)")
      case None
      note run2 = run1 [unfolded None bind.simps prod.case option.case]
      from run2 show thesis by (auto split: if_splits intro: refused revoked)
    next
      case (Some u)
      with False have gm: "Option.bind (Some u) (\<lambda>u. getMemberRole db k (u_id u)) = None" by simp
      note run2 = run1 [unfolded Some gm prod.case option.case]
      from run2 show thesis by (auto split: if_splits intro: refused revoked)
    qed
  qed
qed

lemma remove_member_change:
  assumes run: "remove_member db now ctx email = (db', res)"
    and ch: "getMemberRole db' k u \<noteq> getMemberRole db k u"
  shows "role_change db ctx k u (getMemberRole db' k u)"
  using run
proof (cases rule: remove_member_cases)
  case refused
  with ch show ?thesis by simp
next
  case (revoked k' xs r)
  have "t_members db' = t_members db" unfolding revoked(1) by (rule revoke_fold_members)
  from getMemberRole_same_members [OF this] ch show ?thesis by metis
next
  case (removed orgId actor orgRole user cur r)
  have keep: "getMemberRole db' k u = getMemberRole (removeMembership db orgId (u_id user)) k u"
    unfolding removed(7) by (rule getMemberRole_same_members) (rule deleteGrants_members)
  with ch have "k = orgId" "u = u_id user" "getMemberRole db' k u = None"
    unfolding getMemberRole_removeMembership by (metis (full_types))+
  note sc = removed(1) [unfolded admin_scope_Inr]
  from sc have ctx: "cx_org ctx = Some orgId" "cx_actor ctx = Some actor" "cx_org_role ctx = Some orgRole" "Admin \<le> orgRole"
    by (simp_all add: nonempty_Some)
  show ?thesis
    unfolding role_change_def \<open>getMemberRole db' k u = None\<close>
    using ctx removed(3,4,5) \<open>k = orgId\<close> \<open>u = u_id user\<close> by simp
qed

text \<open>
  C6.  What the roster tools can do to a membership, whatever the call and its arguments: nothing
  at all unless the caller is an admin or owner of that organization; never touch an owner's row,
  in either direction; never touch the caller's own row; never leave a role above the caller's,
  and never the owner's role.
\<close>

theorem member_tools_guarded:
  assumes run: "member_step db now ctx c = (db', res)"
    and change: "getMemberRole db' k u \<noteq> getMemberRole db k u"
  shows "(\<exists>orgRole. cx_org_role ctx = Some orgRole \<and> Admin \<le> orgRole \<and> cx_org ctx = Some k
           \<and> (\<forall>r. getMemberRole db' k u = Some r \<longrightarrow> r \<le> orgRole \<and> r \<noteq> Owner))
    \<and> getMemberRole db k u \<noteq> Some Owner
    \<and> (getMemberRole db k u \<noteq> None \<longrightarrow> cx_actor ctx \<noteq> Some u)"
proof -
  have "role_change db ctx k u (getMemberRole db' k u)"
    using run change invite_member_change set_member_role_change remove_member_change
    by (cases c) auto
  then show ?thesis by (auto simp: role_change_def)
qed

definition admin_ctx :: brain_context where
  "admin_ctx = \<lparr>cx_org = Some ''acme'', cx_actor = Some ''adm'', cx_role = Some Admin, cx_org_role = Some Admin\<rparr>"

lemmas member_eval =
  admin_ctx_def admin_scope_def requireOrg_def assertRole_def nonempty_def getAppUserByEmail_def
  getMemberRole_def Let_def sample_defs sql_lower_def is_upper_def trim_def trim_start_def trim_end_def
  is_space_def drop_trailing_def removeMembership_def deleteUserBrainGrantsInOrg_def row_delete_def

theorem member_tools_guarded_witness:
  "getMemberRole (fst (member_step sample_db 5 admin_ctx (RemoveMember ''ed@a''))) ''acme'' ''ed'' = None
   \<and> getMemberRole sample_db ''acme'' ''ed'' \<noteq> Some Owner \<and> cx_org_role admin_ctx \<noteq> Some Viewer"
proof -
  have ed: "getMemberRole sample_db ''acme'' ''ed'' = Some Editor" by (simp add: member_eval)
  have gone: "getMemberRole (fst (member_step sample_db 5 admin_ctx (RemoveMember ''ed@a''))) ''acme'' ''ed'' = None"
    by (simp add: remove_member_def member_eval)
  have "getMemberRole (fst (member_step sample_db 5 admin_ctx (RemoveMember ''ed@a''))) ''acme'' ''ed''
      \<noteq> getMemberRole sample_db ''acme'' ''ed''" unfolding gone ed by simp
  from member_tools_guarded [OF surjective_pairing this] gone show ?thesis by auto
qed

section \<open>Removal\<close>

lemma removed_no_rows:
  assumes r: "r \<in> set (queryBrainRows
      (deleteUserBrainGrantsInOrg (removeMembership db k u) k u) [u])"
  shows "b_org (r_brain r) \<noteq> k"
proof
  assume org: "b_org (r_brain r) = k"
  let ?db = "deleteUserBrainGrantsInOrg (removeMembership db k u) k u"
  from r have "r \<in> set (query_leg_members ?db [u]) \<or> r \<in> set (query_leg_grants ?db [u])"
    by (simp add: in_queryBrainRows)
  then show False
  proof
    assume "r \<in> set (query_leg_members ?db [u])"
    then show False unfolding in_leg_members
      using org by (auto simp: deleteUserBrainGrantsInOrg_def removeMembership_def row_delete_def)
  next
    assume "r \<in> set (query_leg_grants ?db [u])"
    then show False unfolding in_leg_grants open_row_def
      using org by (auto simp: deleteUserBrainGrantsInOrg_def removeMembership_def row_delete_def)
  qed
qed

text \<open>
  C7.  Removing a person removes all of it: after \<open>remove_member\<close> answers \<open>Removed\<close> for an address,
  the account of that address has no membership in the organization and no brain of the
  organization is left in what \<open>listAccessibleBrains\<close> finds for it, a brain it had been granted
  individually included.
\<close>

theorem removed_member_reaches_nothing:
  assumes run: "remove_member db now ctx email = (db', Inr (Removed who ros))"
  shows "\<exists>u k. getAppUserByEmail db (trim email) = Some u \<and> cx_org ctx = Some k
    \<and> getMemberRole db' k (u_id u) = None
    \<and> list_all (\<lambda>b. ab_org_id b \<noteq> k) (queryAccessibleBrains db' [u_id u])"
proof -
  from run obtain orgId actor orgRole user where sc: "admin_scope ctx = Inr (orgId, actor, orgRole)"
    and user: "getAppUserByEmail db (trim email) = Some user"
    and db': "db' = deleteUserBrainGrantsInOrg (removeMembership db orgId (u_id user)) orgId (u_id user)"
    by (cases rule: remove_member_cases) auto
  have "getMemberRole db' orgId (u_id user) = None"
    unfolding db' by (subst getMemberRole_same_members [OF deleteGrants_members])
      (simp add: getMemberRole_removeMembership)
  moreover have "list_all (\<lambda>b. ab_org_id b \<noteq> orgId) (queryAccessibleBrains db' [u_id user])"
    unfolding list_all_iff db' by (metis accessible_org removed_no_rows)
  ultimately show ?thesis
    using sc user unfolding admin_scope_Inr by (auto dest: nonempty_Some)
qed

theorem removed_member_reaches_nothing_witness:
  "\<exists>ros. snd (remove_member sample_db 5 admin_ctx ''ed@a'') = Inr (Removed ''ed@a'' ros)
   \<and> (\<exists>u. getAppUserByEmail sample_db (trim ''ed@a'') = Some u
        \<and> getMemberRole (fst (remove_member sample_db 5 admin_ctx ''ed@a'')) ''acme'' (u_id u) = None)"
proof -
  have "\<exists>ros. snd (remove_member sample_db 5 admin_ctx ''ed@a'') = Inr (Removed ''ed@a'' ros)"
    by (simp add: remove_member_def member_eval)
  then obtain ros where ros: "snd (remove_member sample_db 5 admin_ctx ''ed@a'') = Inr (Removed ''ed@a'' ros)" by blast
  then have "remove_member sample_db 5 admin_ctx ''ed@a''
      = (fst (remove_member sample_db 5 admin_ctx ''ed@a''), Inr (Removed ''ed@a'' ros))"
    by (metis prod.collapse)
  from removed_member_reaches_nothing [OF this] ros show ?thesis
    by (auto simp: admin_ctx_def)
qed

end
