(* ===== verification/RowInvariant.thy ===== *)
theory RowInvariant
  imports BrainTools Members
begin

text \<open>
  Properties of the platform database that the program keeps.  The locale \<open>row_invariant\<close> states what
  a property must satisfy for the operations of \<open>src/lib/\<close> to keep it; its lemmas carry the property
  through the methods of a session (\<open>src/worker.ts\<close>), the roster tools and the sharing tools.  The
  first interpretation: the keys and references of the schema hold, and no account is ever lost.
\<close>

section \<open>Methods that keep a property of the rows\<close>

definition keeps :: "(odb \<Rightarrow> bool) \<Rightarrow> 'a act \<Rightarrow> bool" where
  "keeps P m \<longleftrightarrow> (\<forall>s. P (s_db s) \<longrightarrow> P (s_db (fst (m s))))"

named_theorems keeping \<open>methods that keep a property of the rows\<close>

lemma keepsI: "(\<And>s. P (s_db s) \<Longrightarrow> P (s_db (fst (m s)))) \<Longrightarrow> keeps P m"
  by (simp add: keeps_def)

lemma keepsD: "keeps P m \<Longrightarrow> P (s_db s) \<Longrightarrow> P (s_db (fst (m s)))"
  by (simp add: keeps_def)

lemma keeps_run: "keeps P m \<Longrightarrow> P (s_db s) \<Longrightarrow> m s = (s', r) \<Longrightarrow> P (s_db s')"
  by (metis fst_conv keepsD)

lemma keeps_then [keeping]: "keeps P m \<Longrightarrow> (\<And>x. keeps P (k x)) \<Longrightarrow> keeps P (act_then m k)"
  unfolding keeps_def act_then_def by (auto split: prod.splits sum.splits)

lemma keeps_of [keeping]: "keeps P (act_of r)"
  by (simp add: keeps_def act_of_def)

lemma keeps_lift: "(\<And>db. P db \<Longrightarrow> P (fst (run db))) \<Longrightarrow> keeps P (lift_db f run)"
  unfolding keeps_def lift_db_def by (auto split: prod.splits sum.splits) (metis fst_conv)+

lemma keeps_same: "(\<And>s. s_db (fst (m s)) = s_db s) \<Longrightarrow> keeps P m"
  by (simp add: keeps_def)

lemma keeps_if [keeping]: "(c \<Longrightarrow> keeps P m) \<Longrightarrow> (\<not> c \<Longrightarrow> keeps P n) \<Longrightarrow> keeps P (if c then m else n)"
  by simp

lemma keeps_option [keeping]:
  "keeps P m \<Longrightarrow> (\<And>x. keeps P (k x)) \<Longrightarrow> keeps P (case v of None \<Rightarrow> m | Some x \<Rightarrow> k x)"
  by (cases v) auto

lemma keeps_catch [keeping]: "keeps P m \<Longrightarrow> keeps P (act_catch m)"
  unfolding keeps_def act_catch_def by (auto split: prod.splits sum.splits)

lemma run_act_keeps:
  assumes "keeps P m" "P (s_db s)" "\<And>s1 x. P (s_db s1) \<Longrightarrow> m s = (s1, Inr x) \<Longrightarrow> P (s_db (fst (k s1 x)))"
  shows "P (s_db (fst (run_act m s k)))"
proof (cases "m s")
  case (Pair s1 r)
  with keeps_run [OF assms(1,2)] assms(3) show ?thesis by (cases r) (auto simp: run_act_def)
qed

lemma run_db_keeps:
  assumes "P (s_db s)" "\<And>db. r = Inr db \<Longrightarrow> P (s_db (fst (k (s\<lparr>s_db := db\<rparr>))))"
  shows "P (s_db (fst (run_db s r k)))"
  using assms by (cases r) (auto simp: run_db_def)

lemma active_db [simp]: "s_db (setActiveBrain env i s) = s_db s" "s_db (loadActiveBrain env s) = s_db s"
  "s_db (noteScope k b s) = s_db s" "s_db (open_session db kv) = db"
  by (simp_all add: setActiveBrain_def loadActiveBrain_def noteScope_def open_session_def)

lemma getAppUser_exists: "getAppUser db u \<noteq> None \<longleftrightarrow> u \<in> u_id ` set (t_users db)"
  by (force simp: getAppUser_def find_None_iff)

lemma account_exists:
  assumes "upsertAppUser db now u e n g = Inr db'"
  shows "getAppUser db' u \<noteq> None"
proof (cases "\<exists>r \<in> set (t_users db). u_id r = u")
  case True
  with assms obtain f where "db' = db\<lparr>t_users := row_update (\<lambda>r. u_id r = u) f (t_users db)\<rparr>" "\<And>r. u_id (f r) = u_id r"
    by (auto simp: upsertAppUser_def split: if_splits)
  with True show ?thesis unfolding getAppUser_exists by (auto simp: image_row_update)
next
  case False
  with assms show ?thesis unfolding getAppUser_exists by (auto simp: upsertAppUser_def split: if_splits)
qed

section \<open>The contract\<close>

text \<open>
  What a property of the rows must satisfy: it holds after each operation of \<open>src/lib/\<close>, where the
  memberships change only under the guard the code checks (no role but the owner's is given to a
  member, no owner is changed or removed) and an organization is created for an account that exists.
\<close>

locale row_invariant =
  fixes P :: "odb \<Rightarrow> bool"
  assumes schema: "P db \<Longrightarrow> schema_ok db"
    and claims: "P db \<Longrightarrow> P (fst (claimPendingInvites db now ids))"
    and handle: "P db \<Longrightarrow> write_handle db b h = Inr db' \<Longrightarrow> P db'"
    and account: "P db \<Longrightarrow> upsertAppUser db now u e nm g = Inr db' \<Longrightarrow> P db'"
    and merges: "P db \<Longrightarrow> mergePersons db fresh u v = Inr db' \<Longrightarrow> P db'"
    and unlinks: "P db \<Longrightarrow> unlinkIdentity db u v = Inr db' \<Longrightarrow> P db'"
    and mints: "P db \<Longrightarrow> getAppUser db u \<noteq> None \<Longrightarrow> P (fst (create_with_owner db now k label model inst ow gh u))"
    and joins: "P db \<Longrightarrow> getMemberRole db k u = None \<or> r = Owner \<Longrightarrow> addMembership db now k u r = Inr db' \<Longrightarrow> P db'"
    and regrades: "P db \<Longrightarrow> getMemberRole db k u \<noteq> Some Owner \<Longrightarrow> P (setMemberRole db k u r)"
    and leaves: "P db \<Longrightarrow> getMemberRole db k u \<noteq> Some Owner \<Longrightarrow>
      P (deleteUserBrainGrantsInOrg (removeMembership db k u) k u)"
    and invites: "P db \<Longrightarrow> createInvitation db now i k e r by_user br = Inr db' \<Longrightarrow> P db'"
    and revokes: "P db \<Longrightarrow> P (revokeInvite db k i)"
    and cancels: "P db \<Longrightarrow> P (cancelBrainInvites db b e)"
    and grants: "P db \<Longrightarrow> setBrainGrant db now b u r granter = Inr db' \<Longrightarrow> P db'"
    and ungrants: "P db \<Longrightarrow> P (removeBrainGrant db b u)"
    and names: "P db \<Longrightarrow> P (setBrainName db b nm)"
    and shows_to: "P db \<Longrightarrow> P (setBrainVisibility db b v)"
    and creates: "P db \<Longrightarrow> createBrain db now i k ow rn nm creator vis conn = Inr db' \<Longrightarrow> P db'"
    and moves: "P db \<Longrightarrow> moveBrain db b k = Inr db' \<Longrightarrow> P db'"
    and forgets: "P db \<Longrightarrow> P (forgetBrain db b)"
    and operator: "P db \<Longrightarrow> ensureStaticTenant db now ow rp cred = Inr db' \<Longrightarrow> P db'"
begin

lemma assign_keeps: "P db \<Longrightarrow> P (fst (assign_handles db draw i bs))"
proof (induction bs arbitrary: db i)
  case Nil
  then show ?case by simp
next
  case (Cons b bs)
  have "P db'" if "assignBrainHandle db b h0 h1 h2 = Inr db'" for h0 h1 h2 db'
    using that handle [OF Cons.prems] by (auto simp: assignBrainHandle_def split: sum.splits)
  with Cons show ?case by (auto split: sum.splits)
qed

lemma listing_keeps: "P db \<Longrightarrow> P (fst (listAccessibleBrains db draw ids))"
  using assign_keeps [of db draw 0 "map ab_brain_id (filter (\<lambda>b. ab_handle b = []) (queryAccessibleBrains db ids))"]
  by (auto simp: listAccessibleBrains_def Let_def split: prod.splits option.splits)

lemma list_brains_keeps [keeping]: "keeps P (list_brains env ids)"
proof (rule keepsI)
  fix s :: session assume "P (s_db s)"
  from listing_keeps [OF this, of "en_draw env (s_lists s)" ids]
  show "P (s_db (fst (list_brains env ids s)))"
    by (auto simp: list_brains_def lift_db_def split: prod.splits sum.splits)
qed

lemma personUserIds_keeps [keeping]: "keeps P (personUserIds env u)"
  using claims by (intro keepsI) (simp add: personUserIds_def claimInvites_def Let_def)

lemma caller_keeps [keeping]: "keeps P (callerUserId env)"
proof (rule keepsI)
  fix s :: session assume s: "P (s_db s)"
  have "P (s_db s1)" if "static_caller env s = (s1, r)" for s1 r
    using that s operator by (auto simp: static_caller_def split: option.splits prod.splits sum.splits)
  with s show "P (s_db (fst (callerUserId env s)))"
    by (auto simp: callerUserId_def split: option.splits prod.splits)
qed

lemma provision_keeps:
  assumes "P db"
  shows "P (fst (provisionOrgForUser db now uuid u e n org inst auto))"
proof (cases "upsertAppUser db now u e n None")
  case (Inl x)
  with assms show ?thesis by (simp add: provisionOrgForUser_def)
next
  case (Inr db1)
  from account [OF assms this] have 1: "P db1" .
  have u1: "getAppUser db1 u \<noteq> None" by (rule account_exists [OF Inr])
  obtain db2 r where c: "claimPendingInvites db1 now [u] = (db2, r)" by (cases "claimPendingInvites db1 now [u]")
  from claims [OF 1, of now "[u]"] c have 2: "P db2" by simp
  have "t_users db2 = t_users db1" using claim_keeps_rows [of db1 now "[u]"] c by (simp add: keeps_rows_def)
  with u1 have u2: "getAppUser db2 u \<noteq> None" by (simp add: getAppUser_def)
  have m: "P (fst (mint_org db2 now uuid u e o' i))" for o' i
    using mints [OF 2 u2, of now uuid e "''platform''" i o' None]
    by (auto simp: mint_org_def split: prod.splits option.splits)
  show ?thesis
    using 2 m by (cases r) (auto simp: provisionOrgForUser_def Inr c Let_def split: option.splits prod.splits if_splits bool.splits)
qed

lemma autoProvision_keeps [keeping]: "keeps P (autoProvisionOrg env u e)"
  unfolding autoProvisionOrg_def Let_def by (intro keeping keeps_lift provision_keeps)

lemma signed_in_keeps [keeping]: "keeps P (signed_in env)"
  unfolding signed_in_def by (intro keeping)

lemma list_person_keeps [keeping]: "keeps P (list_person env u)"
  unfolding list_person_def by (intro keeping)

lemma list_stewarded_keeps [keeping]: "keeps P (list_stewarded env u)"
  unfolding list_stewarded_def by (intro keeping keeps_same) simp

lemma for_caller_keeps [keeping]:
  "keeps P (listAccessibleBrainsForCaller env)" "keeps P (listStewardedBrainsForCaller env)"
  unfolding listAccessibleBrainsForCaller_def listStewardedBrainsForCaller_def for_caller_def
  by (intro keeping)+

lemma first_touch_keeps [keeping]: "keeps P (first_touch env u e)"
  unfolding first_touch_def by (intro keeping)

lemma not_chosen_keeps [keeping]: "keeps P (not_chosen env u q e)"
  unfolding not_chosen_def by (intro keeping)

lemma resolve_target_keeps [keeping]: "keeps P (resolve_target env u e q)"
  unfolding resolve_target_def
proof (intro keeping keepsI)
  fix bs and s :: session assume s: "P (s_db s)"
  with keepsD [OF first_touch_keeps s] keepsD [OF not_chosen_keeps s]
  show "P (s_db (fst (if bs = [] then if en_mode env = ''static'' then (s, Inl NoBrain) else first_touch env u e s
      else case chooseBrain bs q (s_active s) of Inl e \<Rightarrow> not_chosen env u q e s | Inr b \<Rightarrow> (s, Inr b))))"
    by (simp split: sum.splits)
qed

lemma product_keeps [keeping]: "keeps P (resolveProductContext env u e q)"
  unfolding resolveProductContext_def
  by (intro keeping keeps_same) (simp add: Let_def split: option.splits)

lemma tenant_keeps [keeping]: "keeps P (tenantContext env r q b)"
  unfolding tenantContext_def by (intro keeping)

lemma access_keeps [keeping]: "keeps P (accessContext env b)"
  unfolding accessContext_def
  by (intro keeping keeps_same) (simp add: Let_def split: sum.splits)

lemma active_org_keeps [keeping]: "keeps P (activeBrainOrgId env)"
proof (rule keepsI)
  fix s :: session assume s: "P (s_db s)"
  have "keeps P (act_then (listAccessibleBrainsForCaller env)
      (\<lambda>bs s. (s, Inr (map_option ab_org_id (find (\<lambda>b. isActiveBrain b (s_active s)) bs)))))"
    by (intro keeping keeps_same) simp
  from keepsD [OF this s] s show "P (s_db (fst (activeBrainOrgId env s)))" by (simp add: activeBrainOrgId_def)
qed

lemma pick_keeps [keeping]: "keeps P (pick_org env ids k)"
proof (rule keepsI)
  fix s :: session assume s: "P (s_db s)"
  have "keeps P (act_then (if c then activeBrainOrgId env else act_of (Inr None)) (\<lambda>active. act_of (f active)))"
    for c and f :: "string option \<Rightarrow> session_error + accessible_org option" by (intro keeping)
  from keepsD [OF this s] show "P (s_db (fst (pick_org env ids k s)))" by (simp add: pick_org_def Let_def)
qed

lemma org_membership_keeps [keeping]: "keeps P (org_membership env u e picked)"
  unfolding org_membership_def by (intro keeping)

lemma org_context_keeps [keeping]: "keeps P (orgContext env r k)"
  unfolding orgContext_def Let_def
  by (intro keeping keeps_same) (simp add: org_scope_of_def split: sum.splits option.splits)

end

section \<open>The tools keep what the operations keep\<close>

context row_invariant
begin

lemma invite_member_keeps: "P db \<Longrightarrow> P (fst (invite_member db now ctx uuid email role))"
  by (cases "admin_scope ctx")
     (auto simp: invite_member_def Let_def intro: joins invites split: option.splits sum.splits)

lemma set_member_role_keeps: "P db \<Longrightarrow> P (fst (set_member_role db now ctx email role))"
  by (cases "admin_scope ctx")
     (auto simp: set_member_role_def Let_def intro!: regrades split: option.splits sum.splits)

lemma revoke_all_keeps: "P db \<Longrightarrow> P (foldl (\<lambda>d (i :: invite_row). revokeInvite d k (i_id i)) db xs)"
  by (induction xs arbitrary: db) (simp_all add: revokes)

lemma remove_member_keeps:
  assumes "P db"
  shows "P (fst (remove_member db now ctx email))"
proof (cases "remove_member db now ctx email")
  case (Pair db' res)
  then have "P db'"
    using assms by (cases rule: remove_member_cases) (auto simp: revoke_all_keeps intro!: leaves)
  with Pair show ?thesis by simp
qed

lemma member_step_keeps: "P db \<Longrightarrow> P (fst (member_step db now ctx c))"
  by (cases c) (simp_all add: invite_member_keeps set_member_role_keeps remove_member_keeps)

lemma share_stranger_keeps: "P db \<Longrightarrow> P (fst (share_stranger db now a uuid k actor b e access))"
  by (auto simp: share_stranger_def Let_def intro: cancels invites split: option.splits sum.splits)

lemma unshare_user_keeps: "P db \<Longrightarrow> P (fst (unshare_user db ctx actor b v user))"
  by (simp add: unshare_user_def Let_def cancels ungrants)

lemma share_user_keeps: "P db \<Longrightarrow> P (fst (share_user db now a actor b v guest user access))"
  by (auto simp: share_user_def Let_def intro: grants split: option.splits sum.splits)

lemma share_with_email_keeps: "P db \<Longrightarrow> P (fst (share_with_email db now ctx a uuid k actor row e access))"
  by (auto simp: share_with_email_def Let_def share_stranger_keeps unshare_user_keeps share_user_keeps
      split: prod.splits option.splits)

lemma flip_visibility_keeps: "P db \<Longrightarrow> P (fst (flip_visibility db row v))"
  by (auto simp: flip_visibility_def shows_to split: prod.splits option.splits)

lemma share_brain_keeps:
  assumes "P db"
  shows "P (fst (share_brain db now ctx uuid email access visibility))"
proof -
  have one: "P db1" if "flip_visibility db row v = (db1, rest)" for row v db1 rest
    using flip_visibility_keeps [OF assms, of row v] that by simp
  have two: "P db2" if "flip_visibility db row v = (db1, rest)"
    "share_with_email db1 now ctx a uuid k actor row' e access = (db2, r)" for row v db1 rest a k actor row' e db2 r
    using share_with_email_keeps [OF one [OF that(1)], of now ctx a uuid k actor row' e access] that(2) by simp
  show ?thesis
    using assms by (auto simp: share_brain_def dest: one two split: prod.splits option.splits sum.splits)
qed

lemma hosted_keeps: "P db \<Longrightarrow> getAppUser db u \<noteq> None \<Longrightarrow> P (fst (createHostedOrg db now uuid u name platform))"
  using mints [of db u now uuid "trim name" "''hosted''" "snd platform" "fst platform" None]
  by (auto simp: createHostedOrg_def split: prod.splits option.splits)

lemma connect_customer_keeps:
  assumes "P db" "getAppUser db u \<noteq> None"
  shows "P (fst (connectCustomerOrg db now uuid u inst login kind name))"
proof -
  have "P (fst (create_with_owner db now uuid n ''customer'' inst login (Some login) u))" for n
    by (rule mints [OF assms])
  then have new: "P db'" if "create_with_owner db now uuid n ''customer'' inst login (Some login) u = (db', r)" for n db' r
    using that by (metis fst_conv)
  have own: "P db'" if "addMembership db now k u Owner = Inr db'" for k db'
    using joins [OF assms(1) _ that] by simp
  show ?thesis
    using assms(1) by (auto simp: connectCustomerOrg_def Let_def dest: new own split: option.splits sum.splits prod.splits)
qed

lemma create_org_keeps:
  assumes "P db" "\<And>a. scope = Inr (Some a) \<Longrightarrow> getAppUser db a \<noteq> None"
  shows "P (fst (create_org db now uuid scope mine env name github))"
proof -
  have new: "P db'" if "createHostedOrg db now uuid a n pl = (db', r)" "scope = Inr acc" "nonempty acc = Some a" for a n pl db' r acc
    using hosted_keeps [OF assms(1), of a now uuid n pl] that assms(2) nonempty_Some by auto
  show ?thesis
    using assms(1) by (auto simp: create_org_def dest: new split: option.splits sum.splits prod.splits)
qed

end

section \<open>The schema holds and accounts stay\<close>

lemma run_statement_schema:
  "schema_ok db \<Longrightarrow> (\<And>db'. r = Inr db' \<Longrightarrow> schema_ok db') \<Longrightarrow> schema_ok (fst (run_statement db r))"
  by (auto simp: run_statement_def split: sum.splits)

lemma then_do_schema:
  "schema_ok (fst r) \<Longrightarrow> (\<And>db. schema_ok db \<Longrightarrow> schema_ok (fst (k db))) \<Longrightarrow> schema_ok (fst (then_do r k))"
  by (auto simp: then_do_def split: prod.splits option.splits)

lemma apply_claim_schema:
  assumes ok: "schema_ok db"
  shows "schema_ok (fst (apply_claim now c db))"
  unfolding apply_claim_def
proof (rule then_do_schema)
  show "schema_ok (fst (if ic_joins c then run_statement db (addMembership db now (ic_org c) (ic_user c) (ic_role c))
      else (db, None)))"
    using ok addMembership_schema by (auto intro!: run_statement_schema)
next
  fix db1 assume one: "schema_ok db1"
  show "schema_ok (fst (then_do
         (case (ic_grants c, ic_brain c) of
            (True, Some b) \<Rightarrow> run_statement db1 (setBrainGrant db1 now b (ic_user c) (ic_role c) None)
          | _ \<Rightarrow> (db1, None))
         (\<lambda>db2. (acceptInvite db2 now (ic_id c), None))))"
    using one setBrainGrant_schema
    by (intro then_do_schema) (auto simp: acceptInvite_schema split: bool.splits option.splits intro!: run_statement_schema)
qed

lemma claimPendingInvites_schema:
  assumes "schema_ok db"
  shows "schema_ok (fst (claimPendingInvites db now ids))"
proof -
  have "schema_ok (fst (apply_claims now cs db))" for cs
    using assms by (induction cs arbitrary: db) (simp_all add: then_do_schema apply_claim_schema)
  with assms show ?thesis by (simp add: claim_fst Let_def)
qed

lemma create_with_owner_schema:
  "schema_ok db \<Longrightarrow> schema_ok (fst (create_with_owner db now k n m i ow gh u))"
  unfolding create_with_owner_def
  by (intro then_do_schema run_statement_schema) (auto intro: createOrg_schema addMembership_schema)

lemma schema_brains:
  assumes "map b_id bs = map b_id (t_brains db)"
    and "map (\<lambda>b. (b_owner b, b_repo b)) bs = map (\<lambda>b. (b_owner b, b_repo b)) (t_brains db)"
    and "b_org ` set bs \<subseteq> o_id ` set (t_orgs db)" "(\<Union>b \<in> set bs. set_option (b_conn b)) \<subseteq> c_id ` set (t_conns db)"
    and "schema_ok db"
  shows "schema_ok (db\<lparr>t_brains := bs\<rparr>)"
proof -
  have "b_id ` set bs = b_id ` set (t_brains db)" using assms(1) by (metis set_map)
  with assms show ?thesis by (simp add: schema_unfold)
qed

lemma schema_brain_refs:
  "schema_ok db \<Longrightarrow> b_org ` set (t_brains db) \<subseteq> o_id ` set (t_orgs db)"
  "schema_ok db \<Longrightarrow> (\<Union>b \<in> set (t_brains db). set_option (b_conn b)) \<subseteq> c_id ` set (t_conns db)"
  by (simp_all add: schema_unfold)

lemma write_handle_schema:
  assumes "write_handle db b h = Inr db'" "schema_ok db"
  shows "schema_ok db'"
proof -
  let ?bs = "row_update (\<lambda>x. b_id x = b \<and> b_handle x = None) (\<lambda>x. x\<lparr>b_handle := Some h\<rparr>) (t_brains db)"
  have "schema_ok (db\<lparr>t_brains := ?bs\<rparr>)"
    using schema_brain_refs [OF assms(2)] assms(2) by (intro schema_brains) (simp_all add: image_row_update UN_row_update)
  with assms show ?thesis by (auto simp: write_handle_def split: if_splits)
qed

text \<open>The statements that write the operator's tenant.\<close>

lemma static_user_schema: "schema_ok db \<Longrightarrow> schema_ok (static_user now db)"
  by (auto simp: static_user_def intro!: schema_user)

lemma schema_orgs:
  "map o_id os = map o_id (t_orgs db) \<Longrightarrow> schema_ok db \<Longrightarrow> schema_ok (db\<lparr>t_orgs := os\<rparr>)"
proof -
  assume k: "map o_id os = map o_id (t_orgs db)"
  then have "o_id ` set os = o_id ` set (t_orgs db)" by (metis set_map)
  with k show "schema_ok db \<Longrightarrow> schema_ok (db\<lparr>t_orgs := os\<rparr>)" by (simp add: schema_unfold)
qed

lemma static_org_schema: "schema_ok db \<Longrightarrow> schema_ok (static_org now i ow db)"
  by (auto simp: static_org_def intro!: schema_orgs schema_org_only)

lemma addMembership_same:
  "addMembership db now k u r = Inr db' \<Longrightarrow> t_orgs db' = t_orgs db \<and> t_users db' = t_users db"
  by (auto simp: addMembership_def split: if_splits)

lemma static_member_schema:
  "static_member now db = Inr db' \<Longrightarrow> schema_ok db \<Longrightarrow> schema_ok db' \<and> t_orgs db' = t_orgs db"
  using addMembership_schema addMembership_same by (auto simp: static_member_def split: if_splits)

lemma static_org_there: "STATIC_ORG_ID \<in> o_id ` set (t_orgs (static_org now i ow db))"
proof (cases "\<exists>r \<in> set (t_orgs db). o_id r = STATIC_ORG_ID")
  case True
  then have "STATIC_ORG_ID \<in> o_id ` set (t_orgs db)" by force
  with True show ?thesis by (simp add: static_org_def image_row_update)
next
  case False
  then show ?thesis by (simp add: static_org_def)
qed

lemma static_conn_schema:
  assumes "static_conn c db = Inr db'" "schema_ok db"
  shows "schema_ok db' \<and> t_orgs db' = t_orgs db \<and> c_id c \<in> c_id ` set (t_conns db')"
proof (cases "\<exists>x \<in> set (t_conns db). c_id x = c_id c")
  case True
  with assms(1) have "db' = db\<lparr>t_conns := row_update (\<lambda>x. c_id x = c_id c) (\<lambda>x. x\<lparr>c_account := c_account c\<rparr>) (t_conns db)\<rparr>"
    by (simp add: static_conn_def)
  moreover have "c_id c \<in> c_id ` set (t_conns db)" using True by (metis image_eqI)
  ultimately show ?thesis using assms(2) by (simp add: schema_unfold image_row_update)
next
  case False
  with assms(1) have "db' = db\<lparr>t_conns := t_conns db @ [c]\<rparr>" by (simp add: static_conn_def split: if_splits)
  moreover have "c_id c \<notin> c_id ` set (t_conns db)" using False by auto
  ultimately show ?thesis using assms(2) by (simp add: schema_unfold subset_insertI2)
qed

lemma static_brain_schema:
  assumes run: "static_brain now c ow rp db = Inr db'" and ok: "schema_ok db"
    and og: "STATIC_ORG_ID \<in> o_id ` set (t_orgs db)" and cn: "c_id c \<in> c_id ` set (t_conns db)"
  shows "schema_ok db'"
proof (cases "\<exists>b \<in> set (t_brains db). b_owner b = ow \<and> b_repo b = rp")
  case True
  let ?bs = "row_update (\<lambda>b. b_owner b = ow \<and> b_repo b = rp)
      (\<lambda>b. b\<lparr>b_org := STATIC_ORG_ID, b_conn := Some (c_id c), b_archived := None\<rparr>) (t_brains db)"
  from True run have db': "db' = db\<lparr>t_brains := ?bs\<rparr>" by (simp add: static_brain_def Let_def)
  have "b_org ` set ?bs \<subseteq> o_id ` set (t_orgs db)"
    using schema_brain_refs(1) [OF ok] og by (auto simp: row_update_def)
  moreover have "(\<Union>b \<in> set ?bs. set_option (b_conn b)) \<subseteq> c_id ` set (t_conns db)"
    using schema_brain_refs(2) [OF ok] cn by (auto simp: row_update_def)
  ultimately show ?thesis unfolding db' using ok by (intro schema_brains) (auto simp: row_update_def)
next
  case False
  let ?b = "\<lparr>b_id = brainIdFor ow rp, b_org = STATIC_ORG_ID, b_owner = ow, b_repo = rp, b_name = None,
      b_created_by = Some STATIC_USER_ID, b_visibility = ''org'', b_created = now, b_archived = None,
      b_read_only = False, b_conn = Some (c_id c), b_handle = None\<rparr>"
  from False run have "db' = db\<lparr>t_brains := t_brains db @ [?b]\<rparr>" "b_id ?b \<notin> b_id ` set (t_brains db)"
    by (auto simp: static_brain_def Let_def split: if_splits)
  moreover have "\<forall>x \<in> set (t_brains db). \<not> (b_owner x = b_owner ?b \<and> b_repo x = b_repo ?b)" using False by auto
  ultimately show ?thesis using schema_brain [OF ok, of ?b] og cn by simp
qed

lemma ensureStaticTenant_schema:
  assumes run: "ensureStaticTenant db now ow rp cred = Inr db'" and ok: "schema_ok db"
  shows "schema_ok db'"
proof -
  let ?c = "staticConnection cred ow"
  let ?i = "case cred of Some i \<Rightarrow> i | None \<Rightarrow> 0"
  let ?db0 = "static_org now ?i ow (static_user now db)"
  have 0: "schema_ok ?db0" "STATIC_ORG_ID \<in> o_id ` set (t_orgs ?db0)"
    using ok static_org_there by (simp_all add: static_org_schema static_user_schema)
  from run obtain db1 db2 db3 where 1: "static_member now ?db0 = Inr db1" and 2: "static_conn ?c db1 = Inr db2"
    and 3: "static_brain now ?c ow rp (static_default ?c db2) = Inr db3"
    and db': "db' = db3 \<or> (\<exists>P. db' = forgetBrains db3 P)"
    by (auto simp: ensureStaticTenant_def Let_def split: sum.splits if_splits)
  have s1: "schema_ok db1" "t_orgs db1 = t_orgs ?db0"
    using static_member_schema [OF 1 0(1)] by simp_all
  have s2: "schema_ok db2" "t_orgs db2 = t_orgs db1" "c_id ?c \<in> c_id ` set (t_conns db2)"
    using static_conn_schema [OF 2 s1(1)] by simp_all
  have "schema_ok (static_default ?c db2)" "o_id ` set (t_orgs (static_default ?c db2)) = o_id ` set (t_orgs db2)"
    "t_conns (static_default ?c db2) = t_conns db2"
    using s2 by (auto simp: static_default_def image_row_update intro!: schema_orgs)
  with static_brain_schema [OF 3] 0 s1 s2 have "schema_ok db3" by simp
  with db' forgetBrains_schema show ?thesis by auto
qed

end
