(* ===== verification/Tenancy.thy ===== *)
theory Tenancy
  imports RowInvariant
begin

text \<open>
  What every history of requests keeps.  The world is the platform database and the store of
  pointers; a step is one request served by \<open>src/worker.ts\<close>, a sign-in, the completion of a link
  between two accounts, or the return from a GitHub installation.  Requests are taken one at a time.
  Two interpretations of \<open>row_invariant\<close>: no account is ever lost, and every organization has an owner.
\<close>

section \<open>No account is lost\<close>

definition account_ids :: "odb \<Rightarrow> string set" where
  "account_ids db = u_id ` set (t_users db)"

definition accounts_kept :: "string set \<Rightarrow> odb \<Rightarrow> bool" where
  "accounts_kept U db \<longleftrightarrow> schema_ok db \<and> U \<subseteq> account_ids db"

lemma account_ids_same: "t_users db' = t_users db \<Longrightarrow> account_ids db' = account_ids db"
  by (simp add: account_ids_def)

lemma accounts_of_result:
  "write_handle db b h = Inr db' \<Longrightarrow> account_ids db' = account_ids db"
  "createInvitation db now i k e r by_user br = Inr db' \<Longrightarrow> account_ids db' = account_ids db"
  "setBrainGrant db now b u r granter = Inr db' \<Longrightarrow> account_ids db' = account_ids db"
  "createBrain db now i k ow rn nm creator vis conn = Inr db' \<Longrightarrow> account_ids db' = account_ids db"
  "moveBrain db b k = Inr db' \<Longrightarrow> account_ids db' = account_ids db"
  "addMembership db now k u r = Inr db' \<Longrightarrow> account_ids db' = account_ids db"
  using addMembership_same
  by (auto simp: write_handle_def createInvitation_def setBrainGrant_def createBrain_def clearBrainResidue_def
      moveBrain_def Let_def intro!: account_ids_same split: if_splits)

lemma accounts_kept_by [simp]:
  "account_ids (fst (claimPendingInvites db now ids)) = account_ids db"
  "account_ids (setMemberRole db k u r) = account_ids db"
  "account_ids (deleteUserBrainGrantsInOrg d k u) = account_ids d"
  "account_ids (removeMembership db k u) = account_ids db"
  "account_ids (revokeInvite db k i) = account_ids db" "account_ids (cancelBrainInvites db b e) = account_ids db"
  "account_ids (removeBrainGrant db b u) = account_ids db" "account_ids (setBrainName db b nm) = account_ids db"
  "account_ids (setBrainVisibility db b v) = account_ids db" "account_ids (forgetBrain db b) = account_ids db"
  using claim_keeps_rows [of db now ids]
  by (simp_all add: account_ids_def keeps_rows_def setMemberRole_def deleteUserBrainGrantsInOrg_def removeMembership_def
      revokeInvite_def cancelBrainInvites_def removeBrainGrant_def setBrainName_def setBrainVisibility_def
      forgetBrain_def forgetBrains_def)

lemma accounts_relabelled: "map u_id us = map u_id (t_users db) \<Longrightarrow> account_ids (db\<lparr>t_users := us\<rparr>) = account_ids db"
  unfolding account_ids_def odb.simps by (drule arg_cong [of _ _ set]) simp

lemma accounts_merged:
  assumes "mergePersons db fresh u v = Inr db'"
  shows "account_ids db' = account_ids db"
proof -
  obtain a b where "getAppUser db u = Some a" "getAppUser db v = Some b"
    using assms by (cases "getAppUser db u"; cases "getAppUser db v") (simp_all add: mergePersons_def)
  with assms show ?thesis by (auto simp: mergePersons_def Let_def accounts_relabelled relabel_keys)
qed

lemma accounts_unlinked:
  assumes "unlinkIdentity db u v = Inr db'"
  shows "account_ids db' = account_ids db"
proof -
  obtain t p where t: "getAppUser db v = Some t" "Option.bind (getAppUser db u) u_person = Some p"
    using assms by (cases "getAppUser db v"; cases "Option.bind (getAppUser db u) u_person") (simp_all add: unlinkIdentity_def)
  then have "db' = db\<lparr>t_users := row_update (\<lambda>r. u_id r = v) (\<lambda>r. r\<lparr>u_person := None\<rparr>) (t_users db)\<rparr>"
    using assms by (simp add: unlinkIdentity_def split: if_splits)
  then show ?thesis by (simp add: accounts_relabelled)
qed

lemma accounts_added:
  assumes "upsertAppUser db now u e nm g = Inr db'"
  shows "account_ids db' = insert u (account_ids db)"
proof (cases "\<exists>r \<in> set (t_users db). u_id r = u")
  case True
  with assms obtain f where db': "db' = db\<lparr>t_users := row_update (\<lambda>r. u_id r = u) f (t_users db)\<rparr>" and f: "\<And>r. u_id (f r) = u_id r"
    by (auto simp: upsertAppUser_def split: if_splits)
  have "account_ids db' = account_ids db" by (simp add: db' account_ids_def image_row_update f)
  moreover have "u \<in> account_ids db" using True by (auto simp: account_ids_def)
  ultimately show ?thesis by blast
next
  case False
  with assms show ?thesis by (auto simp: upsertAppUser_def account_ids_def split: if_splits)
qed

lemma accounts_minted [simp]: "account_ids (fst (create_with_owner db now k n m i ow gh u)) = account_ids db"
proof (cases "createOrg db now k n m i ow gh u")
  case (Inl e)
  then show ?thesis by (simp add: create_with_owner_def then_do_def run_statement_def)
next
  case (Inr d)
  then have d: "account_ids d = account_ids db"
    by (auto simp: createOrg_def Let_def intro!: account_ids_same split: if_splits)
  show ?thesis
    using d accounts_of_result(6) [of d now k u Owner]
    by (cases "addMembership d now k u Owner") (simp_all add: Inr create_with_owner_def then_do_def run_statement_def)
qed

lemma accounts_operator:
  assumes "ensureStaticTenant db now ow rp cred = Inr db'"
  shows "account_ids db \<subseteq> account_ids db'"
proof -
  have u: "account_ids (static_org now i ow d) = account_ids d" "account_ids (static_default c d) = account_ids d"
    "account_ids (forgetBrains d Q) = account_ids d" for i c d Q
    by (simp_all add: static_org_def static_default_def account_ids_def forgetBrains_def)
  have v: "account_ids d' = account_ids d" if "static_member now d = Inr d'" for d d'
    using that accounts_of_result(6) by (auto simp: static_member_def split: if_splits)
  have w: "account_ids d' = account_ids d" if "static_conn c d = Inr d'" for c d d'
    using that by (auto simp: static_conn_def intro!: account_ids_same split: if_splits)
  have x: "account_ids d' = account_ids d" if "static_brain now c ow rp d = Inr d'" for c d d'
    using that by (auto simp: static_brain_def Let_def intro!: account_ids_same split: if_splits)
  have "account_ids d \<subseteq> account_ids (static_user now d)" for d
    by (auto simp: static_user_def account_ids_def)
  moreover have "account_ids db' = account_ids (static_user now db)"
    using assms by (auto simp: ensureStaticTenant_def Let_def u dest!: v w x split: sum.splits if_splits)
  ultimately show ?thesis by blast
qed

lemmas schema_rules = claimPendingInvites_schema write_handle_schema upsertAppUser_schema mergePersons_schema
  unlinkIdentity_schema create_with_owner_schema addMembership_schema setMemberRole_schema removeMembership_schema
  deleteUserBrainGrantsInOrg_schema createInvitation_schema revokeInvite_schema cancelBrainInvites_schema
  setBrainGrant_schema removeBrainGrant_schema setBrainName_schema setBrainVisibility_schema createBrain_schema
  moveBrain_schema forgetBrain_schema ensureStaticTenant_schema

interpretation accounts: row_invariant "accounts_kept U" for U
  by unfold_locales
     (auto simp: accounts_kept_def accounts_of_result accounts_merged accounts_unlinked accounts_added
        intro: schema_rules dest: accounts_operator)

section \<open>The caller of an organization tool has an account\<close>

lemma provision_membership:
  assumes "provisionOrgForUser db now uuid u e n org inst auto = (db', Inr p)"
  shows "getMembershipWithOrg db' u = Some (oc_role p, oc_org p)"
  using assms
  by (auto simp: provisionOrgForUser_def mint_org_def Let_def split: sum.splits prod.splits option.splits if_splits bool.splits)

lemma membership_row:
  assumes "getMembershipWithOrg db u = Some (r, og)"
  shows "og \<in> set (t_orgs db) \<and> (\<exists>m \<in> set (t_members db). m_org m = o_id og \<and> m_user m = u \<and> m_role m = r)"
proof -
  let ?xs = "[(m, ob). m \<leftarrow> t_members db, ob \<leftarrow> t_orgs db, o_id ob = m_org m \<and> m_user m = u]"
  obtain m rest where xs: "sort_key (\<lambda>(m, ob). (m_added m, m_org m)) ?xs = (m, og) # rest" and r: "m_role m = r"
    using assms by (auto simp: getMembershipWithOrg_def split: list.splits)
  have "(m, og) \<in> set ?xs" using arg_cong [OF xs, of set] by simp
  with r show ?thesis by auto
qed

lemma member_has_account: "schema_ok db \<Longrightarrow> m \<in> set (t_members db) \<Longrightarrow> m_user m \<in> account_ids db"
  by (auto simp: schema_unfold account_ids_def)

lemma then_Inr: "act_then m k s = (s', Inr y) \<longleftrightarrow> (\<exists>s1 x. m s = (s1, Inr x) \<and> k x s1 = (s', Inr y))"
  by (auto simp: act_then_def split: prod.splits sum.splits)

lemma of_Inr: "act_of r s = (s', Inr y) \<longleftrightarrow> s' = s \<and> r = Inr y"
  by (auto simp: act_of_def)

lemma lift_Inr: "lift_db f run s = (s', Inr y) \<longleftrightarrow> (\<exists>db. run (s_db s) = (db, Inr y) \<and> s' = s\<lparr>s_db := db\<rparr>)"
  by (auto simp: lift_db_def split: prod.splits sum.splits)

lemma person_Inr:
  "personUserIds env u s = (s1, Inr ids) \<longleftrightarrow> ids = linkedUserIds (s_db s) u \<and> s1 = claimInvites env ids s"
  by (auto simp: personUserIds_def Let_def)

lemma claims_accounts: "account_ids (s_db (claimInvites env ids s)) = account_ids (s_db s)"
  by (simp add: claimInvites_def)

lemma stranger_alone: "u \<notin> account_ids db \<Longrightarrow> linkedUserIds db u = [u]"
proof -
  assume a: "u \<notin> account_ids db"
  then have "getAppUser db u = None" by (metis account_ids_def getAppUser_exists)
  moreover have "filter (\<lambda>r. u_id r = u \<or> u_person r \<noteq> None \<and> u_person r = None) (t_users db) = []"
    using a by (auto simp: account_ids_def filter_empty_conv)
  ultimately show ?thesis by (simp add: linkedUserIds_def)
qed

lemma auto_provision_membership:
  assumes "autoProvisionOrg env u e s = (s', Inr p)"
  shows "getMembershipWithOrg (s_db s') u = Some (oc_role p, oc_org p)"
  using assms by (auto simp: autoProvisionOrg_def Let_def then_Inr of_Inr lift_Inr dest!: provision_membership)

lemma scope_Inr:
  "org_scope_of env u e r m s = (s', Inr ctx) \<Longrightarrow>
     s_db s' = s_db s \<and> os_actor ctx = u \<and> os_org ctx = snd m \<and> os_role ctx = fst m
     \<and> orgStorage (s_db s) (snd m) = Inr (os_storage ctx) \<and> assertRole (Some (fst m)) r = Inr ()"
  by (auto simp: org_scope_of_def assert_role_def map_sum_def split: sum.splits option.splits)

lemma orgContext_steps:
  assumes "orgContext env r k s = (s', Inr ctx)"
  obtains ids s2 picked s3 m where "ids = linkedUserIds (s_db s) (os_actor ctx)" "nonempty (en_user env) = Some (os_actor ctx)"
    "pick_org env ids k (claimInvites env ids s) = (s2, Inr picked)"
    "org_membership env (os_actor ctx) (case en_email env of Some e \<Rightarrow> e | None \<Rightarrow> []) picked s2 = (s3, Inr m)"
    "org_scope_of env (os_actor ctx) (case en_email env of Some e \<Rightarrow> e | None \<Rightarrow> []) r m s3 = (s', Inr ctx)"
proof -
  from assms obtain u where u: "nonempty (en_user env) = Some u"
    by (auto simp: orgContext_def of_Inr split: option.splits)
  from assms obtain s1 ids s2 picked s3 m where
    1: "personUserIds env u s = (s1, Inr ids)" "pick_org env ids k s1 = (s2, Inr picked)"
    "org_membership env u (case en_email env of Some e \<Rightarrow> e | None \<Rightarrow> []) picked s2 = (s3, Inr m)"
    "org_scope_of env u (case en_email env of Some e \<Rightarrow> e | None \<Rightarrow> []) r m s3 = (s', Inr ctx)"
    by (auto simp: orgContext_def u of_Inr then_Inr Let_def split: if_splits)
  with scope_Inr [OF 1(4)] u show thesis by (intro that) (auto simp: person_Inr)
qed

lemma picked_member:
  assumes "pick_org env ids k s = (s2, Inr (Some a))"
  shows "ao_org a \<in> set (t_orgs (s_db s)) \<and> o_suspended (ao_org a) = None
    \<and> (\<exists>m \<in> set (t_members (s_db s)). m_org m = o_id (ao_org a) \<and> m_user m \<in> set ids \<and> m_role m = ao_role a)"
proof -
  have inr: "map_sum Unchosen id x = Inr y \<longleftrightarrow> x = Inr y" for x :: "choose_error + accessible_org option" and y
    by (cases x) auto
  from assms obtain active where "resolveOrgForPerson (s_db s) ids k active = Inr (Some a)"
    by (auto simp: pick_org_def Let_def then_Inr of_Inr inr)
  with resolveOrg_exact [of "s_db s" ids k active] show ?thesis by blast
qed

lemma org_actor:
  assumes ok: "schema_ok (s_db s)" and run: "orgContext env r k s = (s', Inr ctx)"
  shows "getAppUser (s_db s') (os_actor ctx) \<noteq> None"
proof (cases "os_actor ctx \<in> account_ids (s_db s)")
  case True
  with ok have "accounts_kept {os_actor ctx} (s_db s)" by (simp add: accounts_kept_def)
  from keeps_run [OF accounts.org_context_keeps this run] show ?thesis
    unfolding getAppUser_exists accounts_kept_def account_ids_def by blast
next
  case False
  let ?u = "os_actor ctx"
  from run show ?thesis
  proof (rule orgContext_steps)
    fix ids s2 picked s3 m
    let ?e = "case en_email env of Some e \<Rightarrow> e | None \<Rightarrow> []" and ?s1 = "claimInvites env ids s"
    assume ids: "ids = linkedUserIds (s_db s) ?u" and pick: "pick_org env ids k ?s1 = (s2, Inr picked)"
      and mem: "org_membership env ?u ?e picked s2 = (s3, Inr m)" and sc: "org_scope_of env ?u ?e r m s3 = (s', Inr ctx)"
    have one: "accounts_kept {} (s_db ?s1)" using ok by (simp add: accounts_kept_def claimInvites_def claimPendingInvites_schema)
    show ?thesis
    proof (cases picked)
      case (Some a)
      from picked_member [OF pick [unfolded Some]] obtain x where "x \<in> set (t_members (s_db ?s1))" "m_user x \<in> set ids" by blast
      moreover have "ids = [?u]" using stranger_alone [OF False] ids by simp
      ultimately have "?u \<in> account_ids (s_db ?s1)" using member_has_account one by (force simp: accounts_kept_def)
      with False show ?thesis by (simp add: claims_accounts)
    next
      case None
      from keeps_run [OF accounts.pick_keeps one pick] have two: "accounts_kept {} (s_db s2)" .
      from mem obtain p where p: "autoProvisionOrg env ?u ?e s2 = (s3, Inr p)"
        by (auto simp: org_membership_def None then_Inr of_Inr split: if_splits)
      from keeps_run [OF accounts.autoProvision_keeps two p] have three: "schema_ok (s_db s3)" by (simp add: accounts_kept_def)
      from membership_row [OF auto_provision_membership [OF p]] obtain x
        where x: "x \<in> set (t_members (s_db s3))" "m_user x = ?u" by blast
      from member_has_account [OF three x(1)] x(2) have "?u \<in> account_ids (s_db s3)" by simp
      with scope_Inr [OF sc] show ?thesis unfolding getAppUser_exists account_ids_def by simp
    qed
  qed
qed

section \<open>Requests\<close>

datatype request =
    AskBrain "role option" "role option" "string option"
  | AskMembers member_call
  | AskShare string "string option" "string option" "string option" "string option"
  | AskSwitch string
  | AskBrains
  | AskCreateBrain string "string option"
  | AskConnect "string option" "string option" "string option" bool
  | AskDisconnect string
  | AskRename "string option" "string option"
  | AskCreateOrg string bool
  | AskAccounts
  | AskLink "string option"
  | AskUnlink string

text \<open>What the outside answers during a request.\<close>

record outside =
  gh_scaffold :: "string \<Rightarrow> string \<Rightarrow> scaffold_result"
  gh_repos :: "(string \<times> string) list"
  gh_reach :: "string \<Rightarrow> string \<Rightarrow> reach_result"
  gh_needs_config :: bool
  gh_probe :: "accessible_brain \<Rightarrow> setup_probe"
  js_locale :: "string \<Rightarrow> string \<Rightarrow> int"

definition member_context :: "tenant_context \<Rightarrow> brain_context" where
  "member_context ctx =
     \<lparr>cx_org = Some (tc_org ctx), cx_actor = Some (tc_actor ctx), cx_role = Some (tc_role ctx),
      cx_org_role = tc_org_role ctx\<rparr>"

definition ask_members :: "session_env \<Rightarrow> member_call \<Rightarrow> session \<Rightarrow> session" where
  "ask_members env c s =
     (case tenantContext env None None None s of
        (s1, Inl _) \<Rightarrow> s1
      | (s1, Inr ctx) \<Rightarrow> s1\<lparr>s_db := fst (member_step (s_db s1) (en_now env) (member_context ctx) c)\<rparr>)"

definition ask_share ::
  "session_env \<Rightarrow> string \<Rightarrow> string option \<Rightarrow> string option \<Rightarrow> string option \<Rightarrow> string option \<Rightarrow> session \<Rightarrow> session" where
  "ask_share env uuid email access visibility brain s =
     (case accessContext env brain s of
        (s1, Inl _) \<Rightarrow> s1
      | (s1, Inr ctx) \<Rightarrow> s1\<lparr>s_db := fst (share_brain (s_db s1) (en_now env) ctx uuid email access visibility)\<rparr>)"

fun serve :: "session_env \<Rightarrow> outside \<Rightarrow> request \<Rightarrow> session \<Rightarrow> session" where
  "serve env x (AskBrain r q b) s = fst (tenantContext env r q b s)"
| "serve env x (AskMembers c) s = ask_members env c s"
| "serve env x (AskShare i e a v b) s = ask_share env i e a v b s"
| "serve env x (AskSwitch b) s = fst (switch_brain env b s)"
| "serve env x AskBrains s = fst (brains env (gh_probe x) s)"
| "serve env x (AskCreateBrain n k) s = fst (create_brain env (gh_scaffold x) n k s)"
| "serve env x (AskConnect r k n c) s =
     fst (connect_brain env (js_locale x) (gh_repos x) (gh_reach x) (gh_needs_config x) r k n c s)"
| "serve env x (AskDisconnect b) s = fst (disconnect_brain env b s)"
| "serve env x (AskRename b n) s = fst (configure_name env b n s)"
| "serve env x (AskCreateOrg n g) s = fst (create_org_tool env n g s)"
| "serve env x AskAccounts s = fst (connected_accounts env s)"
| "serve env x (AskLink b) s = fst (link_identity env b s)"
| "serve env x (AskUnlink e) s = fst (unlink_identity env e s)"

record world =
  w_db :: odb
  w_kv :: "string \<Rightarrow> string option"

text \<open>
  \<open>mcpApiHandler\<close>: the pointer is loaded, the brain resolved once for its own tools (an error there
  is swallowed), then the tool runs in the same session.
\<close>

definition handle_request :: "session_env \<Rightarrow> outside \<Rightarrow> request \<Rightarrow> world \<Rightarrow> world" where
  "handle_request env x r w =
     (let s0 = loadActiveBrain env (open_session (w_db w) (w_kv w));
          s1 = fst (tenantContext env None None None s0);
          s2 = serve env x r s1
      in \<lparr>w_db = s_db s2, w_kv = s_kv s2\<rparr>)"

text \<open>
  \<open>resolveProductIdentity\<close> (\<open>src/lib/identity.ts\<close>), at the end of a sign-in: the account's row, and the
  identity the token carries.
\<close>

definition resolveProductIdentity ::
  "odb \<Rightarrow> nat \<Rightarrow> string \<Rightarrow> string \<Rightarrow> string option \<Rightarrow> sql_error + (odb \<times> string)" where
  "resolveProductIdentity db now userId email name =
     (if userId \<noteq> []
      then map_sum id (\<lambda>db'. (db', userId)) (upsertAppUser db now userId email name None)
      else Inr (db, email))"

text \<open>
  \<open>/link/complete\<close> (\<open>src/oauth/auth-handler.ts\<close>): \<open>waiting_actor\<close> is the account the state was stashed for,
  \<open>signed\<close> the account of the verified session.  The accounts are linked before invitations to the address
  are claimed, and a claim that fails leaves them linked.
\<close>

datatype link_outcome = LinkExpired | LinkSignIn | LinkSameAccount | LinkFailed | Linked nat

definition link_complete ::
  "odb \<Rightarrow> nat \<Rightarrow> string \<Rightarrow> string option \<Rightarrow> (string \<times> string \<times> string option) option \<Rightarrow> odb \<times> link_outcome" where
  "link_complete db now fresh waiting_actor signed =
     (case waiting_actor of
        None \<Rightarrow> (db, LinkExpired)
      | Some actor \<Rightarrow>
          (case signed of
             None \<Rightarrow> (db, LinkSignIn)
           | Some (u, e, n) \<Rightarrow>
               if u = [] \<or> e = [] then (db, LinkSignIn)
               else if u = actor \<or> (case getAppUser db actor of Some a \<Rightarrow> lower e = lower (u_email a) | None \<Rightarrow> False)
               then (db, LinkSameAccount)
               else (case upsertAppUser db now u e n None of
                 Inl _ \<Rightarrow> (db, LinkFailed)
               | Inr db1 \<Rightarrow>
                   (case mergePersons db1 fresh actor u of
                      Inl _ \<Rightarrow> (db1, LinkFailed)
                    | Inr db2 \<Rightarrow>
                        (case claimPendingInvites db2 now [u] of
                           (db3, Inl _) \<Rightarrow> (db3, Linked 0)
                         | (db3, Inr claimed) \<Rightarrow> (db3, Linked (length (filter ic_joins claimed))))))))"

text \<open>The stashed state is consumed only when the accounts are linked.\<close>

definition handle_link ::
  "nat \<Rightarrow> string \<Rightarrow> string \<Rightarrow> (string \<times> string \<times> string option) option \<Rightarrow> world \<Rightarrow> world" where
  "handle_link now fresh state signed w =
     (case link_complete (w_db w) now fresh (w_kv w (''pending_link:'' @ state)) signed of
        (db, Linked _) \<Rightarrow> \<lparr>w_db = db, w_kv = (w_kv w)(''pending_link:'' @ state := None)\<rparr>
      | (db, _) \<Rightarrow> w\<lparr>w_db := db\<rparr>)"

text \<open>
  \<open>handleOrgConnectCallback\<close> (\<open>src/worker.ts\<close>): \<open>stashed\<close> is the account and the name \<open>create_org\<close> stashed under
  the state, \<open>answer\<close> what GitHub says of the installation (\<open>None\<close> where it fails).
\<close>

definition org_connect_callback ::
  "odb \<Rightarrow> nat \<Rightarrow> string \<Rightarrow> (string \<times> string option) option \<Rightarrow> int \<Rightarrow> (string \<times> string option) option
     \<Rightarrow> odb \<times> connect_result option" where
  "org_connect_callback db now uuid stashed inst answer =
     (case (stashed, answer) of
        (Some (u, name), Some (login, account_type)) \<Rightarrow>
          (case connectCustomerOrg db now uuid u inst login account_type name of
             (db', Inr r) \<Rightarrow> (db', Some r)
           | (db', Inl _) \<Rightarrow> (db', None))
      | _ \<Rightarrow> (db, None))"

text \<open>
  The steps of a deployment.  \<open>create_org\<close> stashes the account of its caller, which exists and, as shown
  below, stays.
\<close>

inductive world_step :: "world \<Rightarrow> world \<Rightarrow> bool" where
  request: "world_step w (handle_request env x r w)"
| sign_in: "resolveProductIdentity (w_db w) now u e n = Inr (db, i) \<Longrightarrow> world_step w (w\<lparr>w_db := db\<rparr>)"
| link: "world_step w (handle_link now fresh state signed w)"
| install: "(case stashed of Some (u, _) \<Rightarrow> getAppUser (w_db w) u \<noteq> None | None \<Rightarrow> True) \<Longrightarrow>
    world_step w (w\<lparr>w_db := fst (org_connect_callback (w_db w) now uuid stashed inst answer)\<rparr>)"

definition no_rows :: odb where
  "no_rows = \<lparr>t_users = [], t_orgs = [], t_members = [], t_brains = [], t_grants = [], t_invites = [],
     t_conns = [], t_residue = []\<rparr>"

inductive reachable :: "world \<Rightarrow> bool" where
  start: "reachable \<lparr>w_db = no_rows, w_kv = (\<lambda>_. None)\<rparr>"
| step: "reachable w \<Longrightarrow> world_step w w' \<Longrightarrow> reachable w'"



section \<open>Every request keeps what the operations keep\<close>

context row_invariant
begin

lemmas act_keeps = run_act_keeps [where P = P]
lemmas statement_keeps = run_db_keeps [where P = P]

lemma list_orgs_keeps [keeping]: "keeps P (listOrgs env)"
  unfolding listOrgs_def by (intro keeping keeps_same) simp

lemma manageable_keeps [keeping]: "keeps P (manageableOrgs env)"
  unfolding manageableOrgs_def by (intro keeping)

lemma switch_keeps: "P (s_db s) \<Longrightarrow> P (s_db (fst (switch_brain env b s)))"
  unfolding switch_brain_def
  by (intro act_keeps keeping) (simp_all split: matched.splits)

lemma brains_keeps: "P (s_db s) \<Longrightarrow> P (s_db (fst (brains env probe s)))"
  unfolding brains_def Let_def by (intro act_keeps keeping) simp_all

lemma grant_creator_keeps:
  assumes "P (s_db s)" "\<And>s'. P (s_db s') \<Longrightarrow> P (s_db (fst (k s')))"
  shows "P (s_db (fst (grant_creator env b actor s k)))"
  using assms grants [OF assms(1)] by (auto simp: grant_creator_def run_db_def split: sum.splits)

lemma create_brain_keeps:
  assumes "P (s_db s)"
  shows "P (s_db (fst (create_brain env scaffold name k s)))"
proof -
  have rest: "P (s_db (fst (grant_creator env i a s2 (\<lambda>s3.
      run_act (listAccessibleBrainsForCaller env) (setActiveBrain env i s3) (\<lambda>s4 listed. (s4, f s4 listed))))))"
    if "P (s_db s2)" for s2 i a f
    by (intro grant_creator_keeps that act_keeps keeping) simp_all
  show ?thesis
    unfolding create_brain_def Let_def
    by (rule act_keeps [OF org_context_keeps assms]) (auto intro!: statement_keeps rest dest: creates [rotated] split: option.splits prod.splits)
qed

lemma move_into_keeps:
  assumes "P (s_db s)"
  shows "P (s_db (fst (moveInto env dest t c n lc s)))"
proof -
  have db: "P db" if "moveBrain (s_db s) (ab_brain_id t) (o_id (os_org dest)) = Inr db" for db
    by (rule moves [OF assms that])
  have rest: "P (s_db (fst (run_act (listAccessibleBrainsForCaller env) s2 (\<lambda>s3 listed. (s3, f s3 listed)))))"
    if "P (s_db s2)" for s2 f
    by (intro act_keeps keeping that) simp_all
  show ?thesis
    unfolding moveInto_def Let_def using assms
    by (auto intro!: statement_keeps rest names dest: db split: option.splits)
qed

lemma adopt_keeps:
  assumes "P (s_db s)"
  shows "P (s_db (fst (adopt_repo env ctx reach needs repo n s)))"
proof -
  have rest: "P (s_db (fst (grant_creator env i a s2 (\<lambda>s3.
      run_act (listAccessibleBrainsForCaller env) s3 (\<lambda>s4 listed. (s4, f s4 listed))))))"
    if "P (s_db s2)" for s2 i a f
    by (intro grant_creator_keeps that act_keeps keeping) simp_all
  show ?thesis
    unfolding adopt_repo_def Let_def using assms creates [OF assms] rest
    by (auto intro!: statement_keeps split: option.splits reach_result.splits)
qed

lemma connect_keeps:
  assumes "P (s_db s)"
  shows "P (s_db (fst (connect_brain env lc repos reach needs repo k n c s)))"
  unfolding connect_brain_def Let_def
  by (rule act_keeps [OF org_context_keeps assms])
     (auto intro!: act_keeps keeping adopt_keeps move_into_keeps split: list.splits option.splits)

lemma disconnect_keeps:
  assumes "P (s_db s)"
  shows "P (s_db (fst (disconnect_brain env b s)))"
proof -
  have rest: "P (s_db (fst (run_act (listAccessibleBrainsForCaller env) s2 (\<lambda>s3 listed. (s3, f s3 listed)))))"
    if "P (s_db s2)" for s2 f
    by (intro act_keeps keeping that) simp_all
  show ?thesis
    unfolding disconnect_brain_def Let_def
    by (intro act_keeps keeping assms) (auto intro!: rest forgets split: matched.splits option.splits)
qed

lemma rename_keeps:
  assumes "P (s_db s)"
  shows "P (s_db (fst (configure_name env b n s)))"
proof -
  have one: "P (s_db s1)" if "tenantContext env (Some Admin) None b s = (s1, r)" for s1 r
    by (rule keeps_run [OF tenant_keeps assms that])
  have two: "P (s_db s2)" if "tenantContext env (Some Admin) None b s = (s1, r)"
    "listAccessibleBrainsForCaller env s1 = (s2, q)" for s1 r s2 q
    by (rule keeps_run [OF for_caller_keeps(1) one [OF that(1)] that(2)])
  show ?thesis
    by (auto simp: configure_name_def intro!: names dest: one two split: prod.splits sum.splits option.splits)
qed

lemma create_org_tool_keeps:
  assumes "P (s_db s)"
  shows "P (s_db (fst (create_org_tool env n g s)))"
proof (cases "orgContext env None None s")
  case (Pair s1 r)
  note s1 = keeps_run [OF org_context_keeps assms Pair]
  show ?thesis
  proof (cases r)
    case (Inl e)
    with s1 show ?thesis by (simp add: create_org_tool_def Pair)
  next
    case (Inr ctx)
    have actor: "accounts_kept {os_actor ctx} (s_db s1)"
      using org_actor [OF schema [OF assms] Pair [unfolded Inr]] schema [OF s1]
      unfolding getAppUser_exists by (simp add: accounts_kept_def account_ids_def)
    obtain s2 q where q: "listOrgs env s1 = (s2, q)" by (cases "listOrgs env s1")
    note s2 = keeps_run [OF list_orgs_keeps s1 q]
    have "accounts_kept {os_actor ctx} (s_db s2)"
      by (rule keeps_run [OF accounts.list_orgs_keeps actor q])
    then have u: "getAppUser (s_db s2) (os_actor ctx) \<noteq> None"
      unfolding getAppUser_exists by (simp add: accounts_kept_def account_ids_def)
    show ?thesis
    proof (cases q)
      case (Inl e)
      with s2 show ?thesis by (simp add: create_org_tool_def Pair Inr q)
    next
      case q': (Inr mine)
      have "P (fst (create_org (s_db s2) (en_now env) (en_uuid env) (Inr (Some (os_actor ctx)) :: session_error + string option) mine env n g))"
        using u by (intro create_org_keeps s2) auto
      then show ?thesis by (simp add: create_org_tool_def Pair Inr q q' split_beta)
    qed
  qed
qed

lemma person_of_keeps: "P (s_db s) \<Longrightarrow> P (s_db (fst (person_of env s)))"
  using keeps_run [OF tenant_keeps] by (auto simp: person_of_def split: prod.splits sum.splits)

lemma accounts_keeps: "P (s_db s) \<Longrightarrow> P (s_db (fst (connected_accounts env s)))"
  using person_of_keeps [of s env] by (auto simp: connected_accounts_def split: prod.splits sum.splits)

lemma link_keeps: "P (s_db s) \<Longrightarrow> P (s_db (fst (link_identity env b s)))"
  using person_of_keeps [of s env] by (auto simp: link_identity_def split: prod.splits sum.splits option.splits)

lemma unlink_keeps:
  assumes "P (s_db s)"
  shows "P (s_db (fst (unlink_identity env e s)))"
proof -
  have one: "P (s_db s1)" if "person_of env s = (s1, r)" for s1 r
    using person_of_keeps [OF assms, of env] that by simp
  show ?thesis
    by (auto simp: unlink_identity_def dest: one unlinks [rotated] split: prod.splits sum.splits option.splits)
qed

lemma members_keeps:
  assumes "P (s_db s)"
  shows "P (s_db (ask_members env c s))"
proof -
  have one: "P (s_db s1)" if "tenantContext env None None None s = (s1, r)" for s1 r
    by (rule keeps_run [OF tenant_keeps assms that])
  show ?thesis
    by (auto simp: ask_members_def dest: one intro!: member_step_keeps split: prod.splits sum.splits)
qed

lemma share_keeps:
  assumes "P (s_db s)"
  shows "P (s_db (ask_share env i e a v b s))"
proof -
  have one: "P (s_db s1)" if "accessContext env b s = (s1, r)" for s1 r
    by (rule keeps_run [OF access_keeps assms that])
  show ?thesis
    by (auto simp: ask_share_def dest: one intro!: share_brain_keeps split: prod.splits sum.splits)
qed

lemma serve_keeps: "P (s_db s) \<Longrightarrow> P (s_db (serve env x r s))"
  by (cases r)
     (simp_all add: keepsD [OF tenant_keeps] members_keeps share_keeps switch_keeps brains_keeps create_brain_keeps
        connect_keeps disconnect_keeps rename_keeps create_org_tool_keeps accounts_keeps link_keeps unlink_keeps)

lemma request_keeps: "P (w_db w) \<Longrightarrow> P (w_db (handle_request env x r w))"
  by (simp add: handle_request_def Let_def serve_keeps keepsD [OF tenant_keeps])

lemma identity_keeps: "P db \<Longrightarrow> resolveProductIdentity db now u e n = Inr (db', i) \<Longrightarrow> P db'"
  by (cases "upsertAppUser db now u e n None") (auto simp: resolveProductIdentity_def intro: account split: if_splits)

lemma link_complete_keeps:
  assumes "P db"
  shows "P (fst (link_complete db now fresh actor signed))"
proof -
  have "P (fst (claimPendingInvites db2 now [u]))"
    if "upsertAppUser db now u e n None = Inr db1" "mergePersons db1 fresh a u = Inr db2" for u e n a db1 db2
    using claims [OF merges [OF account [OF assms that(1)] that(2)]] .
  then have claimed: "P db3"
    if "upsertAppUser db now u e n None = Inr db1" "mergePersons db1 fresh a u = Inr db2"
      "claimPendingInvites db2 now [u] = (db3, r)" for u e n a db1 db2 db3 r
    using that by (metis fst_conv)
  show ?thesis
    by (auto simp: link_complete_def assms intro: account [OF assms] dest: claimed split: option.split sum.split prod.split)
qed

lemma handle_link_keeps: "P (w_db w) \<Longrightarrow> P (w_db (handle_link now fresh state signed w))"
  using link_complete_keeps [of "w_db w" now fresh "w_kv w (''pending_link:'' @ state)" signed]
  by (auto simp: handle_link_def split: prod.split link_outcome.split)

lemma callback_keeps:
  assumes "P db" "case stashed of Some (u, _) \<Rightarrow> getAppUser db u \<noteq> None | None \<Rightarrow> True"
  shows "P (fst (org_connect_callback db now uuid stashed inst answer))"
proof -
  have "P db'" if "stashed = Some (u, nm)" "connectCustomerOrg db now uuid u inst login ty nm = (db', r)" for u nm login ty db' r
    using connect_customer_keeps [of db u now uuid inst login ty nm] assms that by simp
  then show ?thesis using assms(1) by (auto simp: org_connect_callback_def split: option.split sum.split prod.split)
qed

lemma step_keeps: "world_step w w' \<Longrightarrow> P (w_db w) \<Longrightarrow> P (w_db w')"
  by (induction rule: world_step.induct)
     (auto simp: request_keeps handle_link_keeps intro: identity_keeps callback_keeps)

lemma reachable_keeps: "reachable w \<Longrightarrow> P no_rows \<Longrightarrow> P (w_db w)"
  by (induction rule: reachable.induct) (auto intro: step_keeps)

end

end
