(* ===== verification/Governance.thy ===== *)
theory Governance
  imports Tenancy
begin

text \<open>
  Every organization has an owner, after any history of requests.  The second interpretation of
  \<open>row_invariant\<close>, and what follows for the brains: each has someone who may share it.
\<close>

section \<open>The invariant\<close>

definition org_ids :: "odb \<Rightarrow> string set" where
  "org_ids db = o_id ` set (t_orgs db)"

definition owned :: "odb \<Rightarrow> bool" where
  "owned db \<longleftrightarrow> (\<forall>k \<in> org_ids db. \<exists>u. getMemberRole db k u = Some Owner)"

definition governed :: "odb \<Rightarrow> bool" where
  "governed db \<longleftrightarrow> schema_ok db \<and> owned db"

lemma owned_mono:
  "owned db \<Longrightarrow> org_ids db' \<subseteq> org_ids db \<Longrightarrow>
     (\<And>k u. getMemberRole db k u = Some Owner \<Longrightarrow> getMemberRole db' k u = Some Owner) \<Longrightarrow> owned db'"
  unfolding owned_def by blast

lemma owned_same: "t_orgs db' = t_orgs db \<Longrightarrow> t_members db' = t_members db \<Longrightarrow> owned db' = owned db"
  by (simp add: owned_def org_ids_def getMemberRole_def)

lemma owned_rest [simp]:
  "owned (revokeInvite db k i) = owned db" "owned (cancelBrainInvites db b e) = owned db"
  "owned (removeBrainGrant db b u) = owned db" "owned (setBrainName db b nm) = owned db"
  "owned (setBrainVisibility db b v) = owned db" "owned (forgetBrain db b) = owned db" "owned (forgetBrains db Q) = owned db"
  "owned (deleteUserBrainGrantsInOrg db k u) = owned db" "owned (static_user now db) = owned db"
  by (rule owned_same; simp add: revokeInvite_def cancelBrainInvites_def removeBrainGrant_def setBrainName_def
      setBrainVisibility_def forgetBrain_def forgetBrains_def deleteUserBrainGrantsInOrg_def static_user_def)+

lemma owned_result:
  "write_handle db b h = Inr db' \<Longrightarrow> owned db' = owned db"
  "createInvitation db now i k e r by_user br = Inr db' \<Longrightarrow> owned db' = owned db"
  "setBrainGrant db now b u r granter = Inr db' \<Longrightarrow> owned db' = owned db"
  "createBrain db now i k ow rn nm creator vis conn = Inr db' \<Longrightarrow> owned db' = owned db"
  "moveBrain db b k = Inr db' \<Longrightarrow> owned db' = owned db"
  "upsertAppUser db now u e nm g = Inr db' \<Longrightarrow> owned db' = owned db"
  "mergePersons db fresh u v = Inr db' \<Longrightarrow> owned db' = owned db"
  "unlinkIdentity db u v = Inr db' \<Longrightarrow> owned db' = owned db"
  by (auto simp: write_handle_def createInvitation_def setBrainGrant_def createBrain_def clearBrainResidue_def
      moveBrain_def upsertAppUser_def mergePersons_def unlinkIdentity_def Let_def intro!: owned_same
      split: if_splits option.splits)

section \<open>The statements that touch a membership or an organization\<close>

lemma getMemberRole_grows:
  assumes "keys_ok db'" "set (t_members db) \<subseteq> set (t_members db')" "getMemberRole db k u = Some r"
  shows "getMemberRole db' k u = Some r"
proof -
  from getMemberRole_Some [OF assms(3)] obtain m where m: "m \<in> set (t_members db)" "m_org m = k" "m_user m = u" "m_role m = r"
    by blast
  then have "m \<in> set (t_members db')" using assms(2) by blast
  from getMemberRole_row [OF assms(1) this] m show ?thesis by simp
qed

lemma owned_claims: "governed db \<Longrightarrow> owned (fst (claimPendingInvites db now ids))"
proof -
  assume g: "governed db"
  let ?db = "fst (claimPendingInvites db now ids)"
  have k: "keys_ok ?db" using g claimPendingInvites_schema by (auto simp: governed_def)
  have "set (t_members db) \<subseteq> set (t_members ?db)" "t_orgs ?db = t_orgs db"
    using claim_keeps_rows [of db now ids] by (simp_all add: keeps_rows_def)
  with g getMemberRole_grows [OF k] show ?thesis
    unfolding governed_def by (elim conjE owned_mono) (simp_all add: org_ids_def)
qed

lemma owned_joins:
  assumes "addMembership db now k u r = Inr db'" "getMemberRole db k u = None \<or> r = Owner" "owned db"
  shows "owned db'"
  using assms(3)
proof (rule owned_mono)
  show "org_ids db' \<subseteq> org_ids db" using addMembership_same [OF assms(1)] by (simp add: org_ids_def)
  show "getMemberRole db' k' u' = Some Owner" if "getMemberRole db k' u' = Some Owner" for k' u'
    using that assms(2) by (auto simp: getMemberRole_addMembership [OF assms(1)])
qed

lemma owned_regrades: "getMemberRole db k u \<noteq> Some Owner \<Longrightarrow> owned db \<Longrightarrow> owned (setMemberRole db k u r)"
  by (erule owned_mono) (auto simp: getMemberRole_setMemberRole org_ids_def, simp add: setMemberRole_def)

lemma owned_leaves: "getMemberRole db k u \<noteq> Some Owner \<Longrightarrow> owned db \<Longrightarrow> owned (removeMembership db k u)"
  by (erule owned_mono) (auto simp: getMemberRole_removeMembership org_ids_def, simp add: removeMembership_def)

text \<open>A new organization is given its owner in the next statement, which cannot fail.\<close>

lemma addMembership_succeeds:
  "k \<in> org_ids db \<Longrightarrow> u \<in> account_ids db \<Longrightarrow> \<exists>db'. addMembership db now k u r = Inr db'"
  by (auto simp: addMembership_def org_ids_def account_ids_def)

lemma owned_with_new:
  assumes "owned db" "org_ids d = insert k (org_ids db)" "getMemberRole d = getMemberRole db"
    and add: "addMembership d now k u Owner = Inr d'"
  shows "owned d'"
  unfolding owned_def
proof
  fix x assume "x \<in> org_ids d'"
  then have "x = k \<or> x \<in> org_ids db" using addMembership_same [OF add] assms(2) by (auto simp: org_ids_def)
  then show "\<exists>v. getMemberRole d' x v = Some Owner"
    using assms(1,3) by (auto simp: owned_def getMemberRole_addMembership [OF add])
qed

lemma owned_mints:
  assumes "governed db" "getAppUser db u \<noteq> None"
  shows "owned (fst (create_with_owner db now k n m i ow gh u))"
proof (cases "createOrg db now k n m i ow gh u")
  case (Inl e)
  with assms show ?thesis by (simp add: create_with_owner_def then_do_def run_statement_def governed_def)
next
  case (Inr d)
  then have d: "org_ids d = insert k (org_ids db)" "t_members d = t_members db" "t_users d = t_users db"
    by (auto simp: createOrg_def Let_def org_ids_def split: if_splits)
  have "u \<in> account_ids d" using assms(2) unfolding getAppUser_exists account_ids_def d(3) .
  with addMembership_succeeds [of k d u now Owner] d obtain d' where add: "addMembership d now k u Owner = Inr d'" by auto
  have "getMemberRole d = getMemberRole db" by (intro ext getMemberRole_same_members d(2))
  from owned_with_new [OF _ d(1) this add] assms show ?thesis
    by (simp add: Inr add create_with_owner_def then_do_def run_statement_def governed_def)
qed

lemma member_has_org: "schema_ok db \<Longrightarrow> m \<in> set (t_members db) \<Longrightarrow> m_org m \<in> org_ids db"
  by (auto simp: schema_unfold org_ids_def)

text \<open>
  The two statements that make an organization are not one batch: between them it has no member, and a
  database that fails there leaves it so.
\<close>

lemma unowned_between:
  assumes "schema_ok db" "createOrg db now k n m i ow gh u = Inr d"
  shows "k \<in> org_ids d \<and> getMemberRole d k v = None"
proof -
  have d: "org_ids d = insert k (org_ids db)" "k \<notin> org_ids db" "t_members d = t_members db"
    using assms(2) by (auto simp: createOrg_def Let_def org_ids_def split: if_splits)
  have "getMemberRole db k v = None"
  proof (rule ccontr)
    assume "getMemberRole db k v \<noteq> None"
    then obtain r where "getMemberRole db k v = Some r" by blast
    from getMemberRole_Some [OF this] obtain x where "x \<in> set (t_members db)" "m_org x = k" by blast
    with member_has_org [OF assms(1)] d(2) show False by metis
  qed
  then show ?thesis by (simp add: d getMemberRole_same_members [OF d(3)])
qed

lemma static_org_ids: "org_ids (static_org now i ow db) = insert STATIC_ORG_ID (org_ids db)"
proof (cases "\<exists>r \<in> set (t_orgs db). o_id r = STATIC_ORG_ID")
  case True
  then have "STATIC_ORG_ID \<in> org_ids db" unfolding org_ids_def by force
  with True show ?thesis by (simp add: static_org_def org_ids_def image_row_update insert_absorb)
next
  case False
  then show ?thesis by (simp add: static_org_def org_ids_def)
qed

lemma owned_operator:
  assumes run: "ensureStaticTenant db now ow rp cred = Inr db'" and g: "governed db"
  shows "owned db'"
proof -
  let ?c = "staticConnection cred ow" and ?i = "case cred of Some i \<Rightarrow> i | None \<Rightarrow> 0"
  let ?start = "static_user now db"
  let ?d = "static_org now ?i ow ?start"
  from run obtain d1 d2 d3 where 1: "static_member now ?d = Inr d1" and 2: "static_conn ?c d1 = Inr d2"
    and 3: "static_brain now ?c ow rp (static_default ?c d2) = Inr d3"
    and db': "db' = d3 \<or> (\<exists>P. db' = forgetBrains d3 P)"
    by (auto simp: ensureStaticTenant_def Let_def split: sum.splits if_splits)
  have g0: "owned ?start" "schema_ok ?start" using g by (simp_all add: governed_def static_user_schema)
  have m: "t_members ?d = t_members ?start" by (simp add: static_org_def)
  then have gm: "getMemberRole ?d = getMemberRole ?start" by (intro ext getMemberRole_same_members)
  have "owned d1"
  proof (cases "STATIC_ORG_ID \<in> org_ids ?start")
    case True
    then have ids: "org_ids ?d = org_ids ?start" by (simp add: static_org_ids insert_absorb)
    then have d: "owned ?d" using g0(1) gm by (simp add: owned_def)
    show ?thesis
    proof (cases "getMemberRole ?d STATIC_ORG_ID STATIC_USER_ID")
      case None
      with 1 have "addMembership ?d now STATIC_ORG_ID STATIC_USER_ID Owner = Inr d1" by (simp add: static_member_def)
      from owned_joins [OF this _ d] show ?thesis by simp
    next
      case (Some r)
      with 1 d show ?thesis by (simp add: static_member_def)
    qed
  next
    case False
    have ids: "org_ids ?d = insert STATIC_ORG_ID (org_ids ?start)" by (rule static_org_ids)
    have "getMemberRole ?d STATIC_ORG_ID STATIC_USER_ID = None"
    proof (rule ccontr)
      assume "getMemberRole ?d STATIC_ORG_ID STATIC_USER_ID \<noteq> None"
      then obtain r where "getMemberRole ?start STATIC_ORG_ID STATIC_USER_ID = Some r" unfolding gm by blast
      from getMemberRole_Some [OF this] obtain x where "x \<in> set (t_members ?start)" "m_org x = STATIC_ORG_ID" by blast
      with member_has_org [OF g0(2)] False show False by metis
    qed
    with 1 have "addMembership ?d now STATIC_ORG_ID STATIC_USER_ID Owner = Inr d1" by (simp add: static_member_def)
    from owned_with_new [OF g0(1) ids gm this] show ?thesis .
  qed
  moreover have "owned d2 = owned d1"
    using 2 by (auto simp: static_conn_def intro!: owned_same split: if_splits)
  moreover have "owned (static_default ?c d2) = owned d2"
    by (simp add: owned_def org_ids_def static_default_def getMemberRole_def image_row_update)
  moreover have "owned d3 = owned (static_default ?c d2)"
    using 3 by (auto simp: static_brain_def Let_def intro!: owned_same split: if_splits)
  ultimately show ?thesis using db' by auto
qed

interpretation ownership: row_invariant governed
proof unfold_locales
  fix db assume "governed db"
  then show "schema_ok db" by (simp add: governed_def)
qed (auto simp: governed_def owned_result intro: schema_rules owned_claims [unfolded governed_def] owned_mints [unfolded governed_def]
      owned_joins owned_regrades owned_leaves owned_operator [unfolded governed_def])

section \<open>What every history keeps\<close>

lemma no_rows_governed: "governed no_rows"
  by (simp add: governed_def owned_def org_ids_def no_rows_def schema_unfold)

lemma reachable_governed: "reachable w \<Longrightarrow> governed (w_db w)"
  by (rule ownership.reachable_keeps [OF _ no_rows_governed])

text \<open>
  C1. After any history of requests, sign-ins, completed account links and GitHub installations, whatever
  GitHub answers and whatever statements the constraints of the schema refuse, the keys and the references
  of the schema hold and every organization has a member whose role is owner.  (That the database itself
  does not fail between two statements is assumed: see \<open>unowned_between\<close>.)
\<close>

theorem every_organization_has_an_owner:
  assumes "reachable w"
  shows "schema_ok (w_db w)
    \<and> (\<forall>og \<in> set (t_orgs (w_db w)). \<exists>m \<in> set (t_members (w_db w)). m_org m = o_id og \<and> m_role m = Owner)"
  using reachable_governed [OF assms] getMemberRole_Some
  unfolding governed_def owned_def org_ids_def by (metis imageI)

text \<open>
  C2. No brain is ever out of reach: after any such history, each brain has an account whose authority to
  share it is at least an admin's, whatever grants were revoked and however its visibility was set.
\<close>

theorem no_brain_is_orphaned:
  assumes "reachable w" "b \<in> set (t_brains (w_db w))"
  shows "\<exists>u \<in> set (t_users (w_db w)). \<exists>a. Admin \<le> a
    \<and> sharingAuthority (role_on (w_db w) (u_id u) (b_id b)) (getMemberRole (w_db w) (b_org b) (u_id u)) = Some a"
proof -
  let ?db = "w_db w"
  from reachable_governed [OF assms(1)] have ok: "schema_ok ?db" and own: "owned ?db" by (simp_all add: governed_def)
  have "b_org b \<in> org_ids ?db" using schema_brain_refs(1) [OF ok] assms(2) by (auto simp: org_ids_def)
  with own obtain u where u: "getMemberRole ?db (b_org b) u = Some Owner" by (auto simp: owned_def)
  from getMemberRole_Some [OF this] obtain m where "m \<in> set (t_members ?db)" "m_user m = u" by blast
  with member_has_account [OF ok] have "u \<in> u_id ` set (t_users ?db)" by (auto simp: account_ids_def)
  then obtain x where x: "x \<in> set (t_users ?db)" "u_id x = u" by blast
  have "\<exists>a. Admin \<le> a \<and> sharingAuthority r (Some Owner) = Some a" for r
    by (cases r) (auto simp: sharingAuthority_def stewardsBrain_def maxRole_max le_max_iff_disj)
  with u x(2) show ?thesis by (intro bexI [OF _ x(1)]) simp
qed

text \<open>A deployment with one user: the first request writes its organization and its brain.\<close>

definition single_user :: session_env where
  "single_user =
     \<lparr>env_slug = None, env_auto_provision = None, env_platform_org = None, env_platform_installation = None,
      en_mode = ''static'', en_user = None, en_email = None, en_static = Some (''acme'', ''wiki'', None),
      en_token = Some ''t'', en_draw = (\<lambda>_ _ _. ''3fa9c2''), en_uuid = ''u1'', en_now = 1, en_kv = True\<rparr>"

definition quiet :: outside where
  "quiet = \<lparr>gh_scaffold = (\<lambda>_ _. ScaffoldFailed), gh_repos = [], gh_reach = (\<lambda>_ _. ReachError), gh_needs_config = False,
     gh_probe = (\<lambda>_. \<lparr>sp_indexed = None, sp_refreshed = None, sp_needs = None, sp_request = None\<rparr>),
     js_locale = code_unit_cmp\<rparr>"

definition first_world :: world where
  "first_world = handle_request single_user quiet AskAccounts \<lparr>w_db = no_rows, w_kv = (\<lambda>_. None)\<rparr>"

lemma first_world_reachable: "reachable first_world"
  unfolding first_world_def by (rule reachable.step [OF reachable.start world_step.request])

lemma first_world_brains: "map b_id (t_brains (w_db first_world)) = [''brain-acme-wiki'']"
  by code_simp

lemma first_world_orgs: "map o_id (t_orgs (w_db first_world)) = [''static'']"
  by code_simp

theorem every_organization_has_an_owner_witness:
  "\<exists>og \<in> set (t_orgs (w_db first_world)). o_id og = ''static''
     \<and> (\<exists>m \<in> set (t_members (w_db first_world)). m_org m = o_id og \<and> m_role m = Owner)"
proof -
  have "''static'' \<in> set (map o_id (t_orgs (w_db first_world)))" by (simp only: first_world_orgs list.set insertI1)
  then obtain og where "og \<in> set (t_orgs (w_db first_world))" "o_id og = ''static''" by auto
  with every_organization_has_an_owner [OF first_world_reachable] show ?thesis by blast
qed

theorem no_brain_is_orphaned_witness:
  "\<exists>b \<in> set (t_brains (w_db first_world)). b_id b = ''brain-acme-wiki''
     \<and> (\<exists>u \<in> set (t_users (w_db first_world)). \<exists>a. Admin \<le> a
          \<and> sharingAuthority (role_on (w_db first_world) (u_id u) (b_id b))
               (getMemberRole (w_db first_world) (b_org b) (u_id u)) = Some a)"
proof -
  have "''brain-acme-wiki'' \<in> set (map b_id (t_brains (w_db first_world)))"
    by (simp only: first_world_brains list.set insertI1)
  then obtain b where b: "b \<in> set (t_brains (w_db first_world))" "b_id b = ''brain-acme-wiki''" by auto
  from no_brain_is_orphaned [OF first_world_reachable b(1)] b show ?thesis by blast
qed

end
