(* ===== verification/Json.thy ===== *)
theory Json
  imports JsNumber
begin

text \<open>
  \<open>JSON.stringify\<close> and \<open>JSON.parse\<close> of ECMAScript.  A number is the text it is written as; a \<open>\u\<close> escape past
  Latin-1 is well formed, and the code unit it names, which has no character in the development's range, is
  read as the substitute character \<open>BEYOND\<close>.  The parser takes fuel; twice
  the length of the text is enough (\<open>json_fuel\<close>).
\<close>

text \<open>A value as \<open>JSON.stringify\<close> sees it; a number is its decimal text.\<close>

datatype js_value =
    JUndefined
  | JNull
  | JBool bool
  | JNum string
  | JStr string
  | JArr "js_value list"
  | JObj "(string \<times> js_value) list"

definition json_char :: "char \<Rightarrow> string" where
  "json_char c =
     (if c = DQUOTE then [BACKSLASH, DQUOTE]
      else if c = BACKSLASH then [BACKSLASH, BACKSLASH]
      else if code c = 8 then BACKSLASH # ''b'' else if code c = 9 then BACKSLASH # ''t''
      else if code c = 10 then BACKSLASH # ''n'' else if code c = 12 then BACKSLASH # ''f''
      else if code c = 13 then BACKSLASH # ''r''
      else if code c < 32
      then BACKSLASH # ''u00'' @ [if code c < 16 then CHR ''0'' else CHR ''1'', ''0123456789abcdef'' ! (code c mod 16)]
      else [c])"

definition json_quote :: "string \<Rightarrow> string" where
  "json_quote s = [DQUOTE] @ concat (map json_char s) @ [DQUOTE]"

section \<open>Writing\<close>

text \<open>The line break and indentation of a value written with a gap; nothing without one.\<close>

definition json_break :: "string \<Rightarrow> string \<Rightarrow> string" where
  "json_break gap ind = (if gap = [] then [] else NL # ind)"

definition json_colon :: "string \<Rightarrow> string" where
  "json_colon gap = (if gap = [] then '':'' else '': '')"

fun json_text :: "string \<Rightarrow> string \<Rightarrow> js_value \<Rightarrow> string" where
  "json_text gap ind JUndefined = ''null''"
| "json_text gap ind JNull = ''null''"
| "json_text gap ind (JBool b) = (if b then ''true'' else ''false'')"
| "json_text gap ind (JNum n) = n"
| "json_text gap ind (JStr s) = json_quote s"
| "json_text gap ind (JArr vs) =
     (if vs = [] then ''[]''
      else ''['' @ json_break gap (ind @ gap)
           @ join_with ('','' @ json_break gap (ind @ gap)) (map (json_text gap (ind @ gap)) vs)
           @ json_break gap ind @ '']'')"
| "json_text gap ind (JObj es) =
     (let ms = map (\<lambda>(k, v). json_quote k @ json_colon gap @ json_text gap (ind @ gap) v)
                 (filter (\<lambda>(k, v). v \<noteq> JUndefined) es) in
      if ms = [] then ''{}''
      else ''{'' @ json_break gap (ind @ gap) @ join_with ('','' @ json_break gap (ind @ gap)) ms
           @ json_break gap ind @ ''}'')"

definition json_stringify :: "js_value \<Rightarrow> string" where
  "json_stringify v = json_text [] [] v"

text \<open>\<open>JSON.stringify(v, null, 2)\<close>\<close>

definition json_pretty :: "js_value \<Rightarrow> string" where
  "json_pretty v = json_text ''  '' [] v"

section \<open>Reading\<close>

definition json_space :: "char \<Rightarrow> bool" where
  "json_space c \<longleftrightarrow> code c \<in> {9, 10, 13, 32}"

definition json_ws :: "string \<Rightarrow> string" where
  "json_ws s = dropWhile json_space s"

definition json_unescape :: "char \<Rightarrow> char option" where
  "json_unescape c =
     (if c \<in> {DQUOTE, BACKSLASH, SLASH} then Some c
      else if c = CHR ''b'' then Some (char_of (8 :: nat)) else if c = CHR ''t'' then Some (char_of (9 :: nat))
      else if c = CHR ''n'' then Some NL else if c = CHR ''f'' then Some (char_of (12 :: nat))
      else if c = CHR ''r'' then Some CR else None)"

text \<open>The four digits of a \<open>\u\<close> escape; a code unit past Latin-1 is read as a substitute.\<close>

definition BEYOND :: char where "BEYOND = CHR 0x1A"

definition json_hex :: "string \<Rightarrow> char option" where
  "json_hex s =
     (let ds = take 4 s in
      if length ds = 4 \<and> list_all (is_base_digit 16) ds
      then Some (if base_value 16 ds < 256 then char_of (base_value 16 ds) else BEYOND) else None)"

definition json_cons :: "char \<Rightarrow> (string \<times> string) option \<Rightarrow> (string \<times> string) option" where
  "json_cons c r = map_option (\<lambda>(t, u). (c # t, u)) r"

text \<open>The rest of a string literal, past its opening quote.\<close>

fun json_string :: "string \<Rightarrow> (string \<times> string) option" where
  "json_string [] = None"
| "json_string (c # cs) =
     (if c = DQUOTE then Some ([], cs)
      else if c = BACKSLASH then
        (case cs of
           [] \<Rightarrow> None
         | x # r \<Rightarrow>
             (if x = CHR ''u'' then (case json_hex r of None \<Rightarrow> None | Some d \<Rightarrow> json_cons d (json_string (drop 4 r)))
              else (case json_unescape x of None \<Rightarrow> None | Some d \<Rightarrow> json_cons d (json_string r))))
      else if code c < 32 then None
      else json_cons c (json_string cs))"

definition json_int :: "string \<Rightarrow> (string \<times> string) option" where
  "json_int s =
     (let ds = takeWhile is_digit s in
      if ds = [] then None
      else if hd ds = CHR ''0'' then Some (''0'', tl s)
      else Some (ds, dropWhile is_digit s))"

definition json_frac :: "string \<Rightarrow> (string \<times> string) option" where
  "json_frac s =
     (if s \<noteq> [] \<and> hd s = CHR ''.''
      then (if takeWhile is_digit (tl s) = [] then None
            else Some (hd s # takeWhile is_digit (tl s), dropWhile is_digit (tl s)))
      else Some ([], s))"

definition json_exp :: "string \<Rightarrow> (string \<times> string) option" where
  "json_exp s =
     (if s \<noteq> [] \<and> hd s \<in> {CHR ''e'', CHR ''E''}
      then let sign = take 1 (takeWhile (\<lambda>c. c \<in> {CHR ''+'', DASH}) (tl s));
               r = drop (length sign) (tl s)
           in if takeWhile is_digit r = [] then None
              else Some (hd s # sign @ takeWhile is_digit r, dropWhile is_digit r)
      else Some ([], s))"

definition json_number :: "string \<Rightarrow> (string \<times> string) option" where
  "json_number s =
     (let neg = take 1 (takeWhile (\<lambda>c. c = DASH) s) in
      Option.bind (json_int (drop (length neg) s))
        (\<lambda>(i, r1). Option.bind (json_frac r1)
           (\<lambda>(f, r2). map_option (\<lambda>(e, r3). (neg @ i @ f @ e, r3)) (json_exp r2))))"

definition json_word :: "string \<Rightarrow> js_value \<Rightarrow> string \<Rightarrow> (js_value \<times> string) option" where
  "json_word w v s = (if starts_with s w then Some (v, drop (length w) s) else None)"

fun json_value :: "nat \<Rightarrow> string \<Rightarrow> (js_value \<times> string) option"
  and json_elems :: "nat \<Rightarrow> string \<Rightarrow> (js_value list \<times> string) option"
  and json_members :: "nat \<Rightarrow> string \<Rightarrow> ((string \<times> js_value) list \<times> string) option" where
  "json_value 0 s = None"
| "json_value (Suc n) s =
     (case json_ws s of
        [] \<Rightarrow> None
      | c # cs \<Rightarrow>
          if c = DQUOTE then map_option (\<lambda>(t, r). (JStr t, r)) (json_string cs)
          else if c = CHR ''['' then
            (case json_ws cs of
               [] \<Rightarrow> None
             | d # ds \<Rightarrow> if d = CHR '']'' then Some (JArr [], ds)
                         else map_option (\<lambda>(vs, r). (JArr vs, r)) (json_elems n (d # ds)))
          else if c = CHR ''{'' then
            (case json_ws cs of
               [] \<Rightarrow> None
             | d # ds \<Rightarrow> if d = CHR ''}'' then Some (JObj [], ds)
                         else map_option (\<lambda>(es, r). (JObj (obj_spread [] es), r)) (json_members n (d # ds)))
          else if c = CHR ''t'' then json_word ''true'' (JBool True) (c # cs)
          else if c = CHR ''f'' then json_word ''false'' (JBool False) (c # cs)
          else if c = CHR ''n'' then json_word ''null'' JNull (c # cs)
          else map_option (\<lambda>(t, r). (JNum t, r)) (json_number (c # cs)))"
| "json_elems 0 s = None"
| "json_elems (Suc n) s =
     (case json_value n s of
        None \<Rightarrow> None
      | Some (v, r) \<Rightarrow>
          (case json_ws r of
             [] \<Rightarrow> None
           | d # ds \<Rightarrow> if d = CHR '']'' then Some ([v], ds)
                       else if d = CHR '','' then map_option (\<lambda>(vs, u). (v # vs, u)) (json_elems n ds)
                       else None))"
| "json_members 0 s = None"
| "json_members (Suc n) s =
     (case json_ws s of
        [] \<Rightarrow> None
      | c # cs \<Rightarrow>
          if c \<noteq> DQUOTE then None
          else (case json_string cs of
            None \<Rightarrow> None
          | Some (k, r) \<Rightarrow>
              (case json_ws r of
                 [] \<Rightarrow> None
               | e # es \<Rightarrow>
                   if e \<noteq> CHR '':'' then None
                   else (case json_value n es of
                     None \<Rightarrow> None
                   | Some (v, u) \<Rightarrow>
                       (case json_ws u of
                          [] \<Rightarrow> None
                        | d # ds \<Rightarrow> if d = CHR ''}'' then Some ([(k, v)], ds)
                                    else if d = CHR '','' then map_option (\<lambda>(ms, x). ((k, v) # ms, x)) (json_members n ds)
                                    else None)))))"

definition json_parse :: "string \<Rightarrow> js_value option" where
  "json_parse s =
     (case json_value (Suc (2 * length s)) s of
        Some (v, r) \<Rightarrow> if json_ws r = [] then Some v else None
      | None \<Rightarrow> None)"

section \<open>What is written reads back\<close>

text \<open>Every character of a literal.\<close>

definition hex_escape :: "nat \<Rightarrow> string" where
  "hex_escape n = ''00'' @ [if n < 16 then CHR ''0'' else CHR ''1'', ''0123456789abcdef'' ! (n mod 16)]"

lemma json_hex_escape: "n < 32 \<Longrightarrow> json_hex (hex_escape n @ t) = Some (char_of n)"
proof -
  assume "n < 32"
  have "\<forall>n \<in> {0..<32}. json_hex (hex_escape n) = Some (char_of n)" by code_simp
  with \<open>n < 32\<close> have "json_hex (hex_escape n) = Some (char_of n)" by simp
  moreover have "length (hex_escape n) = 4" by (simp add: hex_escape_def)
  ultimately show ?thesis by (simp add: json_hex_def)
qed

lemma char_codeI: "code c = (n :: nat) \<Longrightarrow> c = char_of n"
  by (metis char_of_char)

lemma char_of_breaks: "char_of (10 :: nat) = NL" "char_of (13 :: nat) = CR"
  by code_simp+

lemma json_string_char: "json_string (json_char c @ t) = json_cons c (json_string t)"
proof -
  consider (quote) "c = DQUOTE" | (slash) "c = BACKSLASH"
    | (short) "c \<noteq> DQUOTE" "c \<noteq> BACKSLASH" "code c \<in> {8, 9, 10, 12, 13 :: nat}"
    | (control) "c \<noteq> DQUOTE" "c \<noteq> BACKSLASH" "code c \<notin> {8, 9, 10, 12, 13 :: nat}" "code c < (32 :: nat)"
    | (plain) "c \<noteq> DQUOTE" "c \<noteq> BACKSLASH" "\<not> code c < (32 :: nat)" by blast
  then show ?thesis
  proof cases
    case short
    then consider "c = char_of (8 :: nat)" | "c = char_of (9 :: nat)" | "c = char_of (10 :: nat)"
      | "c = char_of (12 :: nat)" | "c = char_of (13 :: nat)" using char_codeI by blast
    then show ?thesis by cases (simp_all add: json_char_def json_unescape_def char_of_breaks)
  next
    case control
    have "json_char c = BACKSLASH # CHR ''u'' # hex_escape (code c)"
      using control by (simp add: json_char_def hex_escape_def)
    moreover have "drop 4 (hex_escape (code c) @ t) = t" by (simp add: hex_escape_def)
    ultimately show ?thesis using json_hex_escape [OF control(4), of t] by simp
  next
    case plain
    then show ?thesis by (simp add: json_char_def)
  qed (simp_all add: json_char_def json_unescape_def)
qed

lemma json_string_quote: "json_string (concat (map json_char s) @ DQUOTE # rest) = Some (s, rest)"
proof (induction s)
  case Nil
  then show ?case by simp
next
  case (Cons c s)
  have "concat (map json_char (c # s)) @ DQUOTE # rest = json_char c @ concat (map json_char s) @ DQUOTE # rest" by simp
  then show ?case using Cons by (simp only: json_string_char) (simp add: json_cons_def)
qed

text \<open>Integers.\<close>

definition json_int_literal :: "string \<Rightarrow> bool" where
  "json_int_literal n \<longleftrightarrow>
     (let ds = (if n \<noteq> [] \<and> hd n = DASH then tl n else n)
      in ds \<noteq> [] \<and> list_all is_digit ds \<and> (hd ds = CHR ''0'' \<longrightarrow> ds = ''0''))"

definition follows :: "string \<Rightarrow> bool" where
  "follows r \<longleftrightarrow> r = [] \<or> \<not> is_digit (hd r) \<and> hd r \<notin> {CHR ''.'', CHR ''e'', CHR ''E''}"

lemma json_int_read:
  assumes "ds \<noteq> []" "list_all is_digit ds" "hd ds = CHR ''0'' \<longrightarrow> ds = ''0''" "follows r"
  shows "json_int (ds @ r) = Some (ds, r)"
proof -
  have "\<forall>c \<in> set ds. is_digit c" using assms(2) by (simp add: list_all_iff)
  moreover have "takeWhile is_digit r = []" "dropWhile is_digit r = r"
    using assms(4) by (cases r; auto simp: follows_def)+
  ultimately have "takeWhile is_digit (ds @ r) = ds" "dropWhile is_digit (ds @ r) = r" by simp_all
  with assms(1,3) show ?thesis by (auto simp: json_int_def)
qed

lemma json_number_read:
  assumes "json_int_literal n" "follows r" shows "json_number (n @ r) = Some (n, r)"
proof -
  have rest: "json_frac r = Some ([], r)" "json_exp r = Some ([], r)"
    using assms(2) by (auto simp: follows_def json_frac_def json_exp_def)
  show ?thesis
  proof (cases "n \<noteq> [] \<and> hd n = DASH")
    case True
    then obtain ds where n: "n = DASH # ds" by (cases n) auto
    with assms(1) have d: "ds \<noteq> []" "list_all is_digit ds" "hd ds = CHR ''0'' \<longrightarrow> ds = ''0''"
      by (simp_all add: json_int_literal_def)
    show ?thesis using json_int_read [OF d assms(2)] rest by (simp add: json_number_def n)
  next
    case False
    with assms(1) have d: "n \<noteq> []" "list_all is_digit n" "hd n = CHR ''0'' \<longrightarrow> n = ''0''"
      unfolding json_int_literal_def Let_def by (auto split: if_splits)
    from False d(1) have "takeWhile (\<lambda>c. c = DASH) (n @ r) = []" by (cases n) auto
    with json_int_read [OF d assms(2)] rest show ?thesis by (simp add: json_number_def)
  qed
qed

text \<open>Values: integers, no hole, objects in their enumeration order.\<close>

fun json_wf :: "js_value \<Rightarrow> bool" where
  "json_wf JUndefined = False"
| "json_wf JNull = True"
| "json_wf (JBool b) = True"
| "json_wf (JNum n) = json_int_literal n"
| "json_wf (JStr s) = True"
| "json_wf (JArr vs) = (\<forall>v \<in> set vs. json_wf v)"
| "json_wf (JObj es) = (enumerated es \<and> (\<forall>e \<in> set es. json_wf (snd e)))"

abbreviation blank :: "string \<Rightarrow> bool" where "blank w \<equiv> list_all json_space w"

lemma json_ws_blank [simp]: "blank w \<Longrightarrow> json_ws (w @ s) = json_ws s"
  by (induction w) (simp_all add: json_ws_def)

lemma json_ws_ink [simp]: "\<not> json_space c \<Longrightarrow> json_ws (c # s) = c # s"
  by (simp add: json_ws_def)

lemma json_value_blank: "blank w \<Longrightarrow> json_value n (w @ s) = json_value n s"
  by (cases n) simp_all

lemma json_elems_blank: "blank w \<Longrightarrow> json_elems n (w @ s) = json_elems n s"
  by (cases n) (simp_all add: json_value_blank)

lemma json_members_blank: "blank w \<Longrightarrow> json_members n (w @ s) = json_members n s"
  by (cases n) simp_all

lemma blank_break: "blank gap \<Longrightarrow> blank ind \<Longrightarrow> blank (json_break gap ind)"
  by (simp add: json_break_def json_space_def)

lemma follows_blank: "blank z \<Longrightarrow> follows (c # r) \<Longrightarrow> follows (z @ c # r)"
  by (cases z) (auto simp: follows_def is_digit_def json_space_def)

definition opens :: "string \<Rightarrow> bool" where
  "opens s \<longleftrightarrow> s \<noteq> [] \<and> \<not> json_space (hd s) \<and> hd s \<noteq> CHR '']''"

lemma digit_ink: "is_digit c \<Longrightarrow> \<not> json_space c \<and> c \<noteq> CHR '']'' \<and> c \<notin> {DQUOTE, CHR ''['', CHR ''{'', CHR ''t'', CHR ''f'', CHR ''n''}"
  by (auto simp: is_digit_def json_space_def)

lemma int_literal_head:
  assumes "json_int_literal n"
  shows "n \<noteq> [] \<and> (is_digit (hd n) \<or> hd n = DASH)"
  using assms by (cases n) (auto simp: json_int_literal_def list_all_iff split: if_splits)

lemma json_text_opens: "json_wf v \<Longrightarrow> opens (json_text gap ind v)"
proof (cases v)
  case (JNum n)
  assume "json_wf v"
  with JNum int_literal_head [of n] digit_ink [of "hd n"] show ?thesis
    by (auto simp: opens_def json_space_def)
qed (auto simp: opens_def json_space_def json_quote_def Let_def)

text \<open>The text \<open>t\<close> of a value, followed by what cannot prolong it, reads as the value.\<close>

definition reads :: "string \<Rightarrow> js_value \<Rightarrow> bool" where
  "reads t v \<longleftrightarrow> (\<forall>n r. 2 * length t < n \<longrightarrow> follows r \<longrightarrow> json_value n (t @ r) = Some (v, r))"

lemma readsD: "reads t v \<Longrightarrow> 2 * length t < n \<Longrightarrow> follows r \<Longrightarrow> json_value n (t @ r) = Some (v, r)"
  by (simp add: reads_def)

lemma follows_marks: "follows (CHR '','' # r)" "follows (CHR '']'' # r)" "follows (CHR ''}'' # r)"
  by (simp_all add: follows_def is_digit_def)

lemma ink_marks: "\<not> json_space (CHR '','')" "\<not> json_space (CHR '']'')" "\<not> json_space (CHR ''}'')" "\<not> json_space (CHR '':'')"
  "\<not> json_space (CHR ''['')" "\<not> json_space (CHR ''{'')" "\<not> json_space DQUOTE"
  by (simp_all add: json_space_def)

lemma json_elems_read:
  assumes "blank w" "blank z"
  shows "vs \<noteq> [] \<Longrightarrow> \<forall>v \<in> set vs. reads (t v) v \<Longrightarrow>
    2 * length (join_with (CHR '','' # w) (map t vs)) + 1 < n \<Longrightarrow>
    json_elems n (join_with (CHR '','' # w) (map t vs) @ z @ CHR '']'' # r) = Some (vs, r)"
proof (induction vs arbitrary: n)
  case Nil
  then show ?case by simp
next
  case (Cons v vs)
  then obtain m where n: "n = Suc m" by (cases n) auto
  from Cons.prems have v: "reads (t v) v" by simp
  show ?case
  proof (cases vs)
    case Nil
    have "json_value m (t v @ z @ CHR '']'' # r) = Some (v, z @ CHR '']'' # r)"
      by (rule readsD [OF v]) (use Cons.prems Nil n assms in \<open>simp_all add: follows_blank follows_marks\<close>)
    with Nil n assms(2) show ?thesis by (simp add: ink_marks)
  next
    case (Cons x xs)
    let ?rest = "join_with (CHR '','' # w) (map t vs) @ z @ CHR '']'' # r"
    have len: "2 * length (t v) + 2 + 2 * length w + 2 * length (join_with (CHR '','' # w) (map t vs)) + 1 < n"
      using Cons.prems(3) Cons by simp
    have "json_value m (t v @ CHR '','' # w @ ?rest) = Some (v, CHR '','' # w @ ?rest)"
      by (rule readsD [OF v]) (use len n in \<open>simp_all add: follows_marks\<close>)
    moreover have "json_elems m (w @ ?rest) = Some (vs, r)"
      unfolding json_elems_blank [OF assms(1)]
      by (rule Cons.IH) (use Cons Cons.prems len n in auto)
    ultimately show ?thesis using Cons n by (simp add: ink_marks)
  qed
qed

text \<open>A member: its quoted key, the colon and its value.\<close>

lemma json_members_read:
  assumes "blank w" "blank z" "blank c"
  shows "es \<noteq> [] \<Longrightarrow> \<forall>e \<in> set es. reads (t (snd e)) (snd e) \<Longrightarrow>
    2 * length (join_with (CHR '','' # w) (map (\<lambda>e. json_quote (fst e) @ CHR '':'' # c @ t (snd e)) es)) + 1 < n \<Longrightarrow>
    json_members n (join_with (CHR '','' # w) (map (\<lambda>e. json_quote (fst e) @ CHR '':'' # c @ t (snd e)) es) @ z @ CHR ''}'' # r)
      = Some (es, r)"
proof (induction es arbitrary: n)
  case Nil
  then show ?case by simp
next
  case (Cons e es)
  let ?m = "\<lambda>e. json_quote (fst e) @ CHR '':'' # c @ t (snd e)"
  from Cons.prems obtain m where n: "n = Suc m" by (cases n) auto
  from Cons.prems have v: "reads (t (snd e)) (snd e)" by simp
  have key: "json_string (concat (map json_char (fst e)) @ DQUOTE # CHR '':'' # c @ t (snd e) @ u) = Some (fst e, CHR '':'' # c @ t (snd e) @ u)" for u
    by (rule json_string_quote)
  show ?case
  proof (cases es)
    case Nil
    have "json_value m (t (snd e) @ z @ CHR ''}'' # r) = Some (snd e, z @ CHR ''}'' # r)"
      by (rule readsD [OF v]) (use Cons.prems Nil n assms in \<open>simp_all add: follows_blank follows_marks\<close>)
    with Nil n assms key show ?thesis by (simp add: json_quote_def ink_marks json_value_blank)
  next
    case (Cons x xs)
    let ?rest = "join_with (CHR '','' # w) (map ?m es) @ z @ CHR ''}'' # r"
    have len: "2 * length (t (snd e)) + 2 + 2 * length w + 2 * length (join_with (CHR '','' # w) (map ?m es)) + 1 < n"
      using Cons.prems(3) Cons by simp
    have "json_value m (t (snd e) @ CHR '','' # w @ ?rest) = Some (snd e, CHR '','' # w @ ?rest)"
      by (rule readsD [OF v]) (use len n in \<open>simp_all add: follows_marks\<close>)
    moreover have "json_members m (w @ ?rest) = Some (es, r)"
      unfolding json_members_blank [OF assms(1)]
      by (rule Cons.IH) (use Cons Cons.prems len n in auto)
    moreover have "join_with (CHR '','' # w) (map ?m (e # es)) @ z @ CHR ''}'' # r
        = DQUOTE # concat (map json_char (fst e)) @ DQUOTE # CHR '':'' # c @ t (snd e) @ CHR '','' # w @ ?rest"
      using Cons by (simp add: json_quote_def)
    ultimately show ?thesis using n key assms(3) by (simp add: ink_marks json_value_blank)
  qed
qed

lemma opens_join: "xs \<noteq> [] \<Longrightarrow> opens (hd xs) \<Longrightarrow> \<exists>d ds. join_with sep xs @ u = d # ds \<and> \<not> json_space d \<and> d \<noteq> CHR '']''"
  by (cases xs rule: list.exhaust [case_product list.exhaust [of "tl xs"]]) (auto simp: opens_def neq_Nil_conv)

lemma readsI: "(\<And>n r. 0 < n \<Longrightarrow> json_value n (t @ r) = Some (v, r)) \<Longrightarrow> reads t v"
  by (simp add: reads_def)

lemma json_words:
  "0 < n \<Longrightarrow> json_value n (''null'' @ r) = Some (JNull, r)"
  "0 < n \<Longrightarrow> json_value n (''true'' @ r) = Some (JBool True, r)"
  "0 < n \<Longrightarrow> json_value n (''false'' @ r) = Some (JBool False, r)"
  by (cases n; simp add: json_word_def starts_with_def json_space_def)+

lemma text_reads:
  "json_wf v \<Longrightarrow> blank gap \<Longrightarrow> blank ind \<Longrightarrow> reads (json_text gap ind v) v"
proof (induction gap ind v rule: json_text.induct)
  case (4 gap ind n)
  then have n: "json_int_literal n" by simp
  from int_literal_head [OF n] digit_ink [of "hd n"]
  have h: "n \<noteq> []" "\<not> json_space (hd n)" "hd n \<notin> {DQUOTE, CHR ''['', CHR ''{'', CHR ''t'', CHR ''f'', CHR ''n''}"
    by (auto simp: json_space_def)
  show ?case unfolding reads_def
  proof (intro allI impI)
    fix m r assume m: "2 * length (json_text gap ind (JNum n)) < m" and r: "follows r"
    from m obtain k where k: "m = Suc k" by (cases m) auto
    from h(1) obtain x xs where n': "n = x # xs" by (cases n) auto
    from json_number_read [OF n r] h show "json_value m (json_text gap ind (JNum n) @ r) = Some (JNum n, r)"
      by (simp add: k n')
  qed
next
  case (5 gap ind s)
  show ?case unfolding reads_def
  proof (intro allI impI)
    fix m r assume m: "2 * length (json_text gap ind (JStr s)) < m"
    then obtain k where k: "m = Suc k" by (cases m) auto
    from json_string_quote [of s r] show "json_value m (json_text gap ind (JStr s) @ r) = Some (JStr s, r)"
      by (simp add: k json_quote_def ink_marks)
  qed
next
  case (6 gap ind vs)
  let ?w = "json_break gap (ind @ gap)" and ?t = "json_text gap (ind @ gap)"
  have b: "blank ?w" "blank (json_break gap ind)" using 6 by (simp_all add: blank_break)
  show ?case unfolding reads_def
  proof (intro allI impI)
    fix m r assume m: "2 * length (json_text gap ind (JArr vs)) < m" and r: "follows r"
    then obtain k where k: "m = Suc k" by (cases m) auto
    show "json_value m (json_text gap ind (JArr vs) @ r) = Some (JArr vs, r)"
    proof (cases "vs = []")
      case True
      with k show ?thesis by (simp add: ink_marks)
    next
      case False
      let ?body = "join_with (CHR '','' # ?w) (map ?t vs) @ json_break gap ind @ CHR '']'' # r"
      have "json_elems k ?body = Some (vs, r)"
        by (rule json_elems_read [OF b False]) (use 6 m k False in \<open>auto simp: blank_break\<close>)
      moreover have "opens (hd (map ?t vs))"
        using False 6(2) by (cases vs) (auto intro: json_text_opens)
      with opens_join [of "map ?t vs"] False obtain d ds where "?body = d # ds" "\<not> json_space d" "d \<noteq> CHR '']''"
        by (metis map_is_Nil_conv)
      ultimately show ?thesis using False k b(1) by (simp add: ink_marks)
    qed
  qed
next
  case (7 gap ind es)
  let ?w = "json_break gap (ind @ gap)" and ?t = "json_text gap (ind @ gap)" and ?c = "if gap = [] then [] else '' ''"
  let ?m = "\<lambda>e. json_quote (fst e) @ CHR '':'' # ?c @ ?t (snd e)"
  have b: "blank ?w" "blank (json_break gap ind)" using 7 by (simp_all add: blank_break)
  have c: "blank ?c" by (simp add: json_space_def)
  have no_hole: "filter (\<lambda>(k, v). v \<noteq> JUndefined) es = es"
    using 7(2) by (intro filter_True) auto
  have ms: "map (\<lambda>(k, v). json_quote k @ json_colon gap @ ?t v) es = map ?m es"
    by (auto simp: json_colon_def)
  show ?case unfolding reads_def
  proof (intro allI impI)
    fix m r assume m: "2 * length (json_text gap ind (JObj es)) < m" and r: "follows r"
    then obtain k where k: "m = Suc k" by (cases m) auto
    show "json_value m (json_text gap ind (JObj es) @ r) = Some (JObj es, r)"
    proof (cases "es = []")
      case True
      with k show ?thesis by (simp add: ink_marks)
    next
      case False
      let ?body = "join_with (CHR '','' # ?w) (map ?m es) @ json_break gap ind @ CHR ''}'' # r"
      have written: "json_text gap ind (JObj es) = CHR ''{'' # ?w @ join_with (CHR '','' # ?w) (map ?m es) @ json_break gap ind @ ''}''"
        using False by (simp add: no_hole ms Let_def)
      have len: "2 * length (join_with (CHR '','' # ?w) (map ?m es)) + 1 < k"
        using m unfolding written k by simp
      have "\<forall>e \<in> set es. reads (?t (snd e)) (snd e)"
      proof
        fix e assume e: "e \<in> set es"
        with 7(2) have "json_wf (snd e)" by simp
        moreover from this have "e \<in> set (filter (\<lambda>(k, v). v \<noteq> JUndefined) es)" using e by (cases e) auto
        ultimately show "reads (?t (snd e)) (snd e)"
          using 7(1) [OF _ prod.collapse] 7(3,4) by simp
      qed
      then have "json_members k ?body = Some (es, r)" by (rule json_members_read [OF b c False _ len])
      moreover obtain ds where "?body = DQUOTE # ds"
        using False by (cases es rule: list.exhaust [case_product list.exhaust [of "tl es"]]) (auto simp: json_quote_def neq_Nil_conv)
      moreover have "obj_spread [] es = es" using 7(2) by (intro enumerated_spread) simp
      ultimately show ?thesis unfolding written using k b(1) by (simp add: ink_marks)
    qed
  qed
next
  case (2 gap ind)
  show ?case by (auto intro: readsI json_words)
next
  case (3 gap ind b)
  show ?case by (cases b) (auto intro: readsI json_words)
qed simp

lemma json_roundtrip:
  assumes "json_wf v" "blank gap" "blank w"
  shows "json_parse (json_text gap [] v @ w) = Some v"
proof -
  have "follows w" using assms(3) by (cases w) (auto simp: follows_def json_space_def is_digit_def)
  then have "json_value (Suc (2 * length (json_text gap [] v @ w))) (json_text gap [] v @ w) = Some (v, w)"
    by (intro readsD [OF text_reads]) (use assms in auto)
  moreover have "json_ws w = []" using json_ws_blank [OF assms(3), of "[]"] by (simp add: json_ws_def)
  ultimately show ?thesis by (simp add: json_parse_def)
qed

section \<open>The fuel is enough\<close>

lemma json_string_shorter: "json_string s = Some (t, r) \<Longrightarrow> length r < length s"
proof (induction s arbitrary: t r rule: json_string.induct)
  case 1
  then show ?case by simp
next
  case (2 c cs)
  then show ?case
    by (fastforce simp: json_cons_def split: if_splits list.splits option.splits)
qed

lemma ws_shorter: "json_ws s = c # cs \<Longrightarrow> length cs < length s"
  using length_dropWhile_le [of json_space s] by (simp add: json_ws_def)

lemma json_int_shorter: "json_int s = Some (t, r) \<Longrightarrow> length r < length s"
proof -
  assume i: "json_int s = Some (t, r)"
  then obtain c cs where s: "s = c # cs" "is_digit c" by (cases s) (auto simp: json_int_def split: if_splits)
  with i length_dropWhile_le [of is_digit cs] show ?thesis by (auto simp: json_int_def split: if_splits)
qed

lemma json_frac_shorter: "json_frac s = Some (t, r) \<Longrightarrow> length r \<le> length s"
  using length_dropWhile_le [of is_digit "tl s"] by (auto simp: json_frac_def split: if_splits)

lemma json_exp_shorter: "json_exp s = Some (t, r) \<Longrightarrow> length r \<le> length s"
proof -
  have "length (dropWhile is_digit (drop k (tl s))) \<le> length s" for k
    using length_dropWhile_le [of is_digit "drop k (tl s)"] by simp
  then show "json_exp s = Some (t, r) \<Longrightarrow> ?thesis" by (auto simp: json_exp_def Let_def split: if_splits)
qed

lemma json_number_shorter: "json_number s = Some (t, r) \<Longrightarrow> length r < length s"
  by (auto simp: json_number_def Let_def bind_eq_Some_conv dest!: json_int_shorter json_frac_shorter json_exp_shorter)

lemma word_shorter: "json_word w v s = Some (x, r) \<Longrightarrow> w \<noteq> [] \<Longrightarrow> length r < length s"
  by (auto simp: json_word_def starts_with_def split: if_splits) (metis append_take_drop_id diff_less length_drop length_greater_0_conv take_eq_Nil)

lemma shorter:
  "(\<forall>v r. json_value n s = Some (v, r) \<longrightarrow> length r < length s) \<and>
   (\<forall>vs r. json_elems n s = Some (vs, r) \<longrightarrow> length r < length s) \<and>
   (\<forall>es r. json_members n s = Some (es, r) \<longrightarrow> length r < length s)"
proof (induction n arbitrary: s)
  case 0
  then show ?case by simp
next
  case (Suc n)
  have v: "length r < length s" if "json_value n s = Some (v, r)" for s v r using Suc that by blast
  have e: "length r < length s" if "json_elems n s = Some (vs, r)" for s vs r using Suc that by blast
  have m: "length r < length s" if "json_members n s = Some (es, r)" for s es r using Suc that by blast
  note d = v e m ws_shorter json_string_shorter json_number_shorter word_shorter
  show ?case
  proof (intro conjI allI impI)
    fix x r assume "json_value (Suc n) s = Some (x, r)"
    then show "length r < length s"
      by (auto split: list.splits if_splits dest!: d)
  next
    fix x r assume "json_elems (Suc n) s = Some (x, r)"
    then show "length r < length s" by (auto split: list.splits if_splits option.splits dest!: d)
  next
    fix x r assume "json_members (Suc n) s = Some (x, r)"
    then show "length r < length s" by (auto split: list.splits if_splits option.splits dest!: d)
  qed
qed

lemma fuel_more:
  "(\<forall>s m x. json_value n s = Some x \<longrightarrow> 2 * length s < m \<longrightarrow> json_value m s = Some x) \<and>
   (\<forall>s m x. json_elems n s = Some x \<longrightarrow> 2 * length s + 1 < m \<longrightarrow> json_elems m s = Some x) \<and>
   (\<forall>s m x. json_members n s = Some x \<longrightarrow> 2 * length s + 1 < m \<longrightarrow> json_members m s = Some x)"
proof (induction n)
  case 0
  then show ?case by simp
next
  case (Suc n)
  note v = Suc [THEN conjunct1, rule_format]
  note e = Suc [THEN conjunct2, THEN conjunct1, rule_format]
  note mm = Suc [THEN conjunct2, THEN conjunct2, rule_format]
  have sv: "length r < length s" if "json_value n s = Some (x, r)" for s x r using shorter that by blast
  show ?case
  proof (intro conjI allI impI)
    fix s m x assume r: "json_value (Suc n) s = Some x" and m: "2 * length s < m"
    from m obtain k where k: "m = Suc k" by (cases m) auto
    from r obtain c cs where s: "json_ws s = c # cs" by (auto split: list.splits)
    have short: "length cs < length s" by (rule ws_shorter [OF s])
    have "json_elems n (d # ds) = Some y \<Longrightarrow> json_elems k (d # ds) = Some y"
      "json_members n (d # ds) = Some z \<Longrightarrow> json_members k (d # ds) = Some z"
      if "json_ws cs = d # ds" for d ds y z
      using that e [of "d # ds" y k] mm [of "d # ds" z k] ws_shorter [OF that] short m k by auto
    with r s k show "json_value m s = Some x"
      by (auto split: list.splits if_splits)
  next
    fix s m x assume r: "json_elems (Suc n) s = Some x" and m: "2 * length s + 1 < m"
    from m obtain k where k: "m = Suc k" by (cases m) auto
    from r obtain y u where y: "json_value n s = Some (y, u)" by (auto split: option.splits)
    with v [of s "(y, u)" k] m k have y': "json_value k s = Some (y, u)" by simp
    have "json_elems n ds = Some z \<Longrightarrow> json_elems k ds = Some z" if "json_ws u = d # ds" for d ds z
      using that e [of ds z k] ws_shorter [OF that] sv [OF y] m k by simp
    with r y y' k show "json_elems m s = Some x" by (auto split: list.splits if_splits)
  next
    fix s m x assume r: "json_members (Suc n) s = Some x" and m: "2 * length s + 1 < m"
    from m obtain k where k: "m = Suc k" by (cases m) auto
    from r obtain cs where s: "json_ws s = DQUOTE # cs" by (auto split: list.splits if_splits)
    with r obtain a u where a: "json_string cs = Some (a, u)" by (auto split: option.splits)
    with r s obtain es where u: "json_ws u = CHR '':'' # es" by (auto split: list.splits if_splits)
    with r s a obtain y w where y: "json_value n es = Some (y, w)" by (auto split: option.splits)
    note len = ws_shorter [OF s] json_string_shorter [OF a] ws_shorter [OF u] sv [OF y]
    from v [OF y, of k] len m k have y': "json_value k es = Some (y, w)" by simp
    have "json_members n ds = Some z \<Longrightarrow> json_members k ds = Some z" if "json_ws w = d # ds" for d ds z
      using that mm [of ds z k] ws_shorter [OF that] len m k by simp
    with r s a u y y' k show "json_members m s = Some x" by (auto split: list.splits if_splits)
  qed
qed

text \<open>Whatever fuel finds a value, the fuel of \<open>json_parse\<close> finds it.\<close>

lemma json_fuel: "json_value n s = Some x \<Longrightarrow> json_value (Suc (2 * length s)) s = Some x"
  by (rule fuel_more [THEN conjunct1, rule_format]) simp_all

end
