(* ===== verification/WriteDedupe.thy ===== *)
theory WriteDedupe
  imports Json
begin

text \<open>
  Making a retried write safe (\<open>src/lib/write-dedupe.ts\<close>, \<open>src/lib/write-dedupe-store.ts\<close>): the
  fingerprint of a call, the ledger of attempts and \<open>dedupeWrite\<close>.  The interface \<open>WriteLedger\<close>
  is the locale \<open>write_ledger\<close>; the D1 table interprets it.  A ledger operation returns the state
  it leaves and either a fault or its answer; times are milliseconds.
\<close>

definition IN_FLIGHT_GRACE_MS :: int where "IN_FLIGHT_GRACE_MS = 2 * 60 * 1000"
definition DONE_TTL_MS :: int where "DONE_TTL_MS = 10 * 60 * 1000"

lemmas windows = IN_FLIGHT_GRACE_MS_def DONE_TTL_MS_def

datatype attempt_state = InFlight | Done

record write_attempt =
  wa_brain :: string
  wa_fingerprint :: string
  wa_state :: attempt_state
  wa_started :: int
  wa_completed :: "int option"
  wa_summary :: "string option"

section \<open>The fingerprint\<close>

definition by_entry_key :: "string \<times> 'a \<Rightarrow> string \<times> 'a \<Rightarrow> int" where
  "by_entry_key a b = code_unit_cmp (fst a) (fst b)"

fun stableStringify :: "js_value \<Rightarrow> string" where
  "stableStringify JUndefined = ''null''"
| "stableStringify JNull = ''null''"
| "stableStringify (JBool b) = (if b then ''true'' else ''false'')"
| "stableStringify (JNum n) = n"
| "stableStringify (JStr s) = json_quote s"
| "stableStringify (JArr vs) = ''['' @ join_with '','' (map stableStringify vs) @ '']''"
| "stableStringify (JObj es) =
     ''{'' @ join_with '',''
       (map (\<lambda>(k, t). json_quote k @ '':'' @ t)
          (js_sort by_entry_key
             (map (\<lambda>(k, v). (k, stableStringify v)) (filter (\<lambda>(k, v). v \<noteq> JUndefined) es)))) @ ''}''"

text \<open>\<open>sha256_hex\<close> stands for Web Crypto's digest in hexadecimal.\<close>

definition writeFingerprint ::
  "(string \<Rightarrow> string) \<Rightarrow> string \<Rightarrow> string \<Rightarrow> (string \<times> js_value) list \<Rightarrow> string" where
  "writeFingerprint sha256_hex actor tool args =
     sha256_hex (actor @ '' '' @ tool @ '' '' @ stableStringify (JObj (filter (\<lambda>(k, v). k \<noteq> ''brain'') args)))"

section \<open>The decision\<close>

datatype write_verdict = Claimed | Replay write_attempt | InProgress write_attempt

definition completed_or_started :: "write_attempt \<Rightarrow> int" where
  "completed_or_started a = (case wa_completed a of Some t \<Rightarrow> t | None \<Rightarrow> wa_started a)"

definition decideWrite :: "write_attempt option \<Rightarrow> int \<Rightarrow> write_verdict" where
  "decideWrite attempt now =
     (case attempt of
        None \<Rightarrow> Claimed
      | Some a \<Rightarrow>
          if wa_state a = Done
          then (if DONE_TTL_MS \<le> now - completed_or_started a then Claimed else Replay a)
          else if IN_FLIGHT_GRACE_MS \<le> now - wa_started a then Claimed
          else InProgress a)"

text \<open>\<open>Math.max(0, Math.round((now - then) / 1000))\<close>; \<open>Math.round\<close> rounds halves up.\<close>

definition secondsSince :: "int \<Rightarrow> int \<Rightarrow> int" where
  "secondsSince earlier now = max 0 ((now - earlier + 500) div 1000)"

section \<open>The ledger and its client\<close>

datatype ledger_fault = LedgerFault

record 's ledger =
  l_prune :: "'s \<Rightarrow> int \<Rightarrow> int \<Rightarrow> 's \<times> (ledger_fault + unit)"
  l_claim :: "'s \<Rightarrow> string \<Rightarrow> string \<Rightarrow> int \<Rightarrow> 's \<times> (ledger_fault + bool)"
  l_read :: "'s \<Rightarrow> string \<Rightarrow> string \<Rightarrow> 's \<times> (ledger_fault + write_attempt option)"
  l_complete :: "'s \<Rightarrow> string \<Rightarrow> string \<Rightarrow> int \<Rightarrow> string \<Rightarrow> 's \<times> (ledger_fault + unit)"
  l_release :: "'s \<Rightarrow> string \<Rightarrow> string \<Rightarrow> 's \<times> (ledger_fault + unit)"

record ('w, 'e, 'r) write_handlers =
  h_perform :: "'w \<Rightarrow> 'w \<times> ('e + 'r)"
  h_record :: "'r \<Rightarrow> string option"
  h_replay :: "write_attempt \<Rightarrow> 'r"
  h_in_flight :: "write_attempt \<Rightarrow> 'r"

datatype 'e write_failure = LedgerDown ledger_fault | Thrown 'e

text \<open>The claim is held: perform, then keep or give back the row, whatever the ledger answers.\<close>

definition perform_claimed ::
  "'s ledger \<Rightarrow> 's \<Rightarrow> 'w \<Rightarrow> string \<Rightarrow> string \<Rightarrow> int \<Rightarrow> ('w, 'e, 'r) write_handlers
     \<Rightarrow> 's \<times> 'w \<times> ('e write_failure + 'r)" where
  "perform_claimed L s w brainId fingerprint now h =
     (case h_perform h w of
        (w', Inl err) \<Rightarrow> (fst (l_release L s brainId fingerprint), w', Inl (Thrown err))
      | (w', Inr result) \<Rightarrow>
          (case h_record h result of
             None \<Rightarrow> (fst (l_release L s brainId fingerprint), w', Inr result)
           | Some summary \<Rightarrow> (fst (l_complete L s brainId fingerprint now summary), w', Inr result)))"

definition dedupeWrite ::
  "'s ledger \<Rightarrow> 's \<Rightarrow> 'w \<Rightarrow> string \<Rightarrow> string \<Rightarrow> int \<Rightarrow> ('w, 'e, 'r) write_handlers
     \<Rightarrow> 's \<times> 'w \<times> ('e write_failure + 'r)" where
  "dedupeWrite L s w brainId fingerprint now h =
     (case l_prune L s (now - IN_FLIGHT_GRACE_MS) (now - DONE_TTL_MS) of
        (s1, Inl f) \<Rightarrow> (s1, w, Inl (LedgerDown f))
      | (s1, Inr _) \<Rightarrow>
          (case l_claim L s1 brainId fingerprint now of
             (s2, Inl f) \<Rightarrow> (s2, w, Inl (LedgerDown f))
           | (s2, Inr True) \<Rightarrow> perform_claimed L s2 w brainId fingerprint now h
           | (s2, Inr False) \<Rightarrow>
               (case l_read L s2 brainId fingerprint of
                  (s3, Inl f) \<Rightarrow> (s3, w, Inl (LedgerDown f))
                | (s3, Inr attempt) \<Rightarrow>
                    (case decideWrite attempt now of
                       Replay a \<Rightarrow> (s3, w, Inr (h_replay h a))
                     | InProgress a \<Rightarrow> (s3, w, Inr (h_in_flight h a))
                     | Claimed \<Rightarrow>
                         (case l_claim L s3 brainId fingerprint now of
                            (s4, Inl f) \<Rightarrow> (s4, w, Inl (LedgerDown f))
                          | (s4, Inr _) \<Rightarrow> perform_claimed L s4 w brainId fingerprint now h)))))"

section \<open>The table\<close>

record attempt_row =
  at_brain :: string
  at_fingerprint :: string
  at_state :: string
  at_started :: int
  at_completed :: "int option"
  at_summary :: "string option"

text \<open>
  The table \<open>write_attempts\<close> (primary key \<open>brain_id, fingerprint\<close>) and the statements the service
  will refuse: each statement takes one entry of \<open>d_down\<close>, and fails when it is true.
\<close>

record d1 =
  d_rows :: "attempt_row list"
  d_down :: "bool list"

definition statement :: "d1 \<Rightarrow> (attempt_row list \<Rightarrow> attempt_row list \<times> 'a) \<Rightarrow> d1 \<times> (ledger_fault + 'a)" where
  "statement db f =
     (case d_down db of
        True # ds \<Rightarrow> (db\<lparr>d_down := ds\<rparr>, Inl LedgerFault)
      | ds \<Rightarrow> (case f (d_rows db) of (rows, a) \<Rightarrow> (db\<lparr>d_rows := rows, d_down := drop 1 ds\<rparr>, Inr a)))"

definition toAttempt :: "attempt_row \<Rightarrow> write_attempt" where
  "toAttempt row =
     \<lparr>wa_brain = at_brain row, wa_fingerprint = at_fingerprint row,
       wa_state = (if at_state row = ''done'' then Done else InFlight),
       wa_started = at_started row, wa_completed = at_completed row, wa_summary = at_summary row\<rparr>"

definition row_is :: "string \<Rightarrow> string \<Rightarrow> attempt_row \<Rightarrow> bool" where
  "row_is brainId fingerprint r \<longleftrightarrow> at_brain r = brainId \<and> at_fingerprint r = fingerprint"

definition d1_prune :: "d1 \<Rightarrow> int \<Rightarrow> int \<Rightarrow> d1 \<times> (ledger_fault + unit)" where
  "d1_prune db inFlightBefore doneBefore =
     statement db (\<lambda>rows.
       (filter (\<lambda>r. \<not> (at_state r = ''in_flight'' \<and> at_started r < inFlightBefore
                     \<or> at_state r = ''done''
                       \<and> (case at_completed r of Some t \<Rightarrow> t | None \<Rightarrow> at_started r) < doneBefore)) rows, ()))"

text \<open>\<open>INSERT ... ON CONFLICT DO UPDATE ... WHERE\<close>: true when a row was inserted or taken over.\<close>

definition d1_claim :: "d1 \<Rightarrow> string \<Rightarrow> string \<Rightarrow> int \<Rightarrow> d1 \<times> (ledger_fault + bool)" where
  "d1_claim db brainId fingerprint now =
     statement db (\<lambda>rows.
       case find (row_is brainId fingerprint) rows of
         None \<Rightarrow>
           (rows @ [\<lparr>at_brain = brainId, at_fingerprint = fingerprint, at_state = ''in_flight'',
                     at_started = now, at_completed = None, at_summary = None\<rparr>], True)
       | Some r \<Rightarrow>
           if at_state r = ''in_flight'' \<and> at_started r < now - IN_FLIGHT_GRACE_MS
           then (map (\<lambda>x. if row_is brainId fingerprint x
                          then x\<lparr>at_state := ''in_flight'', at_started := now, at_completed := None,
                                 at_summary := None\<rparr> else x) rows, True)
           else (rows, False))"

definition d1_read :: "d1 \<Rightarrow> string \<Rightarrow> string \<Rightarrow> d1 \<times> (ledger_fault + write_attempt option)" where
  "d1_read db brainId fingerprint =
     statement db (\<lambda>rows. (rows, map_option toAttempt (find (row_is brainId fingerprint) rows)))"

definition d1_complete :: "d1 \<Rightarrow> string \<Rightarrow> string \<Rightarrow> int \<Rightarrow> string \<Rightarrow> d1 \<times> (ledger_fault + unit)" where
  "d1_complete db brainId fingerprint doneAt summary =
     statement db (\<lambda>rows.
       (map (\<lambda>x. if row_is brainId fingerprint x
                 then x\<lparr>at_state := ''done'', at_completed := Some doneAt, at_summary := Some summary\<rparr>
                 else x) rows, ()))"

definition d1_release :: "d1 \<Rightarrow> string \<Rightarrow> string \<Rightarrow> d1 \<times> (ledger_fault + unit)" where
  "d1_release db brainId fingerprint =
     statement db (\<lambda>rows. (filter (\<lambda>r. \<not> row_is brainId fingerprint r) rows, ()))"

definition d1WriteLedger :: "d1 ledger" where
  "d1WriteLedger = \<lparr>l_prune = d1_prune, l_claim = d1_claim, l_read = d1_read, l_complete = d1_complete,
                     l_release = d1_release\<rparr>"

section \<open>What a ledger promises\<close>

definition fresh_attempt :: "string \<Rightarrow> string \<Rightarrow> int \<Rightarrow> write_attempt" where
  "fresh_attempt b f now =
     \<lparr>wa_brain = b, wa_fingerprint = f, wa_state = InFlight, wa_started = now, wa_completed = None,
       wa_summary = None\<rparr>"

definition done_attempt :: "int \<Rightarrow> string \<Rightarrow> write_attempt \<Rightarrow> write_attempt" where
  "done_attempt t summary a = a\<lparr>wa_state := Done, wa_completed := Some t, wa_summary := Some summary\<rparr>"

definition expired :: "int \<Rightarrow> int \<Rightarrow> write_attempt \<Rightarrow> bool" where
  "expired inFlightBefore doneBefore a \<longleftrightarrow>
     (if wa_state a = Done then completed_or_started a < doneBefore else wa_started a < inFlightBefore)"

locale write_ledger =
  fixes L :: "'s ledger"
    and peek :: "'s \<Rightarrow> string \<Rightarrow> string \<Rightarrow> write_attempt option"
    and wf :: "'s \<Rightarrow> bool"
    and up :: "'s \<Rightarrow> bool"
  assumes prune_wf: "wf s \<Longrightarrow> l_prune L s i d = (s', r) \<Longrightarrow> wf s'"
    and claim_wf: "wf s \<Longrightarrow> l_claim L s b f t = (s', r') \<Longrightarrow> wf s'"
    and read_wf: "wf s \<Longrightarrow> l_read L s b f = (s', r'') \<Longrightarrow> wf s'"
    and complete_wf: "wf s \<Longrightarrow> l_complete L s b f t m = (s', r) \<Longrightarrow> wf s'"
    and release_wf: "wf s \<Longrightarrow> l_release L s b f = (s', r) \<Longrightarrow> wf s'"
    and prune_up: "up s \<Longrightarrow> l_prune L s i d = (s', r) \<Longrightarrow> up s' \<and> r = Inr ()"
    and claim_up: "up s \<Longrightarrow> l_claim L s b f t = (s', r') \<Longrightarrow> up s' \<and> (\<exists>x. r' = Inr x)"
    and read_up: "up s \<Longrightarrow> l_read L s b f = (s', r'') \<Longrightarrow> up s' \<and> (\<exists>x. r'' = Inr x)"
    and complete_up: "up s \<Longrightarrow> l_complete L s b f t m = (s', r) \<Longrightarrow> up s' \<and> r = Inr ()"
    and release_up: "up s \<Longrightarrow> l_release L s b f = (s', r) \<Longrightarrow> up s' \<and> r = Inr ()"
    and prune_peek: "wf s \<Longrightarrow> l_prune L s i d = (s', Inr ()) \<Longrightarrow>
      peek s' b f = (case peek s b f of Some a \<Rightarrow> if expired i d a then None else Some a | None \<Rightarrow> None)"
    and claim_won: "wf s \<Longrightarrow> l_claim L s b f t = (s', Inr True) \<Longrightarrow> 
      peek s' b f = Some (fresh_attempt b f t)
      \<and> (\<forall>a. peek s b f = Some a \<longrightarrow> wa_state a = InFlight \<and> wa_started a < t - IN_FLIGHT_GRACE_MS)"
    and claim_lost: "wf s \<Longrightarrow> l_claim L s b f t = (s', Inr False) \<Longrightarrow>
      peek s' b f = peek s b f
      \<and> (\<exists>a. peek s b f = Some a \<and> (wa_state a = InFlight \<longrightarrow> t - IN_FLIGHT_GRACE_MS \<le> wa_started a))"
    and read_peek: "wf s \<Longrightarrow> l_read L s b f = (s', Inr a) \<Longrightarrow> a = peek s b f \<and> peek s' b f = peek s b f"
    and complete_peek: "wf s \<Longrightarrow> l_complete L s b f t m = (s', Inr ()) \<Longrightarrow>
      peek s' b f = map_option (done_attempt t m) (peek s b f)"
    and release_peek: "wf s \<Longrightarrow> l_release L s b f = (s', Inr ()) \<Longrightarrow> peek s' b f = None"
begin

text \<open>A claim finds the row gone exactly when nothing live holds it.\<close>

lemma claim_free:
  assumes "wf s" "up s" "peek s b f = None"
  shows "\<exists>s'. l_claim L s b f t = (s', Inr True) \<and> wf s' \<and> up s' \<and> peek s' b f = Some (fresh_attempt b f t)"
proof -
  obtain s' r where c: "l_claim L s b f t = (s', r)" by (cases "l_claim L s b f t")
  with claim_up [OF assms(2) c] obtain x where x: "r = Inr x" "up s'" by blast
  have "x"
  proof (rule ccontr)
    assume "\<not> x"
    with c x have "l_claim L s b f t = (s', Inr False)" by simp
    from claim_lost [OF assms(1) this] assms(3) show False by simp
  qed
  with c x claim_won [OF assms(1)] claim_wf [OF assms(1) c] show ?thesis by auto
qed

lemma prune_step:
  assumes "wf s" "up s"
  obtains s' where "l_prune L s i d = (s', Inr ())" "wf s'" "up s'"
    "\<And>b f. peek s' b f = (case peek s b f of Some a \<Rightarrow> if expired i d a then None else Some a | None \<Rightarrow> None)"
proof -
  obtain s' r where c: "l_prune L s i d = (s', r)" by (cases "l_prune L s i d")
  with prune_up [OF assms(2) c] have "l_prune L s i d = (s', Inr ())" "up s'" by auto
  with that prune_wf [OF assms(1) c] prune_peek [OF assms(1)] show thesis by blast
qed

text \<open>A live row answers the call from the ledger, and nothing is performed.\<close>

lemma answered_from_ledger:
  assumes ok: "wf s" "up s" and row: "peek s b f = Some a"
    and live: "if wa_state a = Done then now - completed_or_started a < DONE_TTL_MS
               else now - wa_started a < IN_FLIGHT_GRACE_MS"
  shows "\<exists>s'. dedupeWrite L s w b f now h =
           (s', w, Inr (if wa_state a = Done then h_replay h a else h_in_flight h a))
         \<and> peek s' b f = Some a"
proof -
  obtain s1 where s1: "l_prune L s (now - IN_FLIGHT_GRACE_MS) (now - DONE_TTL_MS) = (s1, Inr ())" "wf s1" "up s1"
    and p1: "\<And>b f. peek s1 b f = (case peek s b f of Some a \<Rightarrow>
        if expired (now - IN_FLIGHT_GRACE_MS) (now - DONE_TTL_MS) a then None else Some a | None \<Rightarrow> None)"
    using prune_step [OF ok] by metis
  have kept: "peek s1 b f = Some a" using p1 [of b f] row live by (auto simp: expired_def split: if_splits)
  obtain s2 r where c: "l_claim L s1 b f now = (s2, r)" by (cases "l_claim L s1 b f now")
  with claim_up [OF s1(3)] obtain x where x: "r = Inr x" "up s2" by blast
  have wf2: "wf s2" by (rule claim_wf [OF s1(2) c])
  show ?thesis
  proof (cases x)
    case False
    then have p2: "peek s2 b f = Some a" using claim_lost [OF s1(2)] c x kept by auto
    obtain s3 r3 where rd: "l_read L s2 b f = (s3, r3)" by (cases "l_read L s2 b f")
    with read_up [OF x(2)] obtain y where y: "r3 = Inr y" "up s3" by blast
    with read_peek [OF wf2] rd p2 have y': "y = Some a" "peek s3 b f = Some a" by auto
    have "decideWrite (Some a) now = (if wa_state a = Done then Replay a else InProgress a)"
      using live by (auto simp: decideWrite_def split: if_splits)
    with y' rd y False x c s1 show ?thesis by (auto simp: dedupeWrite_def)
  next
    case True
    then have "l_claim L s1 b f now = (s2, Inr True)" using c x by simp
    with claim_won [OF s1(2)] kept have "wa_state a = InFlight \<and> wa_started a < now - IN_FLIGHT_GRACE_MS" by blast
    with live show ?thesis by (simp split: if_splits)
  qed
qed

text \<open>
  With no row, or one that is past its window, the call performs, and the row tells afterwards
  whether the write landed.
\<close>

lemma performs_when_expired:
  assumes ok: "wf s" "up s"
    and free: "\<And>a. peek s b f = Some a \<Longrightarrow> expired (now - IN_FLIGHT_GRACE_MS) (now - DONE_TTL_MS) a"
  shows "\<exists>s'. dedupeWrite L s w b f now h = (s', fst (h_perform h w), map_sum Thrown id (snd (h_perform h w)))
    \<and> wf s' \<and> up s'
    \<and> peek s' b f = (case snd (h_perform h w) of
        Inl _ \<Rightarrow> None
      | Inr r \<Rightarrow> map_option (\<lambda>m. done_attempt now m (fresh_attempt b f now)) (h_record h r))"
proof -
  obtain s1 where s1: "l_prune L s (now - IN_FLIGHT_GRACE_MS) (now - DONE_TTL_MS) = (s1, Inr ())" "wf s1" "up s1"
    and p1: "\<And>b f. peek s1 b f = (case peek s b f of Some a \<Rightarrow>
        if expired (now - IN_FLIGHT_GRACE_MS) (now - DONE_TTL_MS) a then None else Some a | None \<Rightarrow> None)"
    using prune_step [OF ok] by metis
  have "peek s1 b f = None" using p1 [of b f] free by (auto split: option.splits)
  from claim_free [OF s1(2,3) this] obtain s2 where s2: "l_claim L s1 b f now = (s2, Inr True)" "wf s2" "up s2"
    "peek s2 b f = Some (fresh_attempt b f now)" by blast
  have run: "dedupeWrite L s w b f now h = perform_claimed L s2 w b f now h"
    by (simp add: dedupeWrite_def s1(1) s2(1))
  obtain w' r where pf: "h_perform h w = (w', r)" by (cases "h_perform h w")
  obtain s3 q where rel: "l_release L s2 b f = (s3, q)" by (cases "l_release L s2 b f")
  with release_up [OF s2(3) rel] have rel': "l_release L s2 b f = (s3, Inr ())" "up s3" by auto
  have rel_facts: "wf s3" "peek s3 b f = None"
    using release_wf [OF s2(2) rel'(1)] release_peek [OF s2(2) rel'(1)] by blast+
  have finished: "\<exists>s4. l_complete L s2 b f now m = (s4, Inr ()) \<and> wf s4 \<and> up s4
      \<and> peek s4 b f = Some (done_attempt now m (fresh_attempt b f now))" for m
  proof -
    obtain s4 q where c: "l_complete L s2 b f now m = (s4, q)" by (cases "l_complete L s2 b f now m")
    with complete_up [OF s2(3) c] have c': "l_complete L s2 b f now m = (s4, Inr ())" "up s4" by auto
    with complete_wf [OF s2(2) c'(1)] complete_peek [OF s2(2) c'(1)] s2(4) show ?thesis by simp
  qed
  show ?thesis
  proof (cases r)
    case (Inl e)
    with run pf rel' rel_facts show ?thesis by (simp add: perform_claimed_def)
  next
    case (Inr x)
    show ?thesis
    proof (cases "h_record h x")
      case None
      with Inr run pf rel' rel_facts show ?thesis by (simp add: perform_claimed_def)
    next
      case (Some m)
      from finished [of m] obtain s4 where "l_complete L s2 b f now m = (s4, Inr ())" "wf s4" "up s4"
        "peek s4 b f = Some (done_attempt now m (fresh_attempt b f now))" by blast
      with Some Inr run pf show ?thesis by (simp add: perform_claimed_def)
    qed
  qed
qed

lemma performs_when_free:
  assumes "wf s" "up s" and "peek s b f = None"
  shows "\<exists>s'. dedupeWrite L s w b f now h = (s', fst (h_perform h w), map_sum Thrown id (snd (h_perform h w)))
    \<and> wf s' \<and> up s'
    \<and> peek s' b f = (case snd (h_perform h w) of
        Inl _ \<Rightarrow> None
      | Inr r \<Rightarrow> map_option (\<lambda>m. done_attempt now m (fresh_attempt b f now)) (h_record h r))"
  by (rule performs_when_expired [OF assms(1,2)]) (simp add: assms(3))

end

section \<open>The table keeps the promise\<close>

definition d1_peek :: "d1 \<Rightarrow> string \<Rightarrow> string \<Rightarrow> write_attempt option" where
  "d1_peek db b f = map_option toAttempt (find (row_is b f) (d_rows db))"

definition row_key :: "attempt_row \<Rightarrow> string \<times> string" where
  "row_key r = (at_brain r, at_fingerprint r)"

definition d1_wf :: "d1 \<Rightarrow> bool" where
  "d1_wf db \<longleftrightarrow> distinct (map row_key (d_rows db))
     \<and> (\<forall>r \<in> set (d_rows db). at_state r = ''in_flight'' \<or> at_state r = ''done'')"

definition d1_up :: "d1 \<Rightarrow> bool" where
  "d1_up db \<longleftrightarrow> True \<notin> set (d_down db)"

lemma statement_up:
  "d1_up db \<Longrightarrow> statement db g = (db', r) \<Longrightarrow>
     d1_up db' \<and> r = Inr (snd (g (d_rows db))) \<and> d_rows db' = fst (g (d_rows db))"
  by (auto simp: statement_def d1_up_def split: list.splits bool.splits prod.splits)

lemma statement_Inr: "statement db g = (db', Inr a) \<Longrightarrow> g (d_rows db) = (d_rows db', a)"
  by (auto simp: statement_def split: list.splits bool.splits prod.splits)

lemma statement_wf:
  assumes "statement db g = (db', r)" "d1_wf db"
    and "d1_wf (db\<lparr>d_rows := fst (g (d_rows db))\<rparr>)"
  shows "d1_wf db'"
  using assms by (auto simp: statement_def d1_wf_def split: list.splits bool.splits prod.splits)

lemma find_row_is_Some: "find (row_is b f) rows = Some r \<Longrightarrow> r \<in> set rows \<and> at_brain r = b \<and> at_fingerprint r = f"
  by (auto dest: find_sound simp: row_is_def)

lemma find_map_key: "(\<And>x. row_is b f (g x) = row_is b f x) \<Longrightarrow>
    find (row_is b f) (map g rows) = map_option g (find (row_is b f) rows)"
  by (induction rows) auto

lemma find_row_filter:
  "distinct (map row_key rows) \<Longrightarrow>
     find (row_is b f) (filter P rows) =
       (case find (row_is b f) rows of Some r \<Rightarrow> if P r then Some r else None | None \<Rightarrow> None)"
proof (induction rows)
  case Nil
  then show ?case by simp
next
  case (Cons x rows)
  have "find (row_is b f) (filter P rows) = None" if x: "row_is b f x"
  proof -
    have "\<not> row_is b f y" if "y \<in> set rows" for y
    proof
      assume "row_is b f y"
      with x have "row_key x = row_key y" by (simp add: row_is_def row_key_def)
      with that Cons.prems show False by (auto simp: image_iff)
    qed
    then show ?thesis by (simp add: find_None_iff)
  qed
  with Cons show ?case by auto
qed

lemma wf_map:
  assumes "d1_wf db" "\<And>x. row_key (g x) = row_key x"
    "\<And>x. at_state x \<in> {''in_flight'', ''done''} \<Longrightarrow> at_state (g x) \<in> {''in_flight'', ''done''}"
  shows "d1_wf (db\<lparr>d_rows := map g (d_rows db)\<rparr>)"
  using assms by (auto simp: d1_wf_def o_def)

lemma wf_filter: "d1_wf db \<Longrightarrow> d1_wf (db\<lparr>d_rows := filter P (d_rows db)\<rparr>)"
  by (auto simp: d1_wf_def distinct_map_filter)

lemma d1_prune_wf: "d1_wf db \<Longrightarrow> d1_prune db i d = (db', r) \<Longrightarrow> d1_wf db'"
  unfolding d1_prune_def by (erule statement_wf) (simp_all add: wf_filter)

lemma d1_release_wf: "d1_wf db \<Longrightarrow> d1_release db b f = (db', r) \<Longrightarrow> d1_wf db'"
  unfolding d1_release_def by (erule statement_wf) (simp_all add: wf_filter)

lemma d1_complete_wf: "d1_wf db \<Longrightarrow> d1_complete db b f t m = (db', r) \<Longrightarrow> d1_wf db'"
  unfolding d1_complete_def by (erule statement_wf) (auto intro!: wf_map simp: row_key_def split: if_splits)

lemma d1_read_wf: "d1_wf db \<Longrightarrow> d1_read db b f = (db', r) \<Longrightarrow> d1_wf db'"
  unfolding d1_read_def by (erule statement_wf) simp_all

lemma d1_claim_wf:
  assumes wf: "d1_wf db" and run: "d1_claim db b f t = (db', r)"
  shows "d1_wf db'"
  using run [unfolded d1_claim_def] wf
proof (rule statement_wf)
  show "d1_wf (db\<lparr>d_rows := fst (case find (row_is b f) (d_rows db) of
         None \<Rightarrow> (d_rows db @ [\<lparr>at_brain = b, at_fingerprint = f, at_state = ''in_flight'',
                     at_started = t, at_completed = None, at_summary = None\<rparr>], True)
       | Some r \<Rightarrow>
           if at_state r = ''in_flight'' \<and> at_started r < t - IN_FLIGHT_GRACE_MS
           then (map (\<lambda>x. if row_is b f x
                          then x\<lparr>at_state := ''in_flight'', at_started := t, at_completed := None,
                                 at_summary := None\<rparr> else x) (d_rows db), True)
           else (d_rows db, False))\<rparr>)"
  proof (cases "find (row_is b f) (d_rows db)")
    case None
    then have "(b, f) \<notin> row_key ` set (d_rows db)"
      by (auto simp: find_None_iff row_is_def row_key_def)
    with None wf show ?thesis by (auto simp: d1_wf_def row_key_def)
  next
    case (Some r)
    have "d1_wf (db\<lparr>d_rows := map (\<lambda>x. if row_is b f x
                          then x\<lparr>at_state := ''in_flight'', at_started := t, at_completed := None,
                                 at_summary := None\<rparr> else x) (d_rows db)\<rparr>)"
      using wf by (rule wf_map) (auto simp: row_key_def)
    with Some wf show ?thesis by simp
  qed
qed

lemma d1_prune_peek:
  assumes wf: "d1_wf db" and run: "d1_prune db i d = (db', Inr ())"
  shows "d1_peek db' b f = (case d1_peek db b f of Some a \<Rightarrow> if expired i d a then None else Some a | None \<Rightarrow> None)"
proof -
  let ?keep = "\<lambda>r. \<not> (at_state r = ''in_flight'' \<and> at_started r < i \<or> at_state r = ''done''
      \<and> (case at_completed r of Some t \<Rightarrow> t | None \<Rightarrow> at_started r) < d)"
  from statement_Inr [OF run [unfolded d1_prune_def]]
  have rows: "d_rows db' = filter ?keep (d_rows db)" by simp
  have "find (row_is b f) (d_rows db') =
      (case find (row_is b f) (d_rows db) of Some r \<Rightarrow> if ?keep r then Some r else None | None \<Rightarrow> None)"
    unfolding rows using wf by (intro find_row_filter) (simp add: d1_wf_def)
  moreover have "?keep r \<longleftrightarrow> \<not> expired i d (toAttempt r)" if "find (row_is b f) (d_rows db) = Some r" for r
  proof -
    from find_row_is_Some [OF that] wf have "at_state r = ''in_flight'' \<or> at_state r = ''done''"
      by (auto simp: d1_wf_def)
    then show ?thesis by (auto simp: expired_def toAttempt_def completed_or_started_def split: option.splits)
  qed
  ultimately show ?thesis by (auto simp: d1_peek_def split: option.splits)
qed

lemma d1_claim_won:
  assumes wf: "d1_wf db" and run: "d1_claim db b f t = (db', Inr True)"
  shows "d1_peek db' b f = Some (fresh_attempt b f t)
    \<and> (\<forall>a. d1_peek db b f = Some a \<longrightarrow> wa_state a = InFlight \<and> wa_started a < t - IN_FLIGHT_GRACE_MS)"
proof (cases "find (row_is b f) (d_rows db)")
  case None
  with statement_Inr [OF run [unfolded d1_claim_def]]
  have "d_rows db' = d_rows db @ [\<lparr>at_brain = b, at_fingerprint = f, at_state = ''in_flight'',
      at_started = t, at_completed = None, at_summary = None\<rparr>]" by simp
  moreover have "find (row_is b f) (xs @ [y]) = (if row_is b f y then Some y else None)"
    if "find (row_is b f) xs = None" for xs y using that by (induction xs) (auto split: if_splits)
  ultimately show ?thesis using None
    by (simp add: d1_peek_def row_is_def toAttempt_def fresh_attempt_def)
next
  case (Some r)
  note r = find_row_is_Some [OF Some]
  from Some statement_Inr [OF run [unfolded d1_claim_def]]
  have stale: "at_state r = ''in_flight''" "at_started r < t - IN_FLIGHT_GRACE_MS"
    and rows: "d_rows db' = map (\<lambda>x. if row_is b f x
        then x\<lparr>at_state := ''in_flight'', at_started := t, at_completed := None, at_summary := None\<rparr> else x) (d_rows db)"
    by (auto split: if_splits)
  have "find (row_is b f) (d_rows db') = map_option (\<lambda>x. if row_is b f x
        then x\<lparr>at_state := ''in_flight'', at_started := t, at_completed := None, at_summary := None\<rparr> else x)
        (find (row_is b f) (d_rows db))"
    unfolding rows by (rule find_map_key) (simp add: row_is_def)
  with Some r stale show ?thesis
    by (simp add: d1_peek_def toAttempt_def fresh_attempt_def row_is_def)
qed

lemma d1_claim_lost:
  assumes wf: "d1_wf db" and run: "d1_claim db b f t = (db', Inr False)"
  shows "d1_peek db' b f = d1_peek db b f
    \<and> (\<exists>a. d1_peek db b f = Some a \<and> (wa_state a = InFlight \<longrightarrow> t - IN_FLIGHT_GRACE_MS \<le> wa_started a))"
proof (cases "find (row_is b f) (d_rows db)")
  case None
  with statement_Inr [OF run [unfolded d1_claim_def]] show ?thesis by simp
next
  case (Some r)
  with find_row_is_Some [OF Some] wf have st: "at_state r = ''in_flight'' \<or> at_state r = ''done''"
    by (auto simp: d1_wf_def)
  from Some statement_Inr [OF run [unfolded d1_claim_def]]
  have "\<not> (at_state r = ''in_flight'' \<and> at_started r < t - IN_FLIGHT_GRACE_MS)" "d_rows db' = d_rows db"
    by (auto split: if_splits)
  with Some st show ?thesis by (auto simp: d1_peek_def toAttempt_def)
qed

lemma d1_read_peek: "d1_read db b f = (db', Inr a) \<Longrightarrow> a = d1_peek db b f \<and> d1_peek db' b f = d1_peek db b f"
  unfolding d1_read_def by (drule statement_Inr) (auto simp: d1_peek_def)

lemma d1_complete_peek:
  assumes run: "d1_complete db b f t m = (db', Inr ())"
  shows "d1_peek db' b f = map_option (done_attempt t m) (d1_peek db b f)"
proof -
  from statement_Inr [OF run [unfolded d1_complete_def]]
  have rows: "d_rows db' = map (\<lambda>x. if row_is b f x
      then x\<lparr>at_state := ''done'', at_completed := Some t, at_summary := Some m\<rparr> else x) (d_rows db)" by simp
  have "find (row_is b f) (d_rows db') = map_option (\<lambda>x. if row_is b f x
      then x\<lparr>at_state := ''done'', at_completed := Some t, at_summary := Some m\<rparr> else x)
      (find (row_is b f) (d_rows db))"
    unfolding rows by (rule find_map_key) (simp add: row_is_def)
  then show ?thesis
    by (cases "find (row_is b f) (d_rows db)")
      (auto simp: d1_peek_def toAttempt_def done_attempt_def dest!: find_row_is_Some simp: row_is_def)
qed

lemma d1_release_peek:
  assumes wf: "d1_wf db" and run: "d1_release db b f = (db', Inr ())"
  shows "d1_peek db' b f = None"
proof -
  from statement_Inr [OF run [unfolded d1_release_def]]
  have "d_rows db' = filter (\<lambda>r. \<not> row_is b f r) (d_rows db)" by simp
  then have "find (row_is b f) (d_rows db') = None" by (simp add: find_None_iff)
  then show ?thesis by (simp add: d1_peek_def)
qed

interpretation dl: write_ledger d1WriteLedger d1_peek d1_wf d1_up
proof (unfold_locales, unfold d1WriteLedger_def ledger.simps)
  show "\<And>s i d s' r. d1_up s \<Longrightarrow> d1_prune s i d = (s', r) \<Longrightarrow> d1_up s' \<and> r = Inr ()"
    unfolding d1_prune_def by (drule (1) statement_up) simp
  show "\<And>s b f t s' r. d1_up s \<Longrightarrow> d1_claim s b f t = (s', r) \<Longrightarrow> d1_up s' \<and> (\<exists>x. r = Inr x)"
    unfolding d1_claim_def by (drule (1) statement_up) blast
  show "\<And>s b f s' r. d1_up s \<Longrightarrow> d1_read s b f = (s', r) \<Longrightarrow> d1_up s' \<and> (\<exists>x. r = Inr x)"
    unfolding d1_read_def by (drule (1) statement_up) blast
  show "\<And>s b f t m s' r. d1_up s \<Longrightarrow> d1_complete s b f t m = (s', r) \<Longrightarrow> d1_up s' \<and> r = Inr ()"
    unfolding d1_complete_def by (drule (1) statement_up) simp
  show "\<And>s b f s' r. d1_up s \<Longrightarrow> d1_release s b f = (s', r) \<Longrightarrow> d1_up s' \<and> r = Inr ()"
    unfolding d1_release_def by (drule (1) statement_up) simp
qed (fact d1_prune_wf d1_claim_wf d1_read_wf d1_complete_wf d1_release_wf d1_prune_peek d1_claim_won
      d1_claim_lost d1_release_peek | erule d1_read_peek d1_complete_peek)+

section \<open>One caller after another\<close>

text \<open>
  C10.  A retry is answered, not applied: once a write has landed and was recorded, the same
  fingerprint inside the replay window leaves the repository untouched and answers with the
  attempt as the first call recorded it, whatever the retry would have written.
\<close>

theorem retry_is_replayed:
  assumes ok: "d1_wf s" "d1_up s" and new: "d1_peek s b f = None"
    and lands: "snd (h_perform h w) = Inr r" "h_record h r = Some m"
    and first: "dedupeWrite d1WriteLedger s w b f t1 h = (s1, w1, res)"
    and window: "t2 - t1 < DONE_TTL_MS"
  shows "\<exists>s2. dedupeWrite d1WriteLedger s1 w' b f t2 h' =
           (s2, w', Inr (h_replay h' (done_attempt t1 m (fresh_attempt b f t1))))"
proof -
  from dl.performs_when_free [OF ok new, of w t1 h] first lands
  have s1: "d1_wf s1" "d1_up s1" "d1_peek s1 b f = Some (done_attempt t1 m (fresh_attempt b f t1))"
    by auto
  have "wa_state (done_attempt t1 m (fresh_attempt b f t1)) = Done"
    "completed_or_started (done_attempt t1 m (fresh_attempt b f t1)) = t1"
    by (simp_all add: done_attempt_def completed_or_started_def)
  with dl.answered_from_ledger [OF s1, of t2 w' h'] window show ?thesis by auto
qed

definition append_handlers :: "(string, string, string) write_handlers" where
  "append_handlers =
     \<lparr>h_perform = (\<lambda>page. (page @ ''!'', Inr ''ok'')), h_record = (\<lambda>r. Some r),
       h_replay = (\<lambda>_. ''already applied''), h_in_flight = (\<lambda>_. ''still running'')\<rparr>"

definition empty_ledger :: d1 where
  "empty_ledger = \<lparr>d_rows = [], d_down = []\<rparr>"

lemma empty_ledger_ok: "d1_wf empty_ledger" "d1_up empty_ledger" "d1_peek empty_ledger b f = None"
  by (simp_all add: empty_ledger_def d1_wf_def d1_up_def d1_peek_def)

theorem retry_is_replayed_witness:
  "\<exists>s1 s2. dedupeWrite d1WriteLedger empty_ledger ''page'' ''b'' ''f'' 1000 append_handlers = (s1, ''page!'', Inr ''ok'')
     \<and> dedupeWrite d1WriteLedger s1 ''page!'' ''b'' ''f'' 31000 append_handlers = (s2, ''page!'', Inr ''already applied'')"
proof -
  let ?h = append_handlers
  have perform: "h_perform ?h ''page'' = (''page!'', Inr ''ok'')" "h_record ?h ''ok'' = Some ''ok''"
    by (simp_all add: append_handlers_def)
  from dl.performs_when_free [OF empty_ledger_ok(1,2) empty_ledger_ok(3) [of "''b''" "''f''"], of "''page''" 1000 ?h] perform
  obtain s1 where s1: "dedupeWrite d1WriteLedger empty_ledger ''page'' ''b'' ''f'' 1000 ?h = (s1, ''page!'', Inr ''ok'')"
    by auto
  have p: "snd (h_perform ?h ''page'') = Inr ''ok''" using perform by simp
  from retry_is_replayed [OF empty_ledger_ok(1,2) empty_ledger_ok(3) p perform(2) s1,
      of 31000 "''page!''" ?h]
  have "\<exists>s2. dedupeWrite d1WriteLedger s1 ''page!'' ''b'' ''f'' 31000 ?h = (s2, ''page!'', Inr ''already applied'')"
    by (simp add: windows append_handlers_def)
  with s1 show ?thesis by blast
qed

text \<open>
  C11.  A refusal stays retryable at once: when the first call throws or has nothing to record, the
  row is given back, and the next call with the same fingerprint performs, however soon it comes.
\<close>

theorem refusal_is_retryable:
  assumes ok: "d1_wf s" "d1_up s" and new: "d1_peek s b f = None"
    and refused: "case snd (h_perform h w) of Inl _ \<Rightarrow> True | Inr r \<Rightarrow> h_record h r = None"
    and first: "dedupeWrite d1WriteLedger s w b f t1 h = (s1, w1, res)"
  shows "w1 = fst (h_perform h w) \<and> res = map_sum Thrown id (snd (h_perform h w))
    \<and> (\<exists>s2. dedupeWrite d1WriteLedger s1 w' b f t2 h' =
           (s2, fst (h_perform h' w'), map_sum Thrown id (snd (h_perform h' w'))))"
proof -
  from dl.performs_when_free [OF ok new, of w t1 h] first refused
  have s1: "d1_wf s1" "d1_up s1" "d1_peek s1 b f = None"
    and out: "w1 = fst (h_perform h w)" "res = map_sum Thrown id (snd (h_perform h w))"
    by (auto split: sum.splits)
  from dl.performs_when_free [OF s1, of w' t2 h'] out show ?thesis by blast
qed

definition refusing_handlers :: "(string, string, string) write_handlers" where
  "refusing_handlers = append_handlers\<lparr>h_perform := (\<lambda>page. (page, Inl ''no such page''))\<rparr>"

theorem refusal_is_retryable_witness:
  "\<exists>s1 s2. dedupeWrite d1WriteLedger empty_ledger ''page'' ''b'' ''f'' 0 refusing_handlers
       = (s1, ''page'', Inl (Thrown ''no such page''))
     \<and> dedupeWrite d1WriteLedger s1 ''page'' ''b'' ''f'' 0 append_handlers = (s2, ''page!'', Inr ''ok'')"
proof -
  obtain s1 w1 res where first: "dedupeWrite d1WriteLedger empty_ledger ''page'' ''b'' ''f'' 0 refusing_handlers = (s1, w1, res)"
    by (metis prod_cases3)
  have "case snd (h_perform refusing_handlers ''page'') of Inl _ \<Rightarrow> True | Inr r \<Rightarrow> h_record refusing_handlers r = None"
    by (simp add: refusing_handlers_def)
  from refusal_is_retryable [OF empty_ledger_ok(1,2) empty_ledger_ok(3) this first, of "''page''" 0 append_handlers] first
  show ?thesis by (simp add: refusing_handlers_def append_handlers_def)
qed

text \<open>
  C30.  An abandoned claim does not block for ever: whatever call left the row in flight (a crash, a
  killed worker) and however the table looks otherwise, an identical call past the grace window
  performs, and afterwards the row says whether that write landed.
\<close>

theorem abandoned_claim_recovers:
  assumes "d1_wf s" "d1_up s" and row: "d1_peek s b f = Some a" "wa_state a = InFlight"
    and late: "IN_FLIGHT_GRACE_MS < now - wa_started a"
  shows "\<exists>s'. dedupeWrite d1WriteLedger s w b f now h
       = (s', fst (h_perform h w), map_sum Thrown id (snd (h_perform h w)))
     \<and> d1_peek s' b f = (case snd (h_perform h w) of
          Inl _ \<Rightarrow> None
        | Inr r \<Rightarrow> map_option (\<lambda>m. done_attempt now m (fresh_attempt b f now)) (h_record h r))"
proof -
  have "expired (now - IN_FLIGHT_GRACE_MS) (now - DONE_TTL_MS) x" if "d1_peek s b f = Some x" for x
    using that row late by (simp add: expired_def)
  from dl.performs_when_expired [where b = b and f = f and w = w and h = h, OF assms(1,2) this] obtain s' where
    "dedupeWrite d1WriteLedger s w b f now h = (s', fst (h_perform h w), map_sum Thrown id (snd (h_perform h w)))"
    "d1_peek s' b f = (case snd (h_perform h w) of
        Inl _ \<Rightarrow> None
      | Inr r \<Rightarrow> map_option (\<lambda>m. done_attempt now m (fresh_attempt b f now)) (h_record h r))"
    by blast
  then show ?thesis by (intro exI conjI)
qed

definition crashed_ledger :: d1 where
  "crashed_ledger =
     \<lparr>d_rows = [\<lparr>at_brain = ''b'', at_fingerprint = ''f'', at_state = ''in_flight'', at_started = 0,
                at_completed = None, at_summary = None\<rparr>], d_down = []\<rparr>"

theorem abandoned_claim_recovers_witness:
  "\<exists>s'. dedupeWrite d1WriteLedger crashed_ledger ''page'' ''b'' ''f'' 120001 append_handlers = (s', ''page!'', Inr ''ok'')"
proof -
  let ?a = "\<lparr>wa_brain = ''b'', wa_fingerprint = ''f'', wa_state = InFlight, wa_started = 0, wa_completed = None,
             wa_summary = None\<rparr>"
  have "d1_wf crashed_ledger" "d1_up crashed_ledger" by (simp_all add: crashed_ledger_def d1_wf_def d1_up_def)
  moreover have "d1_peek crashed_ledger ''b'' ''f'' = Some ?a"
    by (simp add: crashed_ledger_def d1_peek_def row_is_def toAttempt_def)
  ultimately obtain s' where "dedupeWrite d1WriteLedger crashed_ledger ''page'' ''b'' ''f'' 120001 append_handlers
      = (s', fst (h_perform append_handlers ''page''), map_sum Thrown id (snd (h_perform append_handlers ''page'')))"
    using abandoned_claim_recovers [of crashed_ledger "''b''" "''f''" ?a 120001 "''page''" append_handlers]
    by (auto simp: windows)
  then show ?thesis by (intro exI [of _ s']) (simp add: append_handlers_def)
qed

text \<open>
  C12.  Bookkeeping never changes the answer: whatever statements of the ledger fail, either nothing
  was performed and the repository is as it was, or exactly one perform ran and the call answers
  with that perform's own result.
\<close>

theorem bookkeeping_never_changes_answer:
  "(\<exists>s'. dedupeWrite L s w b f now h =
        (s', fst (h_perform h w), map_sum Thrown id (snd (h_perform h w))))
   \<or> (\<exists>s' res. dedupeWrite L s w b f now h = (s', w, res)
        \<and> ((\<exists>x. res = Inl (LedgerDown x)) \<or> (\<exists>a. res = Inr (h_replay h a)) \<or> (\<exists>a. res = Inr (h_in_flight h a))))"
proof -
  have pc: "\<exists>s'. perform_claimed L s0 w b f now h =
      (s', fst (h_perform h w), map_sum Thrown id (snd (h_perform h w)))" for s0
    by (cases "h_perform h w") (auto simp: perform_claimed_def split: sum.splits option.splits)
  show ?thesis
    unfolding dedupeWrite_def
    using pc by (auto split: prod.splits sum.splits bool.splits write_verdict.splits)
qed

section \<open>Callers side by side\<close>

text \<open>
  \<open>dedupeWrite\<close> cut at its awaits: where a call stands, and the step it makes from there on the shared
  table and repository.  The steps of one call left alone are \<open>dedupeWrite\<close> (\<open>steps_are_dedupeWrite\<close>).
\<close>

datatype ('e, 'r) call_state =
    At_prune | At_claim | At_read | At_reclaim | At_perform
  | At_complete string 'r
  | At_release "'e write_failure + 'r"
  | Answered "'e write_failure + 'r"

record call_key =
  ck_brain :: string
  ck_fingerprint :: string
  ck_now :: int

definition call_step ::
  "'s ledger \<Rightarrow> ('w, 'e, 'r) write_handlers \<Rightarrow> call_key \<Rightarrow> 's \<times> 'w \<times> ('e, 'r) call_state \<Rightarrow> 's \<times> 'w \<times> ('e, 'r) call_state" where
  "call_step L h k c =
     (case c of (s, w, st) \<Rightarrow>
       (case st of
          At_prune \<Rightarrow>
            (case l_prune L s (ck_now k - IN_FLIGHT_GRACE_MS) (ck_now k - DONE_TTL_MS) of
               (s', Inl f) \<Rightarrow> (s', w, Answered (Inl (LedgerDown f))) | (s', Inr _) \<Rightarrow> (s', w, At_claim))
        | At_claim \<Rightarrow>
            (case l_claim L s (ck_brain k) (ck_fingerprint k) (ck_now k) of
               (s', Inl f) \<Rightarrow> (s', w, Answered (Inl (LedgerDown f)))
             | (s', Inr mine) \<Rightarrow> (s', w, if mine then At_perform else At_read))
        | At_read \<Rightarrow>
            (case l_read L s (ck_brain k) (ck_fingerprint k) of
               (s', Inl f) \<Rightarrow> (s', w, Answered (Inl (LedgerDown f)))
             | (s', Inr attempt) \<Rightarrow>
                 (case decideWrite attempt (ck_now k) of
                    Replay a \<Rightarrow> (s', w, Answered (Inr (h_replay h a)))
                  | InProgress a \<Rightarrow> (s', w, Answered (Inr (h_in_flight h a)))
                  | Claimed \<Rightarrow> (s', w, At_reclaim)))
        | At_reclaim \<Rightarrow>
            (case l_claim L s (ck_brain k) (ck_fingerprint k) (ck_now k) of
               (s', Inl f) \<Rightarrow> (s', w, Answered (Inl (LedgerDown f))) | (s', Inr _) \<Rightarrow> (s', w, At_perform))
        | At_perform \<Rightarrow>
            (case h_perform h w of
               (w', Inl err) \<Rightarrow> (s, w', At_release (Inl (Thrown err)))
             | (w', Inr result) \<Rightarrow>
                 (case h_record h result of
                    None \<Rightarrow> (s, w', At_release (Inr result)) | Some summary \<Rightarrow> (s, w', At_complete summary result)))
        | At_complete summary result \<Rightarrow>
            (fst (l_complete L s (ck_brain k) (ck_fingerprint k) (ck_now k) summary), w, Answered (Inr result))
        | At_release res \<Rightarrow> (fst (l_release L s (ck_brain k) (ck_fingerprint k)), w, Answered res)
        | Answered res \<Rightarrow> (s, w, Answered res)))"

lemma call_step_answered [simp]: "call_step L h k (s, w, Answered res) = (s, w, Answered res)"
  by (simp add: call_step_def)

lemma steps_perform:
  assumes "perform_claimed L s w (ck_brain k) (ck_fingerprint k) (ck_now k) h = (s', w', res)"
  shows "call_step L h k (call_step L h k (s, w, At_perform)) = (s', w', Answered res)"
  using assms by (auto simp: perform_claimed_def call_step_def split: prod.splits sum.splits option.splits)

lemma steps_are_dedupeWrite:
  assumes run: "dedupeWrite L s w (ck_brain k) (ck_fingerprint k) (ck_now k) h = (s', w', res)"
  shows "(call_step L h k ^^ 6) (s, w, At_prune) = (s', w', Answered res)"
proof -
  let ?step = "call_step L h k"
  have six: "(?step ^^ 6) c = ?step (?step (?step (?step (?step (?step c)))))" for c
    by (simp add: numeral_eq_Suc)
  obtain s1 r1 where 1: "l_prune L s (ck_now k - IN_FLIGHT_GRACE_MS) (ck_now k - DONE_TTL_MS) = (s1, r1)" by fastforce
  obtain s2 r2 where 2: "l_claim L s1 (ck_brain k) (ck_fingerprint k) (ck_now k) = (s2, r2)" by fastforce
  obtain s3 r3 where 3: "l_read L s2 (ck_brain k) (ck_fingerprint k) = (s3, r3)" by fastforce
  obtain s4 r4 where 4: "l_claim L s3 (ck_brain k) (ck_fingerprint k) (ck_now k) = (s4, r4)" by fastforce
  have prune: "?step (s, w, At_prune) = (case r1 of Inl f \<Rightarrow> (s1, w, Answered (Inl (LedgerDown f))) | Inr _ \<Rightarrow> (s1, w, At_claim))"
    by (simp add: call_step_def 1 split: sum.split)
  have claim: "?step (s1, w, At_claim) = (case r2 of Inl f \<Rightarrow> (s2, w, Answered (Inl (LedgerDown f)))
      | Inr mine \<Rightarrow> (s2, w, if mine then At_perform else At_read))"
    by (simp add: call_step_def 2 split: sum.split)
  have read: "?step (s2, w, At_read) = (case r3 of Inl f \<Rightarrow> (s3, w, Answered (Inl (LedgerDown f)))
      | Inr attempt \<Rightarrow> (case decideWrite attempt (ck_now k) of Replay a \<Rightarrow> (s3, w, Answered (Inr (h_replay h a)))
          | InProgress a \<Rightarrow> (s3, w, Answered (Inr (h_in_flight h a))) | Claimed \<Rightarrow> (s3, w, At_reclaim)))"
    by (simp add: call_step_def 3 split: sum.split)
  have reclaim: "?step (s3, w, At_reclaim) = (case r4 of Inl f \<Rightarrow> (s4, w, Answered (Inl (LedgerDown f))) | Inr _ \<Rightarrow> (s4, w, At_perform))"
    by (simp add: call_step_def 4 split: sum.split)
  show ?thesis
  proof (cases r1)
    case (Inl f)
    with run have "s' = s1" "w' = w" "res = Inl (LedgerDown f)" by (simp_all add: dedupeWrite_def 1)
    with Inl show ?thesis by (simp add: six prune)
  next
    case r1: (Inr x)
    show ?thesis
    proof (cases r2)
      case (Inl f)
      with run r1 have "s' = s2" "w' = w" "res = Inl (LedgerDown f)" by (simp_all add: dedupeWrite_def 1 2)
      with Inl r1 show ?thesis by (simp add: six prune claim)
    next
      case r2: (Inr mine)
      show ?thesis
      proof (cases mine)
        case True
        with run r1 r2 have "perform_claimed L s2 w (ck_brain k) (ck_fingerprint k) (ck_now k) h = (s', w', res)"
          by (simp add: dedupeWrite_def 1 2)
        from steps_perform [OF this] True r1 r2 show ?thesis by (simp add: six prune claim)
      next
        case False
        show ?thesis
        proof (cases r3)
          case (Inl f)
          with run r1 r2 False have "s' = s3" "w' = w" "res = Inl (LedgerDown f)"
            by (simp_all add: dedupeWrite_def 1 2 3)
          with Inl r1 r2 False show ?thesis by (simp add: six prune claim read)
        next
          case r3: (Inr attempt)
          show ?thesis
          proof (cases "decideWrite attempt (ck_now k)")
            case Claimed
            show ?thesis
            proof (cases r4)
              case (Inl f)
              with run r1 r2 r3 False Claimed have "s' = s4" "w' = w" "res = Inl (LedgerDown f)"
                by (simp_all add: dedupeWrite_def 1 2 3 4)
              with Inl r1 r2 r3 False Claimed show ?thesis by (simp add: six prune claim read reclaim)
            next
              case r4: (Inr y)
              with run r1 r2 r3 False Claimed
              have "perform_claimed L s4 w (ck_brain k) (ck_fingerprint k) (ck_now k) h = (s', w', res)"
                by (simp add: dedupeWrite_def 1 2 3 4)
              from steps_perform [OF this] r1 r2 r3 r4 False Claimed show ?thesis
                by (simp add: six prune claim read reclaim)
            qed
          next
            case (Replay a)
            with run r1 r2 r3 False have "s' = s3" "w' = w" "res = Inr (h_replay h a)"
              by (simp_all add: dedupeWrite_def 1 2 3)
            with Replay r1 r2 r3 False show ?thesis by (simp add: six prune claim read)
          next
            case (InProgress a)
            with run r1 r2 r3 False have "s' = s3" "w' = w" "res = Inr (h_in_flight h a)"
              by (simp_all add: dedupeWrite_def 1 2 3)
            with InProgress r1 r2 r3 False show ?thesis by (simp add: six prune claim read)
          qed
        qed
      qed
    qed
  qed
qed

text \<open>
  Any number of calls, each with its own key, clock and handlers, on one table and one repository; a
  schedule names the call that makes the next step.  \<open>wd_performed\<close> remembers whose perform ran, in order.
\<close>

record ('w, 'e, 'r) write_world =
  wd_table :: d1
  wd_repo :: 'w
  wd_calls :: "nat \<Rightarrow> ('e, 'r) call_state"
  wd_performed :: "nat list"

definition world_step_of ::
  "(nat \<Rightarrow> call_key) \<Rightarrow> (nat \<Rightarrow> ('w, 'e, 'r) write_handlers) \<Rightarrow> nat \<Rightarrow> ('w, 'e, 'r) write_world \<Rightarrow> ('w, 'e, 'r) write_world" where
  "world_step_of keys hs i u =
     (case call_step d1WriteLedger (hs i) (keys i) (wd_table u, wd_repo u, wd_calls u i) of (t, w, c) \<Rightarrow>
        u\<lparr>wd_table := t, wd_repo := w, wd_calls := (wd_calls u)(i := c),
          wd_performed := wd_performed u @ (if wd_calls u i = At_perform then [i] else [])\<rparr>)"

definition run_schedule ::
  "(nat \<Rightarrow> call_key) \<Rightarrow> (nat \<Rightarrow> ('w, 'e, 'r) write_handlers) \<Rightarrow> nat list \<Rightarrow> ('w, 'e, 'r) write_world \<Rightarrow> ('w, 'e, 'r) write_world" where
  "run_schedule keys hs schedule u = fold (world_step_of keys hs) schedule u"

definition key_is :: "string \<Rightarrow> string \<Rightarrow> call_key \<Rightarrow> bool" where
  "key_is b f k \<longleftrightarrow> ck_brain k = b \<and> ck_fingerprint k = f"

section \<open>What a statement about one key leaves of another\<close>

lemma statement_fault: "statement db g = (db', Inl x) \<Longrightarrow> d_rows db' = d_rows db"
  by (auto simp: statement_def split: list.splits bool.splits prod.splits)

lemma statement_rows: "statement db g = (db', r) \<Longrightarrow> d_rows db' = d_rows db \<or> d_rows db' = fst (g (d_rows db))"
  by (auto simp: statement_def split: list.splits bool.splits prod.splits)

lemma peek_rows: "d_rows db' = d_rows db \<Longrightarrow> d1_peek db' b f = d1_peek db b f"
  by (simp add: d1_peek_def)

lemma row_is_other: "(b', f') \<noteq> (b, f) \<Longrightarrow> row_is b f r \<Longrightarrow> \<not> row_is b' f' r"
  by (auto simp: row_is_def)

lemma find_map_other:
  assumes "(b', f') \<noteq> (b, f)" "\<And>x. row_is b' f' x \<Longrightarrow> row_is b' f' (g x)"
  shows "find (row_is b f) (map (\<lambda>x. if row_is b' f' x then g x else x) rows) = find (row_is b f) rows"
  by (induction rows) (auto dest: row_is_other [OF assms(1)] assms(2))

lemma d1_complete_other:
  assumes "(b', f') \<noteq> (b, f)" "d1_complete db b' f' t m = (db', r)"
  shows "d1_peek db' b f = d1_peek db b f"
proof -
  have "find (row_is b f) (map (\<lambda>x. if row_is b' f' x then x\<lparr>at_state := ''done'', at_completed := Some t, at_summary := Some m\<rparr> else x) rows)
      = find (row_is b f) rows" for rows
    by (rule find_map_other [OF assms(1)]) (simp add: row_is_def)
  with statement_rows [OF assms(2) [unfolded d1_complete_def]] show ?thesis by (auto simp: d1_peek_def)
qed

lemma d1_release_other:
  assumes "(b', f') \<noteq> (b, f)" "d1_release db b' f' = (db', r)"
  shows "d1_peek db' b f = d1_peek db b f"
proof -
  have "find (row_is b f) (filter (\<lambda>r. \<not> row_is b' f' r) rows) = find (row_is b f) rows" for rows
    by (induction rows) (auto dest: row_is_other [OF assms(1)])
  with statement_rows [OF assms(2) [unfolded d1_release_def]] show ?thesis by (auto simp: d1_peek_def)
qed

lemma d1_read_any: "d1_read db b' f' = (db', r) \<Longrightarrow> d1_peek db' b f = d1_peek db b f"
  unfolding d1_read_def by (drule statement_rows) (simp add: d1_peek_def)

lemma d1_claim_other:
  assumes "(b', f') \<noteq> (b, f)" "d1_claim db b' f' t = (db', r)"
  shows "d1_peek db' b f = d1_peek db b f"
proof -
  have add: "find (row_is b f) (rows @ [x]) = find (row_is b f) rows" if "row_is b' f' x" for rows x
    using that row_is_other [OF assms(1)] by (induction rows) auto
  have upd: "find (row_is b f) (map (\<lambda>x. if row_is b' f' x then x\<lparr>at_state := ''in_flight'', at_started := t, at_completed := None,
                                 at_summary := None\<rparr> else x) rows) = find (row_is b f) rows" for rows
    by (rule find_map_other [OF assms(1)]) (simp add: row_is_def)
  have "find (row_is b f) (fst (case find (row_is b' f') rows of
         None \<Rightarrow> (rows @ [\<lparr>at_brain = b', at_fingerprint = f', at_state = ''in_flight'',
                     at_started = t, at_completed = None, at_summary = None\<rparr>], True)
       | Some r \<Rightarrow>
           if at_state r = ''in_flight'' \<and> at_started r < t - IN_FLIGHT_GRACE_MS
           then (map (\<lambda>x. if row_is b' f' x then x\<lparr>at_state := ''in_flight'', at_started := t, at_completed := None,
                                 at_summary := None\<rparr> else x) rows, True)
           else (rows, False))) = find (row_is b f) rows" for rows
    by (simp add: add upd row_is_def [of b' f'] split: option.split) (simp add: row_is_def [symmetric] upd)
  with statement_rows [OF assms(2) [unfolded d1_claim_def]] show ?thesis by (auto simp: d1_peek_def)
qed

lemma d1_fault_peek:
  "d1_prune db i d = (db', Inl x) \<Longrightarrow> d1_peek db' b f = d1_peek db b f"
  "d1_claim db b' f' t = (db', Inl x) \<Longrightarrow> d1_peek db' b f = d1_peek db b f"
  "d1_complete db b' f' t m = (db', Inl x) \<Longrightarrow> d1_peek db' b f = d1_peek db b f"
  unfolding d1_prune_def d1_claim_def d1_complete_def by (drule statement_fault, rule peek_rows, assumption)+


section \<open>One holder\<close>

text \<open>Calls that hold the row, or are about to act as if they did.\<close>

fun holding :: "('e, 'r) call_state \<Rightarrow> bool" where
  "holding At_reclaim = True"
| "holding At_perform = True"
| "holding (At_complete m r) = True"
| "holding (At_release x) = True"
| "holding _ = False"

fun waiting :: "('e, 'r) call_state \<Rightarrow> bool" where
  "waiting At_prune = True"
| "waiting At_claim = True"
| "waiting (Answered x) = True"
| "waiting _ = False"

fun past_landing :: "('e, 'r) call_state \<Rightarrow> bool" where
  "past_landing (At_complete m r) = True"
| "past_landing (Answered x) = True"
| "past_landing _ = False"

lemma waiting_not_holding: "waiting c \<Longrightarrow> \<not> holding c" by (cases c) auto

definition performs_of :: "string \<Rightarrow> string \<Rightarrow> (nat \<Rightarrow> call_key) \<Rightarrow> ('w, 'e, 'r) write_world \<Rightarrow> nat list" where
  "performs_of b f keys u = filter (\<lambda>i. key_is b f (keys i)) (wd_performed u)"

text \<open>Call \<open>k\<close> accounts for the row \<open>a\<close>, after \<open>n\<close> performs.\<close>

definition held_by ::
  "string \<Rightarrow> string \<Rightarrow> (nat \<Rightarrow> call_key) \<Rightarrow> (nat \<Rightarrow> ('e, 'r) call_state) \<Rightarrow> nat \<Rightarrow> nat \<Rightarrow> write_attempt \<Rightarrow> bool" where
  "held_by b f keys calls n k a \<longleftrightarrow>
     key_is b f (keys k) \<and> (\<forall>i. key_is b f (keys i) \<and> holding (calls i) \<longrightarrow> i = k)
     \<and> (if wa_state a = InFlight
        then wa_started a = ck_now (keys k) \<and> (calls k = At_perform \<and> n = 0 \<or> past_landing (calls k) \<and> n = 1)
        else wa_completed a = Some (ck_now (keys k)) \<and> \<not> holding (calls k) \<and> n = 1)"

definition one_holder :: "string \<Rightarrow> string \<Rightarrow> (nat \<Rightarrow> call_key) \<Rightarrow> ('w, 'e, 'r) write_world \<Rightarrow> bool" where
  "one_holder b f keys u \<longleftrightarrow> d1_wf (wd_table u) \<and>
     (case d1_peek (wd_table u) b f of
        None \<Rightarrow> length (performs_of b f keys u) = 0 \<and> (\<forall>i. key_is b f (keys i) \<longrightarrow> waiting (wd_calls u i))
      | Some a \<Rightarrow> \<exists>k. held_by b f keys (wd_calls u) (length (performs_of b f keys u)) k a)"

lemma holder_is:
  assumes "one_holder b f keys u" "key_is b f (keys i)" "holding (wd_calls u i)"
  obtains a where "d1_peek (wd_table u) b f = Some a"
    "held_by b f keys (wd_calls u) (length (performs_of b f keys u)) i a" "wa_state a = InFlight"
    "wd_calls u i = At_perform \<and> length (performs_of b f keys u) = 0
      \<or> (\<exists>m r. wd_calls u i = At_complete m r) \<and> length (performs_of b f keys u) = 1"
proof (cases "d1_peek (wd_table u) b f")
  case None
  with assms show thesis by (auto simp: one_holder_def dest: waiting_not_holding)
next
  case (Some a)
  with assms(1) obtain k where k: "held_by b f keys (wd_calls u) (length (performs_of b f keys u)) k a"
    by (auto simp: one_holder_def)
  with assms(2,3) have "i = k" by (auto simp: held_by_def)
  with k assms(3) that [OF Some] show thesis
    by (cases "wd_calls u i") (auto simp: held_by_def split: if_splits)
qed

text \<open>A step of another call, or of one that neither holds the row nor comes to hold it, changes nothing.\<close>

lemma one_holder_move:
  assumes inv: "one_holder b f keys u" and t: "d1_wf t" "d1_peek t b f = d1_peek (wd_table u) b f"
    and idle: "key_is b f (keys i) \<Longrightarrow> \<not> holding (wd_calls u i) \<and> \<not> holding c \<and> \<not> past_landing (wd_calls u i)
          \<and> (d1_peek t b f = None \<longrightarrow> waiting c)"
    and n: "length (performs_of b f keys v) = length (performs_of b f keys u)"
    and v: "wd_table v = t" "wd_calls v = (wd_calls u)(i := c)"
  shows "one_holder b f keys v"
proof (cases "d1_peek (wd_table u) b f")
  case None
  with inv t idle n v show ?thesis by (auto simp: one_holder_def)
next
  case (Some a)
  with inv obtain k where k: "held_by b f keys (wd_calls u) (length (performs_of b f keys u)) k a"
    by (auto simp: one_holder_def)
  have "held_by b f keys (wd_calls v) (length (performs_of b f keys v)) k a"
  proof (cases "i = k")
    case True
    with k have "key_is b f (keys i)" by (simp add: held_by_def)
    with idle k True v n show ?thesis by (auto simp: held_by_def split: if_splits)
  next
    case False
    with k idle v n show ?thesis by (auto simp: held_by_def split: if_splits)
  qed
  with Some t v show ?thesis by (auto simp: one_holder_def)
qed


lemma performs_of_step:
  "performs_of b f keys (world_step_of keys hs i u)
    = performs_of b f keys u @ (if wd_calls u i = At_perform \<and> key_is b f (keys i) then [i] else [])"
  by (auto simp: performs_of_def world_step_of_def split: prod.split)

lemma world_step_sel:
  assumes "call_step d1WriteLedger (hs i) (keys i) (wd_table u, wd_repo u, wd_calls u i) = (t, w, c)"
  shows "wd_table (world_step_of keys hs i u) = t" "wd_calls (world_step_of keys hs i u) = (wd_calls u)(i := c)"
  using assms by (simp_all add: world_step_of_def)

lemma call_step_other:
  assumes wf: "d1_wf s" and k: "\<not> key_is b f k" and step: "call_step d1WriteLedger h k (s, w, c) = (t, w', c')"
    and live: "\<And>a. d1_peek s b f = Some a \<Longrightarrow> \<not> expired (ck_now k - IN_FLIGHT_GRACE_MS) (ck_now k - DONE_TTL_MS) a"
  shows "d1_wf t \<and> d1_peek t b f = d1_peek s b f"
proof -
  have ne: "(ck_brain k, ck_fingerprint k) \<noteq> (b, f)" using k by (auto simp: key_is_def)
  have prune: "d1_peek t b f = d1_peek s b f" if "d1_prune s (ck_now k - IN_FLIGHT_GRACE_MS) (ck_now k - DONE_TTL_MS) = (t, r)" for t r
  proof (cases r)
    case (Inl x)
    with that show ?thesis using d1_fault_peek(1) by blast
  next
    case (Inr x)
    with that live d1_prune_peek [OF wf, of _ _ t b f] show ?thesis by (auto split: option.splits)
  qed
  show ?thesis
  proof (cases c)
    case At_prune
    with step prune d1_prune_wf [OF wf] show ?thesis
      by (auto simp: call_step_def d1WriteLedger_def split: prod.splits sum.splits)
  next
    case At_claim
    with step d1_claim_wf [OF wf] d1_claim_other [OF ne] show ?thesis
      by (auto simp: call_step_def d1WriteLedger_def split: prod.splits sum.splits)
  next
    case At_read
    with step d1_read_wf [OF wf] d1_read_any show ?thesis
      by (auto simp: call_step_def d1WriteLedger_def split: prod.splits sum.splits write_verdict.splits)
  next
    case At_reclaim
    with step d1_claim_wf [OF wf] d1_claim_other [OF ne] show ?thesis
      by (auto simp: call_step_def d1WriteLedger_def split: prod.splits sum.splits)
  next
    case At_perform
    with step wf show ?thesis
      by (auto simp: call_step_def split: prod.splits sum.splits option.splits)
  next
    case (At_complete m r)
    obtain t' x where "d1_complete s (ck_brain k) (ck_fingerprint k) (ck_now k) m = (t', x)" by fastforce
    with At_complete step d1_complete_wf [OF wf] d1_complete_other [OF ne] show ?thesis
      by (auto simp: call_step_def d1WriteLedger_def)
  next
    case (At_release r)
    obtain t' x where "d1_release s (ck_brain k) (ck_fingerprint k) = (t', x)" by fastforce
    with At_release step d1_release_wf [OF wf] d1_release_other [OF ne] show ?thesis
      by (auto simp: call_step_def d1WriteLedger_def)
  next
    case (Answered r)
    with step wf show ?thesis by simp
  qed
qed

definition always_lands :: "('w, 'e, 'r) write_handlers \<Rightarrow> bool" where
  "always_lands h \<longleftrightarrow> (\<forall>w. \<exists>w' r m. h_perform h w = (w', Inr r) \<and> h_record h r = Some m)"

lemma one_holder_step:
  assumes inv: "one_holder b f keys u"
    and spread: "\<And>i j. key_is b f (keys i) \<Longrightarrow> ck_now (keys j) - ck_now (keys i) < IN_FLIGHT_GRACE_MS"
    and lands: "\<And>i. key_is b f (keys i) \<Longrightarrow> always_lands (hs i)"
  shows "one_holder b f keys (world_step_of keys hs i u)"
proof -
  let ?k = "keys i" and ?v = "world_step_of keys hs i u"
  have wf: "d1_wf (wd_table u)" using inv by (simp add: one_holder_def)
  have live: "\<not> expired (ck_now (keys j) - IN_FLIGHT_GRACE_MS) (ck_now (keys j) - DONE_TTL_MS) a
      \<and> decideWrite (Some a) (ck_now (keys j)) \<noteq> Claimed"
    if a: "d1_peek (wd_table u) b f = Some a" for a j
  proof -
    from inv a obtain k where k: "key_is b f (keys k)"
      "if wa_state a = InFlight then wa_started a = ck_now (keys k) else wa_completed a = Some (ck_now (keys k))"
      by (auto simp: one_holder_def held_by_def split: if_splits)
    with spread [OF k(1), of j] show ?thesis
      by (cases "wa_state a") (auto simp: expired_def decideWrite_def completed_or_started_def windows)
  qed
  obtain t w c where st: "call_step d1WriteLedger (hs i) ?k (wd_table u, wd_repo u, wd_calls u i) = (t, w, c)"
    by (metis prod_cases3)
  note v = world_step_sel [where hs = hs and keys = keys and i = i and u = u, OF st]
  show ?thesis
  proof (cases "key_is b f ?k")
    case False
    have "d1_wf t \<and> d1_peek t b f = d1_peek (wd_table u) b f"
      by (rule call_step_other [OF wf False st]) (use live in blast)
    then show ?thesis
      by (intro one_holder_move [where v = ?v and i = i, OF inv _ _ _ _ v]) (simp_all add: False performs_of_step)
  next
    case key: True
    then have b: "ck_brain ?k = b" "ck_fingerprint ?k = f" by (simp_all add: key_is_def)
    note move = one_holder_move [where v = ?v and i = i, OF inv _ _ _ _ v]
    note sim = call_step_def d1WriteLedger_def b
    show ?thesis
    proof (cases "wd_calls u i")
      case At_prune
      obtain r where p: "d1_prune (wd_table u) (ck_now ?k - IN_FLIGHT_GRACE_MS) (ck_now ?k - DONE_TTL_MS) = (t, r)"
        and c: "waiting c"
        using st At_prune by (auto simp: sim split: prod.splits sum.splits)
      have "d1_peek t b f = d1_peek (wd_table u) b f"
      proof (cases r)
        case (Inl x)
        with p show ?thesis using d1_fault_peek(1) by blast
      next
        case (Inr x)
        with p live [of _ i] d1_prune_peek [OF wf, of _ _ t b f] show ?thesis by (auto split: option.splits)
      qed
      then show ?thesis using d1_prune_wf [OF wf p] c
        by (intro move) (auto simp: At_prune performs_of_step dest: waiting_not_holding)
    next
      case At_claim
      obtain r where p: "d1_claim (wd_table u) b f (ck_now ?k) = (t, r)"
        and c: "c = (case r of Inl x \<Rightarrow> Answered (Inl (LedgerDown x)) | Inr mine \<Rightarrow> if mine then At_perform else At_read)"
        using st At_claim by (auto simp: sim split: prod.splits sum.splits)
      show ?thesis
      proof (cases "r = Inr True")
        case True
        with p have won: "d1_claim (wd_table u) b f (ck_now ?k) = (t, Inr True)" by simp
        have free: "d1_peek (wd_table u) b f = None"
        proof (rule ccontr)
          assume "d1_peek (wd_table u) b f \<noteq> None"
          then obtain a where a: "d1_peek (wd_table u) b f = Some a" by blast
          with d1_claim_won [OF wf won] live [OF a, of i] show False by (auto simp: expired_def)
        qed
        with inv have "length (performs_of b f keys u) = 0" "\<And>j. key_is b f (keys j) \<Longrightarrow> \<not> holding (wd_calls u j)"
          by (auto simp: one_holder_def dest: waiting_not_holding)
        then have "held_by b f keys (wd_calls ?v) (length (performs_of b f keys ?v)) i (fresh_attempt b f (ck_now ?k))"
          using c True key by (auto simp: held_by_def v performs_of_step At_claim fresh_attempt_def)
        with d1_claim_won [OF wf won] d1_claim_wf [OF wf won] show ?thesis by (auto simp: one_holder_def v)
      next
        case False
        have "d1_peek t b f = d1_peek (wd_table u) b f \<and> (d1_peek t b f = None \<longrightarrow> waiting c)"
          using False p c d1_claim_lost [OF wf, of b f "ck_now ?k" t] d1_fault_peek(2) [of "wd_table u" b f "ck_now ?k" t]
          by (cases r) auto
        moreover have "\<not> holding c" using False c by (cases r) auto
        ultimately show ?thesis using d1_claim_wf [OF wf p] by (intro move) (auto simp: At_claim performs_of_step)
      qed
    next
      case At_read
      obtain x where x: "d1_peek (wd_table u) b f = Some x"
        using inv key At_read by (fastforce simp: one_holder_def split: option.splits)
      obtain r where p: "d1_read (wd_table u) b f = (t, r)"
        using st At_read by (auto simp: sim split: prod.splits sum.splits write_verdict.splits)
      have "waiting c"
      proof (cases r)
        case (Inl y)
        with st At_read p show ?thesis by (auto simp: sim)
      next
        case (Inr y)
        with d1_read_peek [of "wd_table u" b f t] p x have "y = Some x" by simp
        with st At_read p Inr live [OF x, of i] show ?thesis by (auto simp: sim split: write_verdict.splits)
      qed
      then show ?thesis using d1_read_wf [OF wf p] d1_read_any [OF p]
        by (intro move) (auto simp: At_read performs_of_step dest: waiting_not_holding)
    next
      case At_reclaim
      with holder_is [OF inv key] have False by auto
      then show ?thesis ..
    next
      case At_perform
      from holder_is [OF inv key] At_perform obtain a where a: "d1_peek (wd_table u) b f = Some a"
        "held_by b f keys (wd_calls u) (length (performs_of b f keys u)) i a" "wa_state a = InFlight"
        "length (performs_of b f keys u) = 0" by auto
      from lands [OF key] obtain w' r m where "h_perform (hs i) (wd_repo u) = (w', Inr r)" "h_record (hs i) r = Some m"
        unfolding always_lands_def by blast
      with st At_perform have t: "t = wd_table u" and c: "c = At_complete m r" by (simp_all add: call_step_def)
      have "held_by b f keys (wd_calls ?v) (length (performs_of b f keys ?v)) i a"
        using a key by (auto simp: held_by_def v c performs_of_step At_perform)
      with a(1) wf show ?thesis by (auto simp: one_holder_def v t)
    next
      case (At_complete m r)
      from holder_is [OF inv key] At_complete obtain a where a: "d1_peek (wd_table u) b f = Some a"
        "held_by b f keys (wd_calls u) (length (performs_of b f keys u)) i a" "wa_state a = InFlight"
        "length (performs_of b f keys u) = 1" by auto
      obtain x where p: "d1_complete (wd_table u) b f (ck_now ?k) m = (t, x)" and c: "c = Answered (Inr r)"
        using st At_complete by (cases "d1_complete (wd_table u) b f (ck_now ?k) m") (auto simp: sim)
      have n: "length (performs_of b f keys ?v) = 1" using a(4) by (simp add: performs_of_step At_complete)
      have "\<exists>a'. d1_peek t b f = Some a' \<and> held_by b f keys (wd_calls ?v) 1 i a'"
      proof (cases x)
        case (Inl y)
        then have "d1_peek t b f = Some a" using p a(1) d1_fault_peek(3) by metis
        moreover have "held_by b f keys (wd_calls ?v) 1 i a" using a(2,3) key by (auto simp: held_by_def v c)
        ultimately show ?thesis by blast
      next
        case (Inr y)
        with p a(1) have "d1_peek t b f = Some (done_attempt (ck_now ?k) m a)" using d1_complete_peek [of "wd_table u" b f _ m t] by simp
        moreover have "held_by b f keys (wd_calls ?v) 1 i (done_attempt (ck_now ?k) m a)"
          using a(2) key by (auto simp: held_by_def v c done_attempt_def)
        ultimately show ?thesis by blast
      qed
      with d1_complete_wf [OF wf p] n show ?thesis by (auto simp: one_holder_def v)
    next
      case (At_release x)
      with holder_is [OF inv key] have False by auto
      then show ?thesis ..
    next
      case (Answered x)
      with st have "t = wd_table u" "c = wd_calls u i" by simp_all
      then have e: "wd_table ?v = wd_table u" "wd_calls ?v = wd_calls u" "performs_of b f keys ?v = performs_of b f keys u"
        using Answered by (simp_all add: v performs_of_step fun_upd_idem)
      show ?thesis using inv unfolding one_holder_def e .
    qed
  qed
qed

text \<open>
  C9.  At most once, among any number of calls side by side: take any schedule of the awaits of any calls,
  with this fingerprint and with others, on one table whose statements may fail.  As long as no clock is
  the in-flight grace or more ahead of a call with the fingerprint, and the performs of those calls land,
  the write is performed at most once among them.
\<close>

theorem at_most_once_in_parallel:
  assumes start: "d1_wf (wd_table u)" "d1_peek (wd_table u) b f = None" "wd_performed u = []" "wd_calls u = (\<lambda>_. At_prune)"
    and spread: "\<And>i j. key_is b f (keys i) \<Longrightarrow> ck_now (keys j) - ck_now (keys i) < IN_FLIGHT_GRACE_MS"
    and lands: "\<And>i. key_is b f (keys i) \<Longrightarrow> always_lands (hs i)"
  shows "length (performs_of b f keys (run_schedule keys hs schedule u)) \<le> 1"
proof -
  have "one_holder b f keys u" using start by (simp add: one_holder_def performs_of_def)
  then have "one_holder b f keys (run_schedule keys hs schedule u)"
    unfolding run_schedule_def
    by (induction schedule arbitrary: u) (simp_all add: one_holder_step [OF _ spread lands])
  then show ?thesis by (auto simp: one_holder_def held_by_def split: option.splits if_splits)
qed


definition start_world :: "(string, string, string) write_world" where
  "start_world = \<lparr>wd_table = empty_ledger, wd_repo = ''page'', wd_calls = (\<lambda>_. At_prune), wd_performed = []\<rparr>"

definition two_keys :: "nat \<Rightarrow> call_key" where
  "two_keys i = \<lparr>ck_brain = ''b'', ck_fingerprint = (if i < 2 then ''f'' else ''g''), ck_now = (if i = 0 then 1000 else 31000)\<rparr>"

text \<open>Two calls with one fingerprint and one with another, side by side.\<close>

lemma three_calls_run:
  "performs_of ''b'' ''f'' two_keys (run_schedule two_keys (\<lambda>_. append_handlers) [0, 1, 2, 0, 1, 2, 0, 1, 2, 0, 2] start_world) = [0]"
  by code_simp

theorem at_most_once_in_parallel_witness:
  "length (performs_of ''b'' ''f'' two_keys
      (run_schedule two_keys (\<lambda>_. append_handlers) [0, 1, 2, 0, 1, 2, 0, 1, 2, 0, 2] start_world)) \<le> 1
   \<and> performs_of ''b'' ''f'' two_keys
      (run_schedule two_keys (\<lambda>_. append_handlers) [0, 1, 2, 0, 1, 2, 0, 1, 2, 0, 2] start_world) = [0]"
proof
  show "length (performs_of ''b'' ''f'' two_keys
      (run_schedule two_keys (\<lambda>_. append_handlers) [0, 1, 2, 0, 1, 2, 0, 1, 2, 0, 2] start_world)) \<le> 1"
    by (rule at_most_once_in_parallel)
      (auto simp: start_world_def empty_ledger_ok two_keys_def windows always_lands_def append_handlers_def)
qed (rule three_calls_run)

text \<open>
  Without the last condition it fails: the answer of the second claim is not looked at, so after one refusal
  two calls that both found the row gone perform and land.
\<close>

lemma second_claim_ignored:
  "performs_of ''b'' ''f'' (two_keys \<circ> (\<lambda>i. min i 1))
     (run_schedule (two_keys \<circ> (\<lambda>i. min i 1)) (\<lambda>i. if i = 0 then refusing_handlers else append_handlers)
        [0, 0, 1, 1, 2, 2, 0, 0, 1, 2, 1, 2, 1, 2] start_world) = [0, 1, 2]
   \<and> wd_repo (run_schedule (two_keys \<circ> (\<lambda>i. min i 1)) (\<lambda>i. if i = 0 then refusing_handlers else append_handlers)
        [0, 0, 1, 1, 2, 2, 0, 0, 1, 2, 1, 2, 1, 2] start_world) = ''page!!''"
  by code_simp

section \<open>The fingerprint does not depend on spelling\<close>

interpretation by_key: comparator "by_entry_key :: string \<times> string \<Rightarrow> string \<times> string \<Rightarrow> int"
  unfolding by_entry_key_def [abs_def] by (rule comparator_key [OF cu.comparator_axioms])

lemma stable_members:
  assumes "distinct (map fst es)" "mset es' = mset es"
  shows "stableStringify (JObj es') = stableStringify (JObj es)"
proof -
  let ?g = "\<lambda>es. map (\<lambda>(k, v). (k, stableStringify v)) (filter (\<lambda>(k, v). v \<noteq> JUndefined) es)"
  have "js_sort by_entry_key (?g es') = js_sort by_entry_key (?g es)"
  proof (rule by_key.js_sort_perm)
    show "mset (?g es') = mset (?g es)" by (simp add: assms(2))
    have "mset (map fst es') = mset (map fst es)" using assms(2) by simp
    with assms(1) have d: "distinct (map fst es')" by (metis mset_eq_imp_distinct_iff)
    have "map fst (?g es') = map fst (filter (\<lambda>(k, v). v \<noteq> JUndefined) es')"
      by (simp add: case_prod_unfold)
    moreover have "distinct (map fst (filter (\<lambda>(k, v). v \<noteq> JUndefined) es'))"
      using d by (rule distinct_map_filter)
    ultimately have "distinct (map fst (?g es'))" by metis
    then have inj: "inj_on fst (set (?g es'))" by (rule distinct_map [THEN iffD1, THEN conjunct2])
    show "\<forall>x \<in> set (?g es'). \<forall>y \<in> set (?g es'). by_entry_key x y = 0 \<longrightarrow> x = y"
    proof (intro ballI impI)
      fix x y assume xy: "x \<in> set (?g es')" "y \<in> set (?g es')" and z: "by_entry_key x y = 0"
      have "fst x = fst y" by (rule cu.cmp_eq) (use z in \<open>simp add: by_entry_key_def\<close>)
      from inj_onD [OF inj this xy] show "x = y" .
    qed
  qed
  then show ?thesis by simp
qed

text \<open>
  C13.  Two spellings of one call have one fingerprint: the order of the arguments does not matter,
  and neither does the \<open>brain\<close> argument, which only routes the call.
\<close>

theorem fingerprint_ignores_spelling:
  assumes keys: "distinct (map fst args)" and perm: "mset args' = mset args"
  shows "writeFingerprint H actor tool args' = writeFingerprint H actor tool args
    \<and> writeFingerprint H actor tool ((''brain'', v) # args') = writeFingerprint H actor tool args"
proof -
  let ?f = "filter (\<lambda>(k, v :: js_value). k \<noteq> ''brain'')"
  have "stableStringify (JObj (?f args')) = stableStringify (JObj (?f args))"
    using keys perm by (intro stable_members) (simp_all add: distinct_map_filter)
  then show ?thesis by (simp add: writeFingerprint_def del: stableStringify.simps)
qed

theorem fingerprint_ignores_spelling_witness:
  "writeFingerprint (\<lambda>s. s) ''u1'' ''write_page'' [(''brain'', JStr ''acme''), (''path'', JStr ''a.md''), (''body'', JStr ''x'')]
   = writeFingerprint (\<lambda>s. s) ''u1'' ''write_page'' [(''body'', JStr ''x''), (''path'', JStr ''a.md'')]"
proof -
  have "distinct (map fst [(''body'', JStr ''x''), (''path'', JStr ''a.md'')])" by simp
  moreover have "mset [(''path'', JStr ''a.md''), (''body'', JStr ''x'')] = mset [(''body'', JStr ''x''), (''path'', JStr ''a.md'')]"
    by simp
  ultimately show ?thesis by (rule fingerprint_ignores_spelling [THEN conjunct2])
qed

end
