(* ===== verification/Frontmatter.thy ===== *)
theory Frontmatter
  imports JsPrelude
begin

text \<open>
  Page names and frontmatter (\<open>src/lib/wiki.ts\<close>, from \<open>slugOf\<close> to \<open>withFrontmatter\<close>): the
  deliberate YAML subset of flat scalars and lists, with any other nesting held verbatim.  The
  regular expressions are written out as the scans they perform; a line is what lies between two
  newlines, and may still hold a carriage return.
\<close>

definition drop_md :: "string \<Rightarrow> string" where
  "drop_md s = (if ends_with s ''.md'' then take (length s - 3) s else s)"

definition slugOf :: "string \<Rightarrow> string" where
  "slugOf path = drop_md (last (split_on SLASH path))"

definition slugify :: "string \<Rightarrow> string \<Rightarrow> string" where
  "slugify text fallback =
     (let slug = drop_trailing (\<lambda>c. c = DASH) (slice 0 60 (strip_dashes (dash_runs (lower text))))
      in if slug \<noteq> [] then slug else fallback)"

section \<open>Values\<close>

datatype fm_value =
    Scalar string
  | Items "string list"
  | Block "string option" "string list"

type_synonym frontmatter = "fm_value obj"

definition isFrontmatterBlock :: "fm_value option \<Rightarrow> bool" where
  "isFrontmatterBlock v = (case v of Some (Block _ _) \<Rightarrow> True | _ \<Rightarrow> False)"

definition listOf :: "fm_value option \<Rightarrow> string list" where
  "listOf v = (case v of Some (Items xs) \<Rightarrow> xs
                       | Some (Scalar s) \<Rightarrow> if s = [] then [] else [s]
                       | _ \<Rightarrow> [])"

section \<open>Reading\<close>

text \<open>\<open>/^([A-Za-z0-9_-]+):\s*(.*)$/\<close>; the dot stops at a carriage return.\<close>

definition fm_key_match :: "string \<Rightarrow> (string \<times> string) option" where
  "fm_key_match line =
     (let key = takeWhile is_key_char line; after = dropWhile is_key_char line in
      case after of
        [] \<Rightarrow> None
      | c # cs \<Rightarrow>
          (let rest = dropWhile is_space cs in
           if key \<noteq> [] \<and> c = CHR '':'' \<and> CR \<notin> set rest \<and> NL \<notin> set rest then Some (key, rest) else None))"

text \<open>\<open>/^[A-Za-z0-9_-]+:\s/\<close>, the lookahead of a list item that holds a mapping.\<close>

definition mapping_ahead :: "string \<Rightarrow> bool" where
  "mapping_ahead s =
     (takeWhile is_key_char s \<noteq> []
      \<and> (case dropWhile is_key_char s of c # d # _ \<Rightarrow> c = CHR '':'' \<and> is_space d | _ \<Rightarrow> False))"

text \<open>
  \<open>/^\s+-\s+(?!...)/\<close>.  With two spaces or more after the dash the engine gives one back and the
  lookahead sees a space, so only an item with a single space can be refused.
\<close>

definition simple_item :: "string \<Rightarrow> bool" where
  "simple_item line =
     (line \<noteq> [] \<and> is_space (hd line)
      \<and> (case dropWhile is_space line of
           c # d # rest \<Rightarrow> c = DASH \<and> is_space d
                           \<and> (\<not> mapping_ahead rest \<or> (rest \<noteq> [] \<and> is_space (hd rest)))
         | _ \<Rightarrow> False))"

text \<open>\<open>l.replace(/^\s+-\s/, '')\<close> on a line that has this shape.\<close>

definition item_text :: "string \<Rightarrow> string" where
  "item_text line = drop 2 (dropWhile is_space line)"

fun unescape :: "string \<Rightarrow> string" where
  "unescape (c # d # cs) =
     (if c = BACKSLASH \<and> (d = DQUOTE \<or> d = BACKSLASH) then d # unescape cs else c # unescape (d # cs))"
| "unescape cs = cs"

fun unescape_dquote :: "string \<Rightarrow> string" where
  "unescape_dquote (c # d # cs) =
     (if c = BACKSLASH \<and> d = DQUOTE then d # unescape_dquote cs else c # unescape_dquote (d # cs))"
| "unescape_dquote cs = cs"

definition quoted_with :: "char \<Rightarrow> string \<Rightarrow> bool" where
  "quoted_with q t \<longleftrightarrow> 2 \<le> length t \<and> hd t = q \<and> last t = q"

definition stripQuotes :: "string \<Rightarrow> string" where
  "stripQuotes v =
     (let t = trim v in
      if quoted_with DQUOTE t then unescape (butlast (tl t))
      else if quoted_with SQUOTE t then unescape_dquote (butlast (tl t))
      else t)"

text \<open>\<open>rest.replace(/\s+#\s.*$/, '')\<close>: cut at the first blank run followed by \<open>#\<close> and a blank.\<close>

definition comment_ahead :: "string \<Rightarrow> bool" where
  "comment_ahead s =
     (s \<noteq> [] \<and> is_space (hd s)
      \<and> (case dropWhile is_space s of c # d # _ \<Rightarrow> c = CHR ''#'' \<and> is_space d | _ \<Rightarrow> False))"

fun strip_comment :: "string \<Rightarrow> string" where
  "strip_comment [] = []"
| "strip_comment (c # cs) = (if comment_ahead (c # cs) then [] else c # strip_comment cs)"

definition fm_scalar :: "string \<Rightarrow> fm_value" where
  "fm_scalar rest =
     (let cleaned = trim (strip_comment rest) in
      if cleaned \<noteq> [] \<and> hd cleaned = CHR ''['' \<and> last cleaned = CHR '']''
      then (let inner = trim (butlast (tl cleaned)) in
            if inner = [] then Items [] else Items (map stripQuotes (split_on (CHR '','') inner)))
      else Scalar (stripQuotes cleaned))"

definition fm_nested :: "string \<Rightarrow> string list \<Rightarrow> fm_value" where
  "fm_nested rest run =
     (if run = [] then Scalar []
      else if list_all simple_item run then Items (map (\<lambda>l. stripQuotes (item_text l)) run)
      else let indicator = trim rest in Block (if indicator \<noteq> [] then Some indicator else None) run)"

definition indented :: "string \<Rightarrow> bool" where
  "indented line \<longleftrightarrow> line \<noteq> [] \<and> is_space (hd line) \<and> trim line \<noteq> []"

lemma length_dropWhile_indented [termination_simp]: "length (dropWhile indented ls) < Suc (length ls)"
  by (meson le_imp_less_Suc length_dropWhile_le)

fun fm_lines :: "string list \<Rightarrow> frontmatter \<Rightarrow> frontmatter" where
  "fm_lines [] fm = fm"
| "fm_lines (line # ls) fm =
     (case fm_key_match line of
        None \<Rightarrow> fm_lines ls fm
      | Some (key, rest) \<Rightarrow>
          if trim rest \<in> {[], ''|'', ''>''}
          then fm_lines (dropWhile indented ls) (obj_set key (fm_nested rest (takeWhile indented ls)) fm)
          else fm_lines ls (obj_set key (fm_scalar rest) fm))"

definition drop_one_nl :: "string \<Rightarrow> string" where
  "drop_one_nl s = (case s of c # cs \<Rightarrow> if c = NL then cs else s | [] \<Rightarrow> [])"

definition parseFrontmatter :: "string \<Rightarrow> frontmatter option \<times> string" where
  "parseFrontmatter md =
     (if \<not> starts_with md (''---'' @ [NL]) \<and> trim md \<noteq> ''---'' then (None, md)
      else case index_of_from md (NL # ''---'') 3 of
        None \<Rightarrow> (None, md)
      | Some end \<Rightarrow>
          (let body = (case index_of_from md [NL] (end + 1) of
                         None \<Rightarrow> []
                       | Some afterFence \<Rightarrow> drop_one_nl (drop (afterFence + 1) md))
           in (Some (fm_lines (split_on NL (slice 4 end md)) []), body)))"

section \<open>Reading gives an object\<close>

lemma fm_lines_enumerated: "enumerated fm \<Longrightarrow> enumerated (fm_lines ls fm)"
  by (induction ls fm rule: fm_lines.induct) (auto simp: enumerated_set split: option.splits)

lemma parsed_enumerated: "fst (parseFrontmatter md) = Some fm \<Longrightarrow> enumerated fm"
  by (auto simp: parseFrontmatter_def Let_def fm_lines_enumerated split: if_splits option.splits)

section \<open>Writing\<close>

definition special_start :: "char \<Rightarrow> bool" where
  "special_start c \<longleftrightarrow> is_space c \<or> c \<in> {SQUOTE, DQUOTE, BACKTICK} \<or> c \<in> set ''-?:[]{}#&*!|>%@''"

definition needsQuoting :: "string \<Rightarrow> bool" where
  "needsQuoting v \<longleftrightarrow>
     v = [] \<or> special_start (hd v) \<or> contains v '': '' \<or> last v = CHR '':'' \<or> contains v '' #''
     \<or> is_space (last v)"

text \<open>\<open>v.replace(/\r?\n/g, ' ')\<close>\<close>

fun flatten_lines :: "string \<Rightarrow> string" where
  "flatten_lines (c # cs) =
     (if c = NL then CHR '' '' # flatten_lines cs
      else if c = CR \<and> cs \<noteq> [] \<and> hd cs = NL then CHR '' '' # flatten_lines (tl cs)
      else c # flatten_lines cs)"
| "flatten_lines [] = []"

definition escape_quoted :: "string \<Rightarrow> string" where
  "escape_quoted s = concat (map (\<lambda>c. if c = BACKSLASH \<or> c = DQUOTE then [BACKSLASH, c] else [c]) s)"

definition scalar :: "string \<Rightarrow> string" where
  "scalar v =
     (let flat = trim (flatten_lines v) in
      if needsQuoting flat then [DQUOTE] @ escape_quoted flat @ [DQUOTE] else flat)"

definition entry_lines :: "string \<times> fm_value \<Rightarrow> string list" where
  "entry_lines e =
     (case e of (key, v) \<Rightarrow>
        (case v of
           Block (Some ind) raw \<Rightarrow> (if ind \<noteq> [] then key @ '': '' @ ind else key @ '':'') # raw
         | Block None raw \<Rightarrow> (key @ '':'') # raw
         | Items xs \<Rightarrow> if xs = [] then [key @ '': []''] else (key @ '':'') # map (\<lambda>x. ''  - '' @ scalar x) xs
         | Scalar s \<Rightarrow> [key @ '': '' @ scalar s]))"

definition serializeFrontmatter :: "frontmatter \<Rightarrow> string" where
  "serializeFrontmatter fm = join_with [NL] (''---'' # concat (map entry_lines fm) @ [''---''])"

definition withFrontmatter :: "frontmatter \<Rightarrow> string \<Rightarrow> string" where
  "withFrontmatter fm body = serializeFrontmatter fm @ [NL, NL] @ dropWhile (\<lambda>c. c = NL) body"

section \<open>What is written reads back\<close>

lemma flatten_lines_id: "NL \<notin> set s \<Longrightarrow> flatten_lines s = s"
proof (induction s rule: flatten_lines.induct)
  case (1 c cs)
  then have "cs = [] \<or> hd cs \<noteq> NL" by (cases cs) auto
  with 1 show ?case by auto
qed simp

lemma escape_simps [simp]:
  "escape_quoted [] = []"
  "escape_quoted (c # s) = (if c = BACKSLASH \<or> c = DQUOTE then [BACKSLASH, c] else [c]) @ escape_quoted s"
  by (simp_all add: escape_quoted_def)

lemma unescape_plain: "c \<noteq> BACKSLASH \<Longrightarrow> unescape (c # s) = c # unescape s"
  by (cases s) auto

lemma unescape_escape [simp]: "unescape (escape_quoted s) = s"
  by (induction s) (simp_all add: unescape_plain)

lemma not_space_quotes [simp]: "\<not> is_space DQUOTE" "\<not> is_space SQUOTE" "\<not> is_space BACKSLASH"
    "\<not> is_space DASH" "is_space (CHR '' '')" "\<not> is_space (CHR ''['')" "\<not> is_space (CHR '']'')"
    "\<not> is_space (CHR ''#'')" "\<not> is_space (CHR '':'')" "\<not> is_space (CHR ''|'')" "\<not> is_space (CHR ''>'')"
  by (simp_all add: is_space_def)

text \<open>A text the subset keeps as it is: trimmed, on one line, with nothing that reads as a comment.\<close>

definition one_line :: "string \<Rightarrow> bool" where
  "one_line s \<longleftrightarrow> trimmed s \<and> NL \<notin> set s \<and> CR \<notin> set s"

lemma one_line_flat: "one_line s \<Longrightarrow> trim (flatten_lines s) = s"
  by (simp add: one_line_def flatten_lines_id trim_trimmed)

lemma scalar_one_line:
  "one_line s \<Longrightarrow> scalar s = (if needsQuoting s then [DQUOTE] @ escape_quoted s @ [DQUOTE] else s)"
  by (simp add: scalar_def one_line_flat)

lemma trimmed_quoted: "trimmed ([DQUOTE] @ s @ [DQUOTE])"
  by (simp add: trimmed_def)

lemma trimmed_scalar: "one_line s \<Longrightarrow> trimmed (scalar s)"
  using trimmed_quoted by (simp add: scalar_one_line one_line_def del: append_Cons)

lemma scalar_ne: "one_line s \<Longrightarrow> scalar s \<noteq> []"
  by (simp add: scalar_one_line needsQuoting_def)

lemma set_escape: "set (escape_quoted s) \<subseteq> insert BACKSLASH (set s)"
  by (induction s) auto

lemma scalar_no_break: "one_line s \<Longrightarrow> NL \<notin> set (scalar s) \<and> CR \<notin> set (scalar s)"
  using set_escape [of s] by (auto simp: scalar_one_line one_line_def)

lemma special_starts: "special_start DQUOTE" "special_start SQUOTE" "special_start (CHR ''['')"
    "special_start (CHR ''|'')" "special_start (CHR ''>'')" "special_start DASH"
  by (simp_all add: special_start_def)

text \<open>The first character of what \<open>scalar\<close> writes: a double quote, or nothing special.\<close>

lemma hd_scalar: "one_line s \<Longrightarrow> hd (scalar s) = DQUOTE \<or> (\<not> special_start (hd (scalar s)) \<and> scalar s = s)"
  by (auto simp: scalar_one_line needsQuoting_def)

lemma stripQuotes_scalar:
  assumes s: "one_line s"
  shows "stripQuotes (scalar s) = s"
proof (cases "needsQuoting s")
  case True
  then have q: "scalar s = [DQUOTE] @ escape_quoted s @ [DQUOTE]" using s by (simp add: scalar_one_line)
  show ?thesis
    by (simp add: stripQuotes_def trim_trimmed [OF trimmed_scalar [OF s]] Let_def)
       (simp add: q quoted_with_def butlast_append)
next
  case False
  then have q: "scalar s = s" using s by (simp add: scalar_one_line)
  from False have "hd s \<noteq> DQUOTE" "hd s \<noteq> SQUOTE" using special_starts by (auto simp: needsQuoting_def)
  then show ?thesis
    using trim_trimmed [OF trimmed_scalar [OF s]] by (simp add: stripQuotes_def q quoted_with_def)
qed

section \<open>Comments\<close>

definition no_comment :: "string \<Rightarrow> bool" where
  "no_comment s \<longleftrightarrow> strip_comment s = s"

lemma length_strip_comment: "length (strip_comment s) \<le> length s"
  by (induction s) auto

lemma no_comment_Cons: "no_comment (c # s) \<longleftrightarrow> \<not> comment_ahead (c # s) \<and> no_comment s"
  by (auto simp: no_comment_def)

lemma dropWhile_escape: "dropWhile is_space (escape_quoted s @ [DQUOTE]) = escape_quoted (dropWhile is_space s) @ [DQUOTE]"
  by (induction s) auto

lemma comment_escape: "comment_ahead (escape_quoted s @ [DQUOTE]) \<Longrightarrow> comment_ahead s"
proof -
  assume a: "comment_ahead (escape_quoted s @ [DQUOTE])"
  then obtain c t where s: "s = c # t" by (cases s) (auto simp: comment_ahead_def)
  with a have c: "is_space c" by (auto simp: comment_ahead_def split: if_splits)
  obtain u where u: "dropWhile is_space s = u" by blast
  from a have "case escape_quoted u @ [DQUOTE] of x # d # _ \<Rightarrow> x = CHR ''#'' \<and> is_space d | _ \<Rightarrow> False"
    unfolding comment_ahead_def dropWhile_escape u by blast
  then have "case u of x # d # _ \<Rightarrow> x = CHR ''#'' \<and> is_space d | _ \<Rightarrow> False"
    by (cases u; cases "tl u") (auto split: if_splits)
  with s c u show ?thesis by (simp add: comment_ahead_def)
qed

lemma no_comment_escape: "no_comment s \<Longrightarrow> no_comment (escape_quoted s @ [DQUOTE])"
proof (induction s)
  case Nil
  then show ?case by (simp add: no_comment_def comment_ahead_def)
next
  case (Cons c s)
  then have "\<not> comment_ahead (c # s)" "no_comment (escape_quoted s @ [DQUOTE])"
    by (simp_all add: no_comment_Cons)
  moreover have "\<not> comment_ahead (escape_quoted (c # s) @ [DQUOTE])"
    using comment_escape [of "c # s"] calculation(1) by blast
  ultimately show ?case by (auto simp: no_comment_Cons comment_ahead_def split: if_splits)
qed

lemma no_comment_scalar: "one_line s \<Longrightarrow> no_comment s \<Longrightarrow> no_comment (scalar s)"
  using no_comment_escape [of s] by (simp add: scalar_one_line no_comment_Cons comment_ahead_def)

lemma fm_scalar_scalar:
  assumes s: "one_line s" "no_comment s"
  shows "fm_scalar (scalar s) = Scalar s"
proof -
  have "strip_comment (scalar s) = scalar s" using no_comment_scalar [OF s] by (simp add: no_comment_def)
  moreover have "hd (scalar s) \<noteq> CHR ''[''" using hd_scalar [OF s(1)] special_starts by auto
  ultimately show ?thesis
    by (simp add: fm_scalar_def trim_trimmed [OF trimmed_scalar [OF s(1)]] stripQuotes_scalar [OF s(1)])
qed

section \<open>Entries\<close>

definition good_key :: "string \<Rightarrow> bool" where
  "good_key k \<longleftrightarrow> k \<noteq> [] \<and> list_all is_key_char k \<and> k \<noteq> ''__proto__'' \<and> \<not> starts_with k ''---''"

definition good_raw :: "string \<Rightarrow> bool" where
  "good_raw l \<longleftrightarrow> indented l \<and> NL \<notin> set l"

text \<open>An item that does not read as a mapping once written.\<close>

definition good_item :: "string \<Rightarrow> bool" where
  "good_item s \<longleftrightarrow> one_line s \<and> \<not> mapping_ahead s"

fun good_value :: "fm_value \<Rightarrow> bool" where
  "good_value (Scalar s) \<longleftrightarrow> one_line s \<and> no_comment s"
| "good_value (Items xs) \<longleftrightarrow> list_all good_item xs"
| "good_value (Block ind raw) \<longleftrightarrow>
     ind \<in> {None, Some ''|'', Some ''>''} \<and> raw \<noteq> [] \<and> list_all good_raw raw \<and> \<not> list_all simple_item raw"

lemma key_char_not_space: "is_key_char c \<Longrightarrow> \<not> is_space c"
  by (auto simp: is_key_char_def is_alnum_def is_digit_def is_upper_def is_lower_def is_space_def)

lemma key_char_not_colon [simp]: "\<not> is_key_char (CHR '':'')" "\<not> is_key_char DQUOTE"
  by (simp_all add: is_key_char_def is_alnum_def is_digit_def is_upper_def is_lower_def)

lemma takeWhile_key: "list_all is_key_char k \<Longrightarrow> takeWhile is_key_char (k @ CHR '':'' # r) = k"
  by (induction k) auto

lemma dropWhile_key: "list_all is_key_char k \<Longrightarrow> dropWhile is_key_char (k @ CHR '':'' # r) = CHR '':'' # r"
  by (induction k) auto

lemma fm_key_match_entry:
  assumes "good_key k" "CR \<notin> set r" "NL \<notin> set r"
  shows "fm_key_match (k @ CHR '':'' # r) = Some (k, dropWhile is_space r)"
proof -
  have "CR \<notin> set (dropWhile is_space r)" "NL \<notin> set (dropWhile is_space r)"
    using assms(2,3) set_dropWhileD by fast+
  with assms(1) show ?thesis
    by (simp add: fm_key_match_def good_key_def takeWhile_key dropWhile_key Let_def)
qed

lemma trimmed_hd: "trimmed s \<Longrightarrow> s \<noteq> [] \<Longrightarrow> \<not> is_space (hd s)"
  by (auto simp: trimmed_def)

lemma dropWhile_space_trimmed: "trimmed s \<Longrightarrow> dropWhile is_space s = s"
  by (cases s) (auto simp: trimmed_def)

section \<open>Lines of an entry\<close>

lemma mapping_ahead_scalar: "good_item x \<Longrightarrow> \<not> mapping_ahead (scalar x)"
  by (auto simp: good_item_def scalar_one_line mapping_ahead_def)

lemma dropWhile_item: "dropWhile is_space (''  - '' @ t) = DASH # CHR '' '' # t"
  by simp

lemma simple_item_scalar: "good_item x \<Longrightarrow> simple_item (''  - '' @ scalar x)"
  using mapping_ahead_scalar unfolding simple_item_def dropWhile_item by simp

lemma indented_item: "indented (''  - '' @ t)"
  by (simp add: indented_def trim_eq_Nil)

lemma item_text_scalar: "good_item x \<Longrightarrow> stripQuotes (item_text (''  - '' @ scalar x)) = x"
  unfolding item_text_def dropWhile_item by (simp add: good_item_def stripQuotes_scalar)

lemma fm_nested_items:
  "list_all good_item xs \<Longrightarrow> xs \<noteq> [] \<Longrightarrow> fm_nested r (map (\<lambda>x. ''  - '' @ scalar x) xs) = Items xs"
  using simple_item_scalar item_text_scalar
  by (simp add: fm_nested_def list_all_iff comp_def map_idI del: append_Cons)

lemma scalar_not_bare: "one_line s \<Longrightarrow> scalar s \<notin> {[], ''|'', ''>''}"
  using hd_scalar [of s] scalar_ne [of s] special_starts by auto

lemma takeWhile_run:
  "list_all P run \<Longrightarrow> rest = [] \<or> \<not> P (hd rest) \<Longrightarrow> takeWhile P (run @ rest) = run"
  "list_all P run \<Longrightarrow> rest = [] \<or> \<not> P (hd rest) \<Longrightarrow> dropWhile P (run @ rest) = rest"
  by (induction run; cases rest; auto)+

text \<open>A line that holds a value is read as that value; a bare key takes the indented run below it.\<close>

lemma fm_lines_inline:
  assumes "good_key k" "one_line r" "r \<notin> {[], ''|'', ''>''}"
  shows "fm_lines ((k @ '': '' @ r) # ls) fm = fm_lines ls (obj_set k (fm_scalar r) fm)"
proof -
  have "fm_key_match (k @ CHR '':'' # CHR '' '' # r) = Some (k, r)"
    using fm_key_match_entry [OF assms(1), of "CHR '' '' # r"] assms(2)
    by (simp add: one_line_def dropWhile_space_trimmed)
  with assms show ?thesis by (simp add: one_line_def trim_trimmed)
qed

lemma fm_lines_bare:
  assumes "good_key k" "dropWhile is_space r = ind" "CR \<notin> set r" "NL \<notin> set r" "ind \<in> {[], ''|'', ''>''}"
    and "list_all indented run" "rest = [] \<or> \<not> indented (hd rest)"
  shows "fm_lines ((k @ '':'' @ r) # run @ rest) fm = fm_lines rest (obj_set k (fm_nested ind run) fm)"
proof -
  have "fm_key_match (k @ CHR '':'' # r) = Some (k, ind)"
    using fm_key_match_entry [OF assms(1,3,4)] assms(2) by simp
  moreover have "trim ind \<in> {[], ''|'', ''>''}" using assms(5) by (auto simp: trim_trimmed trimmed_def)
  ultimately show ?thesis using takeWhile_run [OF assms(6,7)] by simp
qed

lemma one_line_scalar: "one_line s \<Longrightarrow> one_line (scalar s)"
  using trimmed_scalar scalar_no_break by (simp add: one_line_def)

lemma fm_scalar_empty_list: "fm_scalar ''[]'' = Items []"
  by code_simp

lemma good_raw_lines: "list_all good_raw raw \<Longrightarrow> list_all indented raw"
  by (auto simp: list_all_iff good_raw_def)

lemma fm_nested_block:
  "raw \<noteq> [] \<Longrightarrow> \<not> list_all simple_item raw \<Longrightarrow> trimmed ind \<Longrightarrow>
     fm_nested ind raw = Block (if ind = [] then None else Some ind) raw"
  by (simp add: fm_nested_def trim_trimmed)

lemma fm_lines_entry:
  assumes k: "good_key k" and v: "good_value v" and rest: "rest = [] \<or> \<not> indented (hd rest)"
  shows "fm_lines (entry_lines (k, v) @ rest) fm = fm_lines rest (obj_set k v fm)"
proof (cases v)
  case (Scalar s)
  with v have s: "one_line s" "no_comment s" by simp_all
  show ?thesis
    using fm_lines_inline [OF k one_line_scalar [OF s(1)] scalar_not_bare [OF s(1)]]
    by (simp add: entry_lines_def Scalar fm_scalar_scalar [OF s])
next
  case (Items xs)
  show ?thesis
  proof (cases "xs = []")
    case True
    have "one_line ''[]''" by code_simp
    from fm_lines_inline [OF k this] True show ?thesis
      by (simp add: entry_lines_def Items fm_scalar_empty_list)
  next
    case False
    have "list_all indented (map (\<lambda>x. ''  - '' @ scalar x) xs)"
      using indented_item by (simp add: list_all_iff del: append_Cons)
    from fm_lines_bare [OF k, of "[]" "[]", OF _ _ _ _ this rest] fm_nested_items [OF _ False] v False
    show ?thesis by (simp add: entry_lines_def Items)
  qed
next
  case (Block ind raw)
  with v have raw: "raw \<noteq> []" "\<not> list_all simple_item raw" "list_all indented raw"
    and ind: "ind \<in> {None, Some ''|'', Some ''>''}" by (auto dest: good_raw_lines)
  note bare = fm_lines_bare [OF k _ _ _ _ raw(3) rest]
  from ind consider "ind = None" | "ind = Some ''|''" | "ind = Some ''>''" by auto
  then show ?thesis
  proof cases
    case 1
    then show ?thesis using bare [of "[]" "[]"] raw by (simp add: entry_lines_def Block fm_nested_block)
  next
    case 2
    then show ?thesis using bare [of "'' |''" "''|''"] raw
      by (simp add: entry_lines_def Block fm_nested_block trimmed_def is_space_def)
  next
    case 3
    then show ?thesis using bare [of "'' >''" "''>''"] raw
      by (simp add: entry_lines_def Block fm_nested_block trimmed_def is_space_def)
  qed
qed

section \<open>The block\<close>

lemma good_key_line: "good_key k \<Longrightarrow> NL \<notin> set k"
  using key_char_not_space [of NL] by (auto simp: good_key_def list_all_iff is_space_def)

lemma not_fence_key: "good_key k \<Longrightarrow> \<not> starts_with (k @ CHR '':'' # r) ''---''"
proof -
  assume "good_key k"
  then have "\<not> starts_with k ''---''" by (simp add: good_key_def)
  then show ?thesis
    by (cases k; cases "tl k"; cases "tl (tl k)") auto
qed

definition block_line :: "string \<Rightarrow> bool" where
  "block_line l \<longleftrightarrow> NL \<notin> set l \<and> \<not> starts_with l ''---''"

lemma block_line_raw: "good_raw l \<Longrightarrow> block_line l"
  by (cases l) (auto simp: good_raw_def block_line_def indented_def)

lemma block_line_key: "good_key k \<Longrightarrow> NL \<notin> set r \<Longrightarrow> block_line (k @ '':'' @ r)"
  using not_fence_key [of k r] good_key_line [of k] by (simp add: block_line_def)

lemma block_line_entry:
  assumes k: "good_key k" and v: "good_value v"
  shows "list_all block_line (entry_lines (k, v))"
proof (cases v)
  case (Scalar s)
  with v scalar_no_break [of s] show ?thesis
    using block_line_key [OF k, of "'' '' @ scalar s"] by (simp add: entry_lines_def)
next
  case (Items xs)
  have "block_line (''  - '' @ scalar x)" if "x \<in> set xs" for x
    using that v scalar_no_break [of x] Items by (auto simp: block_line_def list_all_iff good_item_def)
  then show ?thesis
    using block_line_key [OF k, of "'' []''"] block_line_key [OF k, of "[]"]
    by (simp add: entry_lines_def Items list_all_iff)
next
  case (Block ind raw)
  then have "list_all block_line raw" "ind \<in> {None, Some ''|'', Some ''>''}"
    using v by (auto simp: list_all_iff block_line_raw)
  then show ?thesis
    using block_line_key [OF k, of "[]"] block_line_key [OF k, of "'' |''"] block_line_key [OF k, of "'' >''"]
    by (auto simp: entry_lines_def Block)
qed

definition good_entry :: "string \<times> fm_value \<Rightarrow> bool" where
  "good_entry e \<longleftrightarrow> good_key (fst e) \<and> good_value (snd e)"

lemma starts_with_shared: "starts_with (k @ s) (k @ p) \<longleftrightarrow> starts_with s p"
  by (induction k) auto

lemma entry_lines_start:
  "good_entry e \<Longrightarrow> entry_lines e \<noteq> [] \<and> \<not> indented (hd (entry_lines e))"
proof -
  assume e: "good_entry e"
  obtain k v where kv: "e = (k, v)" by (cases e)
  then have "entry_lines e \<noteq> [] \<and> starts_with (hd (entry_lines e)) (k @ '':'')"
    by (cases v) (auto simp: entry_lines_def starts_with_shared split: option.split)
  then obtain r ls where l: "entry_lines e = (k @ CHR '':'' # r) # ls"
    by (cases "entry_lines e") (auto simp: starts_with_iff)
  from e kv have "k \<noteq> []" "\<not> is_space (hd k)"
    by (auto simp: good_entry_def good_key_def neq_Nil_conv dest: key_char_not_space)
  with l show ?thesis by (cases k) (simp_all add: indented_def)
qed

lemma fm_lines_entries:
  "list_all good_entry fm \<Longrightarrow>
     fm_lines (concat (map entry_lines fm)) acc = foldl (\<lambda>a e. obj_set (fst e) (snd e) a) acc fm"
proof (induction fm arbitrary: acc)
  case Nil
  then show ?case by simp
next
  case (Cons e fm)
  let ?rest = "concat (map entry_lines fm)"
  have "?rest = [] \<or> \<not> indented (hd ?rest)"
    using Cons.prems entry_lines_start by (cases fm) auto
  with Cons fm_lines_entry [of "fst e" "snd e" ?rest acc] show ?case
    by (simp add: good_entry_def)
qed

lemma obj_set_spread:
  "list_all good_entry fm \<Longrightarrow> foldl (\<lambda>a e. obj_set (fst e) (snd e) a) acc fm = obj_spread acc fm"
  by (induction fm arbitrary: acc) (auto simp: obj_spread_def obj_set_def good_entry_def good_key_def)

section \<open>The fence\<close>

lemma index_of_skip:
  "c \<notin> set l \<Longrightarrow> index_of (l @ r) (c # p) = map_option (\<lambda>i. length l + i) (index_of r (c # p))"
  by (cases "index_of r (c # p)"; induction l; auto)

lemma index_of_here: "starts_with s p \<Longrightarrow> s \<noteq> [] \<Longrightarrow> index_of s p = Some 0"
  by (cases s) auto

lemma not_fence_line: "block_line l \<Longrightarrow> \<not> starts_with (l @ NL # t) ''---''"
  by (cases l; cases "tl l"; cases "tl (tl l)") (auto simp: block_line_def)

lemma fence_index:
  "L \<noteq> [] \<Longrightarrow> list_all block_line L \<Longrightarrow>
     index_of (NL # join_with [NL] L @ NL # ''---'' @ t) (NL # ''---'')
       = Some (Suc (length (join_with [NL] L)))"
proof (induction L rule: induct_list012)
  case 1
  then show ?case by simp
next
  case (2 l)
  then have "NL \<notin> set l" "\<not> starts_with (l @ NL # ''---'' @ t) ''---''"
    using not_fence_line by (auto simp: block_line_def simp del: append_Cons)
  then show ?case by (simp add: index_of_skip)
next
  case (3 l m L)
  let ?r = "NL # join_with [NL] (m # L) @ NL # ''---'' @ t"
  have r: "NL \<notin> set l" "\<not> starts_with (l @ ?r) ''---''"
    using 3 not_fence_line by (auto simp: block_line_def)
  have "index_of ?r (NL # ''---'') = Some (Suc (length (join_with [NL] (m # L))))"
    using 3 by simp
  with index_of_skip [OF r(1), of ?r "''---''"] r(2) show ?case by simp
qed

definition fm_block :: "frontmatter \<Rightarrow> string list" where
  "fm_block fm = concat (map entry_lines fm)"

lemma join_fences:
  "join_with [NL] (''---'' # L @ [''---''])
     = (''---'' @ (if L = [] then [] else NL # join_with [NL] L)) @ NL # ''---''"
  by (cases "L = []") (simp_all add: join_with_Cons join_with_append)

lemma fm_block_lines: "list_all good_entry fm \<Longrightarrow> list_all block_line (fm_block fm)"
  by (induction fm) (auto simp: fm_block_def good_entry_def block_line_entry)

lemma index_of_from_drop:
  "index_of (drop i s) p = Some k \<Longrightarrow> i \<le> length s \<Longrightarrow> index_of_from s p i = Some (i + k)"
  by (simp add: index_of_from_def min_def)

lemma closing_fence:
  assumes "list_all block_line L"
  shows "index_of_from ((''---'' @ (if L = [] then [] else NL # join_with [NL] L)) @ NL # ''---'' @ t) (NL # ''---'') 3
           = Some (length (''---'' @ (if L = [] then [] else NL # join_with [NL] L)))"
  using fence_index [OF _ assms, of t] by (cases "L = []") (simp_all add: index_of_from_def)

lemma split_block:
  "list_all block_line L \<Longrightarrow>
     fm_lines (split_on NL (slice 4 (length (''---'' @ (if L = [] then [] else NL # join_with [NL] L)))
        ((''---'' @ (if L = [] then [] else NL # join_with [NL] L)) @ t))) acc = fm_lines L acc"
  by (auto simp: slice_def split_on_join list_all_iff block_line_def fm_key_match_def)

lemma parse_block:
  assumes L: "list_all block_line L"
  shows "parseFrontmatter (join_with [NL] (''---'' # L @ [''---'']) @ [NL, NL] @ body)
           = (Some (fm_lines L []), body)"
proof -
  obtain p where p: "p = ''---'' @ (if L = [] then [] else NL # join_with [NL] L)" by blast
  let ?md = "p @ NL # ''---'' @ [NL, NL] @ body"
  have md: "join_with [NL] (''---'' # L @ [''---'']) @ [NL, NL] @ body = ?md"
    unfolding join_fences p by simp
  have "starts_with ?md (''---'' @ [NL])" by (simp add: p)
  moreover have "index_of_from ?md (NL # ''---'') 3 = Some (length p)"
    unfolding p by (rule closing_fence [OF L])
  moreover have "index_of_from ?md [NL] (length p + 1) = Some (length p + 1 + 3)"
    by (rule index_of_from_drop) simp_all
  moreover have "drop (length p + 1 + 3 + 1) ?md = NL # body" by simp
  moreover have "fm_lines (split_on NL (slice 4 (length p) ?md)) [] = fm_lines L []"
    unfolding p by (rule split_block [OF L])
  ultimately show ?thesis unfolding md parseFrontmatter_def by (simp add: drop_one_nl_def)
qed

lemma frontmatter_reads_back:
  assumes "js_object fm" and good: "list_all good_entry fm"
  shows "parseFrontmatter (withFrontmatter fm body) = (Some fm, dropWhile (\<lambda>c. c = NL) body)"
proof -
  have "fm_lines (fm_block fm) [] = fm"
    using assms by (simp add: fm_block_def fm_lines_entries obj_set_spread js_object_def)
  with parse_block [OF fm_block_lines [OF good], of "dropWhile (\<lambda>c. c = NL) body"] show ?thesis
    by (simp add: withFrontmatter_def serializeFrontmatter_def fm_block_def)
qed



text \<open>
  A separator after a space ends a scalar even inside the quotes \<open>scalar\<close> put around it, so a
  title such as \<open>a # b\<close> is cut when the page is read back.
\<close>

lemma quoted_comment_lost:
  "fst (parseFrontmatter (withFrontmatter [(''title'', Scalar ''a # b'')] [])) = Some [(''title'', Scalar ''\"a'')]"
  by code_simp

text \<open>A list item loses its list when the text after the colon starts with a tab.\<close>

lemma tabbed_item_lost:
  "fst (parseFrontmatter (withFrontmatter [(''a'', Items [''b:'' @ [CHR 0x09] @ ''c''])] []))
     = Some [(''a'', Block None [''  - b:'' @ [CHR 0x09] @ ''c''])]"
  by code_simp

end
