(* ===== verification/WikiLinks.thy ===== *)
theory WikiLinks
  imports Frontmatter JsText
begin

text \<open>
  Titles, links and the log page (\<open>src/lib/wiki.ts\<close> from \<open>plainHeading\<close> to \<open>insertLogEntry\<close>): how a
  page is named, which links a body holds, which page a wikilink means, and how links are
  rewritten when a page moves.  Collation (\<open>localeCompare\<close>) is the parameter \<open>lc\<close>.
\<close>

section \<open>Folder notes\<close>

definition FOLDER_NOTE_NAMES :: "string list" where
  "FOLDER_NOTE_NAMES = [''index.md'', ''README.md'']"

definition isFolderNoteName :: "string \<Rightarrow> bool" where
  "isFolderNoteName name \<longleftrightarrow> name \<in> set FOLDER_NOTE_NAMES"

section \<open>Link patterns\<close>

text \<open>\<open>/!?\[([^\]]*)\]\(([^)\s]+)(?:\s+"[^"]*")?\)/\<close>, matched where it stands: label and href.\<close>

definition link_title_end :: "string \<Rightarrow> string option" where
  "link_title_end s =
     (case s of
        [] \<Rightarrow> None
      | c # cs \<Rightarrow>
          if c = CHR '')'' then Some cs
          else if is_space c then
            (case dropWhile is_space cs of
               d # ds \<Rightarrow>
                 if d = DQUOTE then
                   (case dropWhile (\<lambda>x. x \<noteq> DQUOTE) ds of
                      e # f # rest \<Rightarrow> if f = CHR '')'' then Some rest else None
                    | _ \<Rightarrow> None)
                 else None
             | [] \<Rightarrow> None)
          else None)"

definition is_href_char :: "char \<Rightarrow> bool" where
  "is_href_char c \<longleftrightarrow> c \<noteq> CHR '')'' \<and> \<not> is_space c"

definition drop_bang :: "string \<Rightarrow> string" where
  "drop_bang s = (case s of c # cs \<Rightarrow> if c = CHR ''!'' then cs else s | [] \<Rightarrow> [])"

definition md_link :: "(string \<times> string) pattern" where
  "md_link s =
     (case drop_bang s of
        [] \<Rightarrow> None
      | b # t \<Rightarrow>
          (let label = takeWhile (\<lambda>c. c \<noteq> CHR '']'') t in
           case dropWhile (\<lambda>c. c \<noteq> CHR '']'') t of
             c # d # u \<Rightarrow>
               (let href = takeWhile is_href_char u in
                if b = CHR ''['' \<and> d = CHR ''('' \<and> href \<noteq> [] then
                  map_option (\<lambda>rest. ((label, href), length s - length rest))
                    (link_title_end (dropWhile is_href_char u))
                else None)
           | _ \<Rightarrow> None))"

text \<open>\<open>/\[\[([^\]|]+)(?:\|[^\]]*)?\]\]/\<close>\<close>

definition wiki_link :: "string pattern" where
  "wiki_link s =
     (if \<not> starts_with s ''[['' then None
      else (let stop = (\<lambda>c. c \<noteq> CHR '']'' \<and> c \<noteq> CHR ''|''); t = drop 2 s;
                target = takeWhile stop t; u = dropWhile stop t;
                v = (if u \<noteq> [] \<and> hd u = CHR ''|'' then dropWhile (\<lambda>c. c \<noteq> CHR '']'') u else u) in
            if target \<noteq> [] \<and> starts_with v '']]'' then Some (target, length s - length (drop 2 v)) else None))"

text \<open>The looser link of \<open>plainHeading\<close>: \<open>/!?\[([^\]]*)\]\([^)]*\)/\<close>.\<close>

definition heading_link :: "string pattern" where
  "heading_link s =
     (case drop_bang s of
        [] \<Rightarrow> None
      | b # t \<Rightarrow>
          (case dropWhile (\<lambda>c. c \<noteq> CHR '']'') t of
             c # d # u \<Rightarrow>
               (case dropWhile (\<lambda>x. x \<noteq> CHR '')'') u of
                  e # rest \<Rightarrow>
                    if b = CHR ''['' \<and> d = CHR ''(''
                    then Some (takeWhile (\<lambda>c. c \<noteq> CHR '']'') t, length s - length rest) else None
                | [] \<Rightarrow> None)
           | _ \<Rightarrow> None))"

section \<open>Titles\<close>

definition closing_hashes :: "string \<Rightarrow> bool" where
  "closing_hashes s =
     (case dropWhile is_space s of
        c # cs \<Rightarrow> c = CHR ''#'' \<and> list_all is_space (dropWhile (\<lambda>x. x = CHR ''#'') cs)
      | [] \<Rightarrow> False)"

definition plainHeading :: "string \<Rightarrow> string" where
  "plainHeading text =
     (let a = scan_replace wiki_link (\<lambda>target _. target) text;
          b = scan_replace heading_link (\<lambda>label _. label) a;
          c = filter (\<lambda>x. x \<notin> {CHR ''*'', CHR ''_'', BACKTICK, CHR ''~''}) b
      in trim (cut_at closing_hashes c))"

abbreviation FENCE :: string where
  "FENCE \<equiv> [BACKTICK, BACKTICK, BACKTICK]"

fun after_close :: "bool \<Rightarrow> string \<Rightarrow> string option" where
  "after_close bol [] = None"
| "after_close bol (c # cs) =
     (if bol \<and> starts_with (c # cs) FENCE then Some (drop 3 (c # cs)) else after_close (c \<in> {NL, CR}) cs)"

lemma length_after_close: "after_close bol s = Some t \<Longrightarrow> length t \<le> length s"
  by (induction bol s rule: after_close.induct) (auto split: if_splits)

function strip_fences :: "bool \<Rightarrow> string \<Rightarrow> string" where
  "strip_fences bol [] = []"
| "strip_fences bol (c # cs) =
     (case (if bol \<and> starts_with (c # cs) FENCE then after_close False (drop 2 cs) else None) of
        Some rest \<Rightarrow> strip_fences False rest
      | None \<Rightarrow> c # strip_fences (c \<in> {NL, CR}) cs)"
  by pat_completeness auto
termination
proof (relation "measure (length \<circ> snd)", goal_cases)
  case (3 bol c cs rest)
  then have "after_close False (drop 2 cs) = Some rest" by (auto split: if_splits)
  from length_after_close [OF this] show ?case by simp
qed auto

definition heading_text :: "string \<Rightarrow> string" where
  "heading_text line =
     (case line of
        c # d # cs \<Rightarrow>
          (let t = trim cs in
           if c = CHR ''#'' \<and> is_space d \<and> CR \<notin> set t \<and> NL \<notin> set t then t else [])
      | _ \<Rightarrow> [])"

fun first_titled :: "string list \<Rightarrow> string" where
  "first_titled [] = []"
| "first_titled (l # ls) =
     (if heading_text l \<noteq> [] \<and> plainHeading (heading_text l) \<noteq> []
      then plainHeading (heading_text l) else first_titled ls)"

definition firstHeading :: "string \<Rightarrow> string" where
  "firstHeading body = first_titled (split_on NL (strip_fences True body))"

definition dash_to_space :: "string \<Rightarrow> string" where
  "dash_to_space s = map (\<lambda>c. if c = DASH then CHR '' '' else c) s"

text \<open>\<open>path.slice(0, path.lastIndexOf('/'))\<close>; with no slash the end is \<open>-1\<close>, the last character.\<close>

definition parent_path :: "string \<Rightarrow> string" where
  "parent_path path = (case last_index_of path SLASH of Some i \<Rightarrow> take i path | None \<Rightarrow> butlast path)"

definition pageTitle :: "string \<Rightarrow> string \<Rightarrow> string" where
  "pageTitle path content =
     (let pf = parseFrontmatter content;
          declared = (case fst pf of None \<Rightarrow> None | Some fm \<Rightarrow> map_of fm ''title'');
          heading = firstHeading (if fst pf \<noteq> None then snd pf else content);
          name = last (split_on SLASH path);
          folder = last (split_on SLASH (parent_path path));
          d = (case declared of Some (Scalar s) \<Rightarrow> trim s | _ \<Rightarrow> []) in
      if d \<noteq> [] then d
      else if heading \<noteq> [] then heading
      else if isFolderNoteName name \<and> folder \<noteq> [] then dash_to_space folder
      else dash_to_space (drop_md name))"

section \<open>Code is not links\<close>

text \<open>\<open>/^[ \t]*(```+|~~~+)/\<close>: the fence marker a line opens or closes with.\<close>

definition fence_marker :: "string \<Rightarrow> string option" where
  "fence_marker line =
     (case dropWhile (\<lambda>c. c = CHR '' '' \<or> c = CHR 0x09) line of
        [] \<Rightarrow> None
      | c # cs \<Rightarrow>
          (let run = takeWhile (\<lambda>d. d = c) (c # cs) in
           if (c = BACKTICK \<or> c = CHR ''~'') \<and> 3 \<le> length run then Some run else None))"

definition nextFence :: "string \<Rightarrow> string option \<Rightarrow> string option" where
  "nextFence line fence =
     (case fence of
        None \<Rightarrow> fence_marker line
      | Some f \<Rightarrow>
          (case fence_marker line of
             Some m \<Rightarrow> if hd m = hd f \<and> length f \<le> length m then None else Some f
           | None \<Rightarrow> Some f))"

fun mask_lines :: "string option \<Rightarrow> string list \<Rightarrow> string list" where
  "mask_lines fence [] = []"
| "mask_lines fence (l # ls) =
     (if fence \<noteq> None \<or> fence_marker l \<noteq> None then blank_out l else l) # mask_lines (nextFence l fence) ls"

text \<open>
  \<open>/(`+)(?:(?!\1)[\s\S])*?\1/\<close>: the longest run of ticks at this place that occurs again, up to
  its next occurrence.
\<close>

fun code_span_with :: "nat \<Rightarrow> string \<Rightarrow> nat option" where
  "code_span_with 0 s = None"
| "code_span_with (Suc k) s =
     (case index_of (drop (Suc k) s) (replicate (Suc k) BACKTICK) of
        Some i \<Rightarrow> Some (Suc k + i + Suc k)
      | None \<Rightarrow> code_span_with k s)"

definition code_span :: "unit pattern" where
  "code_span s = map_option (Pair ()) (code_span_with (length (takeWhile (\<lambda>c. c = BACKTICK) s)) s)"

definition maskCode :: "string \<Rightarrow> string" where
  "maskCode md =
     scan_replace code_span (\<lambda>_ raw. blank_out raw) (join_with [NL] (mask_lines None (split_on NL md)))"

datatype page_link = MdLink (link_target: string) (link_raw: string) | WikiLink (link_target: string) (link_raw: string)

text \<open>\<open>/^(https?:|mailto:|#)/i\<close>\<close>

definition off_repo :: "string \<Rightarrow> bool" where
  "off_repo href \<longleftrightarrow> starts_with_ci href ''http:'' \<or> starts_with_ci href ''https:''
     \<or> starts_with_ci href ''mailto:'' \<or> starts_with href ''#''"

definition extractLinks :: "string \<Rightarrow> page_link list" where
  "extractLinks body =
     (let scannable = maskCode body in
      map (\<lambda>((label, href), raw). MdLink href raw)
        (filter (\<lambda>((label, href), raw). \<not> off_repo href) (scan_matches md_link scannable))
      @ map (\<lambda>(target, raw). WikiLink (trim target) raw) (scan_matches wiki_link scannable))"

section \<open>Which page a wikilink means\<close>

definition wikilinkKey :: "string \<Rightarrow> string" where
  "wikilinkKey text =
     join_with [SLASH] (filter (\<lambda>s. s \<noteq> []) (map (\<lambda>seg. slugify seg []) (split_on SLASH text)))"

definition drop_md_ci :: "string \<Rightarrow> string" where
  "drop_md_ci s = (if ends_with (lower s) ''.md'' then take (length s - 3) s else s)"

definition drop_dot_slash :: "string \<Rightarrow> string" where
  "drop_dot_slash s = (if starts_with s ''./'' then drop 2 s else s)"

definition wikilinkTargetName :: "string \<Rightarrow> string" where
  "wikilinkTargetName rawTarget = trim (drop_md_ci (drop_dot_slash (trim (hd (split_on (CHR ''#'') rawTarget)))))"

record page_name =
  pn_path :: string
  pn_title :: string

record wikilink_index =
  byPath :: "(string \<times> string) list"
  byName :: "(string \<times> string) list"
  byTitle :: "(string \<times> string) list"

text \<open>The first claim on a key wins.\<close>

definition claim_key :: "string \<Rightarrow> string \<Rightarrow> (string \<times> string) list \<Rightarrow> (string \<times> string) list" where
  "claim_key key path m = (if key \<noteq> [] \<and> map_of m key = None then m @ [(key, path)] else m)"

definition claim_keys :: "string list \<Rightarrow> string \<Rightarrow> (string \<times> string) list \<Rightarrow> (string \<times> string) list" where
  "claim_keys keys path m = foldl (\<lambda>acc key. claim_key key path acc) m keys"

definition path_segs :: "page_name \<Rightarrow> string list" where
  "path_segs p = split_on SLASH (drop_md_ci (pn_path p))"

definition is_note :: "page_name \<Rightarrow> bool" where
  "is_note p = isFolderNoteName (last (path_segs p) @ ''.md'')"

definition own_segs :: "page_name \<Rightarrow> string list" where
  "own_segs p = (if is_note p then butlast (path_segs p) else path_segs p)"

text \<open>The keys of each lane, in the order they are claimed.\<close>

definition path_keys :: "page_name \<Rightarrow> string list" where
  "path_keys p =
     (if is_note p then [wikilinkKey (drop_md_ci (pn_path p))] else [])
     @ map (\<lambda>i. wikilinkKey (join_with [SLASH] (drop i (own_segs p)))) [0..<length (own_segs p) - 1]"

definition name_keys :: "page_name \<Rightarrow> string list" where
  "name_keys p = (if own_segs p \<noteq> [] then [wikilinkKey (last (own_segs p))] else [])"

definition title_keys :: "page_name \<Rightarrow> string list" where
  "title_keys p = [wikilinkKey (pn_title p)]"

definition claim_page :: "wikilink_index \<Rightarrow> page_name \<Rightarrow> wikilink_index" where
  "claim_page ix p =
     ix\<lparr>byPath := claim_keys (path_keys p) (pn_path p) (byPath ix),
        byName := claim_keys (name_keys p) (pn_path p) (byName ix),
        byTitle := claim_keys (title_keys p) (pn_path p) (byTitle ix)\<rparr>"

definition no_index :: wikilink_index where
  "no_index = \<lparr>byPath = [], byName = [], byTitle = []\<rparr>"

definition buildWikilinkIndex :: "(string \<Rightarrow> string \<Rightarrow> int) \<Rightarrow> page_name list \<Rightarrow> wikilink_index" where
  "buildWikilinkIndex lc pages =
     foldl claim_page no_index (js_sort (\<lambda>a b. lc (pn_path a) (pn_path b)) pages)"

definition or_else :: "'a option \<Rightarrow> 'a option \<Rightarrow> 'a option" where
  "or_else a b = (case a of Some x \<Rightarrow> Some x | None \<Rightarrow> b)"

definition resolveWikilink :: "wikilink_index \<Rightarrow> string \<Rightarrow> string option" where
  "resolveWikilink ix rawTarget =
     (let key = wikilinkKey (wikilinkTargetName rawTarget) in
      if key = [] then None
      else or_else (map_of (byPath ix) key) (or_else (map_of (byName ix) key) (map_of (byTitle ix) key)))"

section \<open>Relative links\<close>

fun resolve_parts :: "string list \<Rightarrow> string list \<Rightarrow> string list" where
  "resolve_parts [] out = out"
| "resolve_parts (part # ps) out =
     (if part = [] \<or> part = ''.'' then resolve_parts ps out
      else if part = ''..'' then resolve_parts ps (butlast out)
      else resolve_parts ps (out @ [part]))"

definition resolveRelative :: "string \<Rightarrow> string \<Rightarrow> string" where
  "resolveRelative fromPath href =
     (let clean = hd (split_on (CHR ''?'') (hd (split_on (CHR ''#'') href))) in
      if clean = [] then fromPath
      else (let parts = (if starts_with clean [SLASH] then split_on SLASH (tl clean)
                         else butlast (split_on SLASH fromPath) @ split_on SLASH clean)
            in join_with [SLASH] (resolve_parts parts [])))"

fun common_prefix :: "string list \<Rightarrow> string list \<Rightarrow> nat" where
  "common_prefix (f # fs) (t # ts) = (if ts \<noteq> [] \<and> f = t then Suc (common_prefix fs ts) else 0)"
| "common_prefix fs ts = 0"

definition relativeHref :: "string \<Rightarrow> string \<Rightarrow> string" where
  "relativeHref fromPath toPath =
     (let from = butlast (split_on SLASH fromPath); to = split_on SLASH toPath;
          common = common_prefix from to
      in join_with [SLASH] (replicate (length from - common) ''..'' @ drop common to))"

section \<open>Rewriting links\<close>

definition fragment_of :: "string \<Rightarrow> string" where
  "fragment_of href =
     (if contains href ''#'' then ''#'' @ join_with ''#'' (tl (split_on (CHR ''#'') href)) else [])"

definition rewrites_md :: "string \<Rightarrow> string \<Rightarrow> string \<Rightarrow> bool" where
  "rewrites_md fromPath oldTarget href \<longleftrightarrow> \<not> off_repo href \<and> resolveRelative fromPath href = oldTarget"

definition rewriteMdLinks :: "string \<Rightarrow> string \<Rightarrow> string \<Rightarrow> string \<Rightarrow> string \<times> nat" where
  "rewriteMdLinks body fromPath oldTarget newTarget =
     (scan_replace md_link
        (\<lambda>(label, href) raw.
           if rewrites_md fromPath oldTarget href
           then replace_string raw href (relativeHref fromPath newTarget @ fragment_of href) else raw) body,
      length (filter (\<lambda>((label, href), raw). rewrites_md fromPath oldTarget href) (scan_matches md_link body)))"

definition rebaseMdLinks :: "string \<Rightarrow> string \<Rightarrow> string \<Rightarrow> string" where
  "rebaseMdLinks body oldPath newPath =
     scan_replace md_link
       (\<lambda>(label, href) raw.
          if off_repo href then raw
          else replace_string raw href (relativeHref newPath (resolveRelative oldPath href) @ fragment_of href)) body"

definition rewrites_wiki :: "string \<Rightarrow> string \<Rightarrow> bool" where
  "rewrites_wiki oldKey target \<longleftrightarrow> wikilinkKey (wikilinkTargetName (hd (split_on (CHR ''#'') target))) = oldKey"

definition rewriteWikiLinks :: "string \<Rightarrow> string \<Rightarrow> string \<Rightarrow> string \<times> nat" where
  "rewriteWikiLinks body oldTarget newTarget =
     (let oldKey = wikilinkKey (wikilinkTargetName oldTarget); replacement = trim newTarget in
      if oldKey = [] then (body, 0)
      else (scan_replace wiki_link
              (\<lambda>target raw.
                 if rewrites_wiki oldKey target
                 then replace_first raw target
                        (\<lambda>_ _. join_with ''#'' (replacement # tl (split_on (CHR ''#'') target)))
                 else raw) body,
            length (filter (\<lambda>(target, raw). rewrites_wiki oldKey target) (scan_matches wiki_link body))))"

section \<open>The log page\<close>

definition insertLogEntry :: "string \<Rightarrow> string \<Rightarrow> string \<Rightarrow> string" where
  "insertLogEntry currentLog dateIso bullet =
     (let block = ''## '' @ dateIso @ [NL, NL] @ ''- '' @ bullet @ [NL, NL];
          append = drop_trailing is_space currentLog @ [NL, NL] @ block;
          above_comment = (case index_of currentLog ''<!--'' of
                             Some i \<Rightarrow> take i currentLog @ block @ drop i currentLog
                           | None \<Rightarrow> append) in
      case index_of currentLog (NL # ''## '') of
        Some i \<Rightarrow> if 0 < i then take (i + 1) currentLog @ block @ drop (i + 1) currentLog else above_comment
      | None \<Rightarrow> above_comment)"

section \<open>Masking keeps every offset\<close>

definition masks :: "char \<Rightarrow> char \<Rightarrow> bool" where
  "masks m c \<longleftrightarrow> m = c \<or> (m = CHR '' '' \<and> c \<noteq> NL)"

lemma masks_refl [simp]: "masks c c"
  by (simp add: masks_def)

lemma masks_trans: "masks a b \<Longrightarrow> masks b c \<Longrightarrow> masks a c"
  by (auto simp: masks_def)

lemma blank_out_masks: "list_all2 masks (blank_out s) s"
  by (simp add: blank_out_def list_all2_map1 list_all2_same masks_def)

lemma mask_lines_masks: "list_all2 (list_all2 masks) (mask_lines fence ls) ls"
  by (induction fence ls rule: mask_lines.induct) (auto simp: blank_out_masks list_all2_same)

lemma join_masks:
  "list_all2 (list_all2 masks) xs ys \<Longrightarrow> list_all2 masks (join_with [NL] xs) (join_with [NL] ys)"
proof (induction xs ys rule: list_all2_induct)
  case Nil
  then show ?case by simp
next
  case (Cons x xs y ys)
  show ?case
  proof (cases "xs = []")
    case True
    with Cons show ?thesis by simp
  next
    case False
    with Cons have "ys \<noteq> []" by auto
    with False Cons show ?thesis by (simp add: join_with_Cons list_all2_appendI)
  qed
qed

lemma code_span_with_bounds: "code_span_with k s = Some n \<Longrightarrow> k \<le> length s \<Longrightarrow> 1 \<le> n \<and> n \<le> length s"
proof (induction k s rule: code_span_with.induct)
  case (1 s)
  then show ?case by simp
next
  case (2 k s)
  then show ?case
    using index_of_Some [of "drop (Suc k) s" "replicate (Suc k) BACKTICK"]
    by (auto split: option.splits)
qed

lemma consuming_code_span: "consuming code_span"
  using code_span_with_bounds length_takeWhile_le
  by (fastforce simp: consuming_def code_span_def)

text \<open>
  \<open>maskCode\<close> keeps every offset: the masked text has the length of the page, each of its
  characters is the page's own or a blank, and every newline stands where it stood.
\<close>

theorem maskCode_keeps_offsets:
  "length (maskCode md) = length md
   \<and> (\<forall>i < length md. maskCode md ! i = md ! i \<or> (maskCode md ! i = CHR '' '' \<and> md ! i \<noteq> NL))"
proof -
  let ?l = "join_with [NL] (mask_lines None (split_on NL md))"
  have "list_all2 masks (maskCode md) ?l"
    unfolding maskCode_def by (rule scan_replace_masks [OF consuming_code_span blank_out_masks masks_refl])
  moreover have "list_all2 masks ?l md"
    using join_masks [OF mask_lines_masks, of None "split_on NL md"] by simp
  ultimately have "list_all2 masks (maskCode md) md"
    using masks_trans by (rule list_all2_trans [rotated])
  then show ?thesis by (auto simp: list_all2_conv_all_nth masks_def)
qed

theorem maskCode_keeps_offsets_witness:
  "maskCode ''a `[[b]]` [[c]]'' = ''a         [[c]]''
   \<and> length (maskCode ''a `[[b]]` [[c]]'') = length ''a `[[b]]` [[c]]''"
proof
  show "maskCode ''a `[[b]]` [[c]]'' = ''a         [[c]]''" by code_simp
  show "length (maskCode ''a `[[b]]` [[c]]'') = length ''a `[[b]]` [[c]]''"
    using maskCode_keeps_offsets by (rule conjunct1)
qed

section \<open>Relative links resolve\<close>

text \<open>A segment that stands for itself in a path and in an href.\<close>

definition plain_seg :: "string \<Rightarrow> bool" where
  "plain_seg s \<longleftrightarrow> s \<notin> {[], ''.'', ''..''} \<and> SLASH \<notin> set s \<and> CHR ''#'' \<notin> set s \<and> CHR ''?'' \<notin> set s"

definition plain_path :: "string \<Rightarrow> bool" where
  "plain_path p \<longleftrightarrow> list_all plain_seg (split_on SLASH p)"

lemma resolve_parts_append: "resolve_parts (ps @ qs) out = resolve_parts qs (resolve_parts ps out)"
  by (induction ps out rule: resolve_parts.induct) auto

lemma resolve_parts_plain: "list_all plain_seg ps \<Longrightarrow> resolve_parts ps out = out @ ps"
  by (induction ps arbitrary: out) (auto simp: plain_seg_def)

lemma resolve_parts_up: "resolve_parts (replicate n ''..'') out = take (length out - n) out"
proof (induction n arbitrary: out)
  case 0
  then show ?case by simp
next
  case (Suc n)
  then show ?case by (simp add: butlast_conv_take min_def)
qed

lemma common_prefix_take:
  "common_prefix fs ts \<le> length fs \<and> take (common_prefix fs ts) fs = take (common_prefix fs ts) ts"
  by (induction fs ts rule: common_prefix.induct) auto

lemma common_prefix_less: "ts \<noteq> [] \<Longrightarrow> common_prefix fs ts < length ts"
  by (induction fs ts rule: common_prefix.induct) auto

lemma set_join: "set (join_with [c] xs) \<subseteq> insert c (\<Union>x \<in> set xs. set x)"
  by (induction xs rule: induct_list012) auto

lemma set_join_notin: "x \<noteq> c \<Longrightarrow> (\<And>y. y \<in> set ys \<Longrightarrow> x \<notin> set y) \<Longrightarrow> x \<notin> set (join_with [c] ys)"
  using set_join [of c ys] by blast

lemma hd_split_clean: "c \<notin> set s \<Longrightarrow> hd (split_on c s) = s"
  by (simp add: split_on_notin)

lemma join_hd: "xs \<noteq> [] \<Longrightarrow> hd xs \<noteq> [] \<Longrightarrow> join_with sep xs \<noteq> [] \<and> hd (join_with sep xs) = hd (hd xs)"
  by (cases xs; cases "tl xs") auto

definition href_seg :: "string \<Rightarrow> bool" where
  "href_seg s \<longleftrightarrow> SLASH \<notin> set s \<and> CHR ''#'' \<notin> set s \<and> CHR ''?'' \<notin> set s \<and> s \<noteq> []"

lemma href_part:
  assumes "s \<in> set (replicate n ''..'' @ drop k ps)" "list_all plain_seg ps"
  shows "href_seg s"
proof -
  have "s = ''..'' \<or> plain_seg s"
    using assms in_set_dropD [of s k ps] by (fastforce simp: list_all_iff)
  then show ?thesis by (auto simp: plain_seg_def href_seg_def)
qed

lemma href_resolves:
  assumes ne: "parts \<noteq> []" and seg: "\<And>s. s \<in> set parts \<Longrightarrow> href_seg s"
  shows "resolveRelative fromPath (join_with [SLASH] parts)
           = join_with [SLASH] (resolve_parts (butlast (split_on SLASH fromPath) @ parts) [])"
proof -
  let ?href = "join_with [SLASH] parts"
  have chars: "CHR ''#'' \<notin> set ?href" "CHR ''?'' \<notin> set ?href"
    by (rule set_join_notin; use seg in \<open>simp add: href_seg_def\<close>)+
  have split: "split_on SLASH ?href = parts"
    using ne seg by (intro split_on_join) (auto simp: href_seg_def)
  have "href_seg (hd parts)" using ne by (intro seg) simp
  then have hd: "hd parts \<noteq> []" "hd (hd parts) \<noteq> SLASH"
    by (auto simp: href_seg_def dest: hd_in_set)
  from join_hd [OF ne hd(1), of "[SLASH]"] hd(2) have "?href \<noteq> []" "\<not> starts_with ?href [SLASH]"
    by (auto simp: starts_with_iff)
  then show ?thesis
    unfolding resolveRelative_def hd_split_clean [OF chars(1)] hd_split_clean [OF chars(2)] Let_def split
    by simp
qed

text \<open>The parts of a relative link: up to the common directory and down to the target.\<close>

lemma resolve_relative_parts:
  assumes "list_all plain_seg from" "list_all plain_seg to"
  shows "resolve_parts (from @ replicate (length from - common_prefix from to) ''..''
           @ drop (common_prefix from to) to) [] = to"
proof -
  let ?c = "common_prefix from to"
  have c: "?c \<le> length from" "take ?c from = take ?c to" using common_prefix_take [of "from" to] by simp_all
  have "list_all plain_seg (drop ?c to)" using assms(2) by (auto simp: list_all_iff dest: in_set_dropD)
  then have "resolve_parts (from @ replicate (length from - ?c) ''..'' @ drop ?c to) []
      = take ?c from @ drop ?c to"
    using c(1) assms(1) by (simp add: resolve_parts_append resolve_parts_plain resolve_parts_up)
  with c(2) show ?thesis by simp
qed

text \<open>
  C33. A relative link resolves to the page it was made for: whatever the page it is written in,
  \<open>resolveRelative\<close> of what \<open>relativeHref\<close> answers is the target, for paths of plain segments.
\<close>

theorem relative_href_roundtrip:
  assumes "plain_path fromPath" "plain_path toPath"
  shows "resolveRelative fromPath (relativeHref fromPath toPath) = toPath"
proof -
  let ?from = "butlast (split_on SLASH fromPath)" and ?to = "split_on SLASH toPath"
  have segs: "list_all plain_seg ?from" "list_all plain_seg ?to"
    using assms by (auto simp: plain_path_def list_all_iff dest: in_set_butlastD)
  let ?parts = "replicate (length ?from - common_prefix ?from ?to) ''..'' @ drop (common_prefix ?from ?to) ?to"
  have "common_prefix ?from ?to < length ?to" by (rule common_prefix_less) simp
  then have "?parts \<noteq> []" by simp
  then have "resolveRelative fromPath (join_with [SLASH] ?parts) = join_with [SLASH] (resolve_parts (?from @ ?parts) [])"
    by (rule href_resolves) (rule href_part [OF _ segs(2)])
  also have "\<dots> = toPath" by (simp only: resolve_relative_parts [OF segs] join_split)
  finally show ?thesis unfolding relativeHref_def Let_def .
qed

theorem relative_href_roundtrip_witness:
  "relativeHref ''wiki/people/ada.md'' ''wiki/orgs/acme.md'' = ''../orgs/acme.md''
   \<and> resolveRelative ''wiki/people/ada.md'' (relativeHref ''wiki/people/ada.md'' ''wiki/orgs/acme.md'')
       = ''wiki/orgs/acme.md''"
proof
  show "relativeHref ''wiki/people/ada.md'' ''wiki/orgs/acme.md'' = ''../orgs/acme.md''" by code_simp
  have "plain_path ''wiki/people/ada.md''" "plain_path ''wiki/orgs/acme.md''" by code_simp+
  then show "resolveRelative ''wiki/people/ada.md'' (relativeHref ''wiki/people/ada.md'' ''wiki/orgs/acme.md'')
       = ''wiki/orgs/acme.md''" by (rule relative_href_roundtrip)
qed

text \<open>A name with a mark of the URL syntax is cut there when the link is read back.\<close>

lemma marked_name_lost:
  "resolveRelative ''wiki/a.md'' (relativeHref ''wiki/a.md'' ''wiki/C#.md'') = ''wiki/C''
   \<and> resolveRelative ''wiki/a.md'' (relativeHref ''wiki/a.md'' ''wiki/why?.md'') = ''wiki/why''"
  by code_simp

section \<open>Resolution\<close>

lemma map_of_claim_key:
  "map_of (claim_key key path m) k = (if k = key \<and> key \<noteq> [] \<and> map_of m k = None then Some path else map_of m k)"
  by (auto simp: claim_key_def map_add_def split: option.split)

lemma map_of_claim_keys:
  "map_of (claim_keys keys path m) k
     = (if k \<noteq> [] \<and> k \<in> set keys \<and> map_of m k = None then Some path else map_of m k)"
proof (induction keys arbitrary: m)
  case Nil
  then show ?case by (simp add: claim_keys_def)
next
  case (Cons key keys)
  have "claim_keys (key # keys) path m = claim_keys keys path (claim_key key path m)"
    by (simp add: claim_keys_def)
  with Cons show ?case by (auto simp: map_of_claim_key)
qed

text \<open>A lane answers with the first page that claims the key.\<close>

definition lane :: "(page_name \<Rightarrow> string list) \<Rightarrow> page_name list \<Rightarrow> string \<Rightarrow> page_name option" where
  "lane keys pages k = (if k = [] then None else find (\<lambda>p. k \<in> set (keys p)) pages)"

definition lane_of :: "(page_name \<Rightarrow> string list) \<Rightarrow> page_name list \<Rightarrow> (string \<times> string) list \<Rightarrow> (string \<times> string) list" where
  "lane_of keys pages m = foldl (\<lambda>acc p. claim_keys (keys p) (pn_path p) acc) m pages"

lemma map_of_lane_of:
  "map_of (lane_of keys pages m) k = or_else (map_of m k) (map_option pn_path (lane keys pages k))"
proof (induction pages arbitrary: m)
  case Nil
  then show ?case by (simp add: lane_of_def lane_def or_else_def split: option.split)
next
  case (Cons p pages)
  have "lane_of keys (p # pages) m = lane_of keys pages (claim_keys (keys p) (pn_path p) m)"
    by (simp add: lane_of_def)
  with Cons show ?case
    by (auto simp: map_of_claim_keys lane_def or_else_def split: option.split)
qed

lemma claim_pages:
  "foldl claim_page ix pages =
     ix\<lparr>byPath := lane_of path_keys pages (byPath ix), byName := lane_of name_keys pages (byName ix),
        byTitle := lane_of title_keys pages (byTitle ix)\<rparr>"
  by (induction pages arbitrary: ix) (simp_all add: lane_of_def claim_page_def)

text \<open>
  C32. Resolution is the lookup its lanes describe: with the pages in path order, a link means the
  first page one of whose path suffixes it spells, else the first whose file name (or folder, for
  a folder note) it spells, else the first whose title it spells; a link with no name means none.
\<close>

theorem resolveWikilink_lanes:
  "resolveWikilink (buildWikilinkIndex lc pages) rawTarget =
     (let k = wikilinkKey (wikilinkTargetName rawTarget);
          ps = js_sort (\<lambda>a b. lc (pn_path a) (pn_path b)) pages
      in map_option pn_path (or_else (lane path_keys ps k) (or_else (lane name_keys ps k) (lane title_keys ps k))))"
  by (simp add: resolveWikilink_def buildWikilinkIndex_def claim_pages no_index_def map_of_lane_of Let_def)
     (simp add: or_else_def lane_def split: option.split)

text \<open>
  The order pages are listed in does not matter where collation tells their paths apart: any
  two listings of the same pages resolve every link alike.
\<close>

theorem wikilinks_order_free:
  assumes "comparator lc" "mset pages = mset pages'"
    and "\<forall>a \<in> set pages. \<forall>b \<in> set pages. lc (pn_path a) (pn_path b) = 0 \<longrightarrow> a = b"
  shows "buildWikilinkIndex lc pages = buildWikilinkIndex lc pages'"
  unfolding buildWikilinkIndex_def
  by (subst comparator.js_sort_perm [OF comparator_key [OF assms(1)] assms(2,3)]) (rule refl)

theorem wikilinks_order_free_witness:
  "buildWikilinkIndex code_unit_cmp [\<lparr>pn_path = ''w/b.md'', pn_title = ''B''\<rparr>, \<lparr>pn_path = ''w/a.md'', pn_title = ''B''\<rparr>]
     = buildWikilinkIndex code_unit_cmp [\<lparr>pn_path = ''w/a.md'', pn_title = ''B''\<rparr>, \<lparr>pn_path = ''w/b.md'', pn_title = ''B''\<rparr>]"
  by (rule wikilinks_order_free [OF cu.comparator_axioms]) (auto dest: cu.cmp_eq)

section \<open>Names\<close>

text \<open>
  A folder note at the root of a brain, with no title and no heading, is named after its own path
  less the last character: the slice meant to take its folder ends at \<open>-1\<close>.
\<close>

lemma root_note_title: "pageTitle ''index.md'' ''hello'' = ''index.m''"
  by code_simp

text \<open>
  The href is looked for in the whole link, so a link whose label spells the href has its label
  rewritten and still points at the old place.
\<close>

lemma label_rewritten_instead:
  "rewriteMdLinks ''[a.md](a.md)'' ''w/x.md'' ''w/a.md'' ''w/b.md'' = (''[b.md](a.md)'', 1)"
  by code_simp

end
