(* ===== verification/PathPolicy.thy ===== *)
theory PathPolicy
  imports WikiLinks
begin

text \<open>
  What a path of a brain is (\<open>src/lib/brain-policy.ts\<close>), where a write lands and whether it may
  (\<open>src/lib/write-target.ts\<close>), what a markdown link means (\<open>src/lib/links.ts\<close>), and the attachment
  registry these ask (\<open>mediaTypeOf\<close> in \<open>src/lib/media.ts\<close>).
\<close>

section \<open>Roles of paths\<close>

datatype path_role = ContentRole | SourceRole | LogRole | SystemRole

type_synonym path_policy = "path_role obj"

definition CONFIG_PATH :: string where
  "CONFIG_PATH = ''.isomorphic.json''"

definition strip_slashes :: "string \<Rightarrow> string" where
  "strip_slashes s = drop_trailing (\<lambda>c. c = SLASH) (dropWhile (\<lambda>c. c = SLASH) (trim s))"

definition normRoot :: "string \<Rightarrow> string" where
  "normRoot r = (let t = strip_slashes r in if t = [] \<or> t = ''.'' then [] else t @ [SLASH])"

definition norm_key :: "string \<Rightarrow> string" where
  "norm_key key = (let b = strip_slashes key in if b = ''.'' then [] else b)"

definition key_matches :: "string \<Rightarrow> string \<Rightarrow> bool" where
  "key_matches path base \<longleftrightarrow> base = [] \<or> path = base \<or> starts_with path (base @ [SLASH])"

text \<open>The loop of \<open>roleOf\<close>; the best length starts below every length, written as \<open>None\<close>.\<close>

definition role_step :: "string \<Rightarrow> path_role \<times> nat option \<Rightarrow> string \<times> path_role \<Rightarrow> path_role \<times> nat option" where
  "role_step path best e =
     (let base = norm_key (fst e) in
      if (case snd best of Some n \<Rightarrow> length base \<le> n | None \<Rightarrow> False) then best
      else if key_matches path base then (snd e, Some (length base)) else best)"

definition roleOf :: "string \<Rightarrow> path_policy \<Rightarrow> path_role" where
  "roleOf path cfg =
     (if path = CONFIG_PATH then SystemRole else fst (foldl (role_step path) (SystemRole, None) cfg))"

text \<open>\<open>/\.[a-z0-9]+\/$/i\<close>: a root that ends in a file extension and a slash.\<close>

definition looks_like_file :: "string \<Rightarrow> bool" where
  "looks_like_file k =
     (case rev k of
        c # cs \<Rightarrow>
          (let run = takeWhile is_alnum cs; rest = dropWhile is_alnum cs in
           c = SLASH \<and> run \<noteq> [] \<and> rest \<noteq> [] \<and> hd rest = CHR ''.'')
      | [] \<Rightarrow> False)"

definition rootsOf :: "path_policy \<Rightarrow> path_role \<Rightarrow> string list" where
  "rootsOf cfg role =
     filter (\<lambda>k. k = [] \<or> \<not> looks_like_file k) (map (\<lambda>e. normRoot (fst e)) (filter (\<lambda>e. snd e = role) cfg))"

definition logPathOf :: "path_policy \<Rightarrow> string" where
  "logPathOf cfg = (case find (\<lambda>e. snd e = LogRole) cfg of Some e \<Rightarrow> strip_slashes (fst e) | None \<Rightarrow> [])"

definition isSourcePath :: "string \<Rightarrow> path_policy \<Rightarrow> bool" where
  "isSourcePath path cfg \<longleftrightarrow> roleOf path cfg = SourceRole"

definition isToolMaintained :: "string \<Rightarrow> path_policy \<Rightarrow> bool" where
  "isToolMaintained path cfg \<longleftrightarrow> roleOf path cfg = LogRole"

definition isContentPath :: "string \<Rightarrow> path_policy \<Rightarrow> bool" where
  "isContentPath path cfg \<longleftrightarrow> roleOf path cfg = ContentRole"

definition isHiddenName :: "string \<Rightarrow> bool" where
  "isHiddenName path \<longleftrightarrow> starts_with (last (split_on SLASH path)) ''.''"

definition isContentFilePath :: "string \<Rightarrow> path_policy \<Rightarrow> bool" where
  "isContentFilePath path cfg \<longleftrightarrow>
     \<not> (ends_with path ''.md'' \<or> isHiddenName path) \<and> roleOf path cfg = ContentRole"

section \<open>Attachment types\<close>

definition MEDIA_TYPES :: "string obj" where
  "MEDIA_TYPES =
     [(''png'', ''image/png''), (''jpg'', ''image/jpeg''), (''jpeg'', ''image/jpeg''), (''gif'', ''image/gif''),
      (''webp'', ''image/webp''), (''svg'', ''image/svg+xml''), (''pdf'', ''application/pdf''),
      (''docx'', ''application/vnd.openxmlformats-officedocument.wordprocessingml.document''),
      (''pptx'', ''application/vnd.openxmlformats-officedocument.presentationml.presentation'')]"

definition extensionOf :: "string \<Rightarrow> string" where
  "extensionOf path =
     (let name = trim (last (split_on SLASH path)) in
      case last_index_of name (CHR ''.'') of
        Some (Suc i) \<Rightarrow> lower (drop (Suc i + 1) name)
      | _ \<Rightarrow> [])"

text \<open>
  \<open>MEDIA_TYPES[ext]\<close> also finds what every object inherits: such an extension names a property of
  \<open>Object.prototype\<close>, which is defined but no MIME type.
\<close>

datatype media_lookup = NoMedia | Mime string | Inherited string

definition mediaTypeOf :: "string \<Rightarrow> media_lookup" where
  "mediaTypeOf path =
     (let ext = extensionOf path in
      case map_of MEDIA_TYPES ext of
        Some m \<Rightarrow> Mime m
      | None \<Rightarrow> if ext \<in> set object_prototype_keys then Inherited ext else NoMedia)"

definition isMediaPath :: "string \<Rightarrow> bool" where
  "isMediaPath path \<longleftrightarrow> mediaTypeOf path \<noteq> NoMedia"

definition isAssetPath :: "string \<Rightarrow> path_policy \<Rightarrow> bool" where
  "isAssetPath path cfg \<longleftrightarrow> isContentFilePath path cfg \<and> isMediaPath path"

section \<open>Where a write lands\<close>

definition normPagePath :: "string \<Rightarrow> string" where
  "normPagePath p = dropWhile (\<lambda>c. c = SLASH) (trim p)"

definition normFolderPath :: "string \<Rightarrow> string" where
  "normFolderPath p = strip_slashes p"

datatype write_verb = Written | Moved | Deleted

datatype write_refusal =
    SourceMaterial string write_verb
  | Maintained string
  | OutsideContent string

definition writeRefusal :: "string \<Rightarrow> path_policy \<Rightarrow> write_verb \<Rightarrow> bool \<Rightarrow> write_refusal option" where
  "writeRefusal path cfg verb content =
     (if isSourcePath path cfg then Some (SourceMaterial path verb)
      else if isToolMaintained path cfg then Some (Maintained path)
      else if content \<and> \<not> isContentPath path cfg then Some (OutsideContent path)
      else None)"

datatype folder_refusal = HoldsSource string write_verb | HoldsMaintained string write_verb

fun folderWriteRefusal :: "string \<Rightarrow> string list \<Rightarrow> path_policy \<Rightarrow> write_verb \<Rightarrow> folder_refusal option" where
  "folderWriteRefusal folder [] cfg verb = None"
| "folderWriteRefusal folder (e # es) cfg verb =
     (if isSourcePath e cfg then Some (HoldsSource folder verb)
      else if isToolMaintained e cfg then Some (HoldsMaintained folder verb)
      else folderWriteRefusal folder es cfg verb)"

datatype target_kind = PageKind | FileKind | FolderKind

definition nonPageKind :: "string \<Rightarrow> string list \<Rightarrow> target_kind option" where
  "nonPageKind cleaned tree =
     (if list_ex (\<lambda>e. e = cleaned) tree then Some FileKind
      else if list_ex (\<lambda>e. starts_with e (cleaned @ [SLASH])) tree then Some FolderKind
      else None)"

datatype move_error = MoveArgsHint | EmptyFolderPath | EmptyPath | TargetNotMd | IntoItself string

text \<open>An absent or blank argument is falsy, which \<open>given\<close> writes as the empty text.\<close>

definition given :: "string option \<Rightarrow> string" where
  "given a = (case a of Some s \<Rightarrow> trim s | None \<Rightarrow> [])"

definition resolveMoveTarget ::
  "string \<Rightarrow> string option \<Rightarrow> string option \<Rightarrow> target_kind \<Rightarrow> move_error + string" where
  "resolveMoveTarget path new_path new_name kind =
     (let explicit = given new_path; name = given new_name;
          parent = (case last_index_of path SLASH of Some i \<Rightarrow> take i path | None \<Rightarrow> []);
          under = (\<lambda>leaf. if parent \<noteq> [] then parent @ [SLASH] @ leaf else leaf);
          typed = (if explicit \<noteq> [] then explicit else under name);
          target = (case kind of
                      FolderKind \<Rightarrow> normFolderPath typed
                    | PageKind \<Rightarrow> if explicit \<noteq> [] then normPagePath explicit
                                  else under (slugify name ''untitled'' @ ''.md'')
                    | FileKind \<Rightarrow> normPagePath typed) in
      if explicit = [] \<and> name = [] then Inl MoveArgsHint
      else if target = [] then Inl (if kind = FolderKind then EmptyFolderPath else EmptyPath)
      else if kind = PageKind \<and> \<not> ends_with target ''.md'' then Inl TargetNotMd
      else if kind = FolderKind \<and> starts_with target (path @ [SLASH]) then Inl (IntoItself path)
      else Inr target)"

section \<open>What a markdown link means\<close>

datatype md_link_kind = PageLink string | FileLink string | BrokenLink string | IgnoreLink "string option"

definition isExternalHref :: "string \<Rightarrow> bool" where
  "isExternalHref href =
     list_ex (starts_with_ci (trim href)) [''http:'', ''https:'', ''mailto:'', ''tel:'', ''data:'', ''#'']"

definition classifyMdLink :: "string \<Rightarrow> string \<Rightarrow> path_policy \<Rightarrow> (string \<Rightarrow> bool) \<Rightarrow> md_link_kind" where
  "classifyMdLink sourcePath rawTarget cfg isKnownPage =
     (let target = resolveRelative sourcePath rawTarget in
      if isExternalHref rawTarget then IgnoreLink None
      else if target = [] then IgnoreLink None
      else if \<not> ends_with target ''.md'' then
        (if isContentFilePath target cfg then FileLink target else IgnoreLink (Some target))
      else if isSourcePath target cfg then IgnoreLink (Some target)
      else if isKnownPage target then PageLink target
      else if isContentPath target cfg then BrokenLink target else IgnoreLink (Some target))"

section \<open>Longest prefix wins\<close>

text \<open>
  The specification: among the entries whose key covers the path, the first of the longest ones
  gives the role; with no such entry, or for the configuration file, the role is \<open>system\<close>.
\<close>

definition covering :: "string \<Rightarrow> path_policy \<Rightarrow> path_policy" where
  "covering path cfg = filter (\<lambda>e. key_matches path (norm_key (fst e))) cfg"

fun longest_entry :: "path_policy \<Rightarrow> (string \<times> path_role) option" where
  "longest_entry [] = None"
| "longest_entry (e # es) =
     (case longest_entry es of
        None \<Rightarrow> Some e
      | Some f \<Rightarrow> if length (norm_key (fst f)) \<le> length (norm_key (fst e)) then Some e else Some f)"

definition role_spec :: "string \<Rightarrow> path_policy \<Rightarrow> path_role" where
  "role_spec path cfg =
     (if path = CONFIG_PATH then SystemRole
      else (case longest_entry (covering path cfg) of Some e \<Rightarrow> snd e | None \<Rightarrow> SystemRole))"

definition better_of :: "path_role \<times> nat option \<Rightarrow> (string \<times> path_role) option \<Rightarrow> path_role \<times> nat option" where
  "better_of best f =
     (case f of
        None \<Rightarrow> best
      | Some e \<Rightarrow>
          if (case snd best of Some n \<Rightarrow> length (norm_key (fst e)) \<le> n | None \<Rightarrow> False) then best
          else (snd e, Some (length (norm_key (fst e)))))"

lemma role_fold: "foldl (role_step path) best cfg = better_of best (longest_entry (covering path cfg))"
proof (induction cfg arbitrary: best)
  case Nil
  then show ?case by (simp add: better_of_def covering_def)
next
  case (Cons e cfg)
  have "foldl (role_step path) best (e # cfg) = better_of (role_step path best e) (longest_entry (covering path cfg))"
    using Cons by simp
  also have "\<dots> = better_of best (longest_entry (covering path (e # cfg)))"
    by (auto simp: better_of_def role_step_def covering_def Let_def split: option.splits)
  finally show ?case .
qed

lemma roleOf_longest_prefix_rule: "roleOf path cfg = role_spec path cfg"
  by (simp add: roleOf_def role_spec_def role_fold better_of_def split: option.split)


text \<open>The entry chosen covers the path, no covering entry is longer, and it is in the policy.\<close>

lemma longest_entry_None: "longest_entry es = None \<longleftrightarrow> es = []"
  by (cases es) (auto split: option.split)

lemma longest_entry_max:
  "longest_entry es = Some e \<Longrightarrow>
     e \<in> set es \<and> (\<forall>f \<in> set es. length (norm_key (fst f)) \<le> length (norm_key (fst e)))"
proof (induction es arbitrary: e)
  case Nil
  then show ?case by simp
next
  case (Cons g es)
  show ?case
  proof (cases "longest_entry es")
    case None
    then have "es = []" by (simp add: longest_entry_None)
    with Cons.prems show ?thesis by simp
  next
    case (Some h)
    note h = Cons.IH [OF Some]
    show ?thesis
    proof (cases "length (norm_key (fst h)) \<le> length (norm_key (fst g))")
      case True
      with Cons.prems Some have "e = g" by simp
      with h True show ?thesis by (auto intro: order_trans)
    next
      case False
      with Cons.prems Some have "e = h" by simp
      with h False show ?thesis by simp
    qed
  qed
qed


section \<open>Where a move lands\<close>

text \<open>
  What a move is allowed to target: never an empty path; a page lands on a \<open>.md\<close> file; a folder
  never lands inside itself; and with neither argument the move is refused.
\<close>

theorem resolveMoveTarget_safe:
  "case resolveMoveTarget path new_path new_name kind of
     Inl e \<Rightarrow> (e = MoveArgsHint \<longleftrightarrow> given new_path = [] \<and> given new_name = [])
   | Inr target \<Rightarrow>
       target \<noteq> [] \<and> (given new_path \<noteq> [] \<or> given new_name \<noteq> [])
       \<and> (kind \<noteq> PageKind \<or> ends_with target ''.md'')
       \<and> (kind \<noteq> FolderKind \<or> \<not> starts_with target (path @ [SLASH]))"
proof -
  have "\<exists>t. resolveMoveTarget path new_path new_name kind =
     (if given new_path = [] \<and> given new_name = [] then Inl MoveArgsHint
      else if t = [] then Inl (if kind = FolderKind then EmptyFolderPath else EmptyPath)
      else if kind = PageKind \<and> \<not> ends_with t ''.md'' then Inl TargetNotMd
      else if kind = FolderKind \<and> starts_with t (path @ [SLASH]) then Inl (IntoItself path)
      else Inr t)"
    unfolding resolveMoveTarget_def Let_def by (rule exI) (rule refl)
  then obtain t where t: "resolveMoveTarget path new_path new_name kind =
     (if given new_path = [] \<and> given new_name = [] then Inl MoveArgsHint
      else if t = [] then Inl (if kind = FolderKind then EmptyFolderPath else EmptyPath)
      else if kind = PageKind \<and> \<not> ends_with t ''.md'' then Inl TargetNotMd
      else if kind = FolderKind \<and> starts_with t (path @ [SLASH]) then Inl (IntoItself path)
      else Inr t)" ..
  show ?thesis unfolding t by simp
qed

text \<open>
  A link is reported broken only when it names a page the brain could hold and does not:
  a \<open>.md\<close> path the policy calls content, resolved inside the repository, that is not known.
\<close>

theorem broken_link_exact:
  "classifyMdLink sourcePath raw cfg isKnownPage = BrokenLink t \<longleftrightarrow>
     \<not> isExternalHref raw \<and> t = resolveRelative sourcePath raw \<and> ends_with t ''.md''
     \<and> \<not> isKnownPage t \<and> role_spec t cfg = ContentRole"
proof -
  have "\<not> ends_with [] ''.md''" by (simp add: ends_with_iff)
  then show ?thesis
    by (auto simp: classifyMdLink_def Let_def isSourcePath_def isContentPath_def roleOf_longest_prefix_rule)
qed

section \<open>Where the code and its comments part\<close>

text \<open>A file whose extension is the name of an inherited property counts as an attachment.\<close>

lemma inherited_extension_is_media:
  "mediaTypeOf ''wiki/site.constructor'' = Inherited ''constructor'' \<and> isMediaPath ''wiki/site.constructor''"
  by code_simp

text \<open>The slash is stripped after the white space, so white space behind it stays.\<close>

lemma norm_keeps_inner_space: "normPagePath ''/ wiki/a.md'' = '' wiki/a.md''"
  by code_simp

end
