(* ===== verification/Media.thy ===== *)
theory Media
  imports PathPolicy JsNumber
begin

text \<open>
  Attachments (\<open>src/lib/media.ts\<close>): what an upload must satisfy, where it lands, and the guard on
  attachments fetched from a URL.  A byte is a character of the binary string the code builds.
  The URL parser, the resolution of a redirect, percent-decoding and the network are parameters.
\<close>

section \<open>Uploads\<close>

definition MAX_ATTACHMENT_BYTES :: int where
  "MAX_ATTACHMENT_BYTES = 5 * 1024 * 1024"

definition no_breaks :: "string \<Rightarrow> string" where
  "no_breaks s = filter (\<lambda>c. c \<noteq> CR \<and> c \<noteq> NL) s"

definition base64Bytes :: "string \<Rightarrow> int" where
  "base64Bytes b64 =
     (let clean = no_breaks b64;
          padding = (if ends_with clean ''=='' then 2 else if ends_with clean ''='' then 1 else 0)
      in if clean = [] then 0 else (int (length clean) * 3) div 4 - padding)"

definition is_b64_char :: "char \<Rightarrow> bool" where
  "is_b64_char c \<longleftrightarrow> is_alnum c \<or> c = CHR ''+'' \<or> c = SLASH"

definition isValidBase64 :: "string \<Rightarrow> bool" where
  "isValidBase64 b64 \<longleftrightarrow>
     (let clean = no_breaks b64 in
      clean \<noteq> [] \<and> length clean mod 4 = 0 \<and> takeWhile is_b64_char clean \<noteq> []
      \<and> dropWhile is_b64_char clean \<in> {[], ''='', ''==''})"

datatype attachment_problem =
    Unsupported string
  | TypeMismatch string media_lookup string
  | NotBase64
  | EmptyAttachment
  | OverLimit int

definition validateAttachment :: "string \<Rightarrow> string \<Rightarrow> string \<Rightarrow> attachment_problem option" where
  "validateAttachment path mimeType data =
     (let declared = mediaTypeOf path; bytes = base64Bytes data in
      if declared = NoMedia then Some (Unsupported path)
      else if declared \<noteq> Mime mimeType then Some (TypeMismatch path declared mimeType)
      else if \<not> isValidBase64 data then Some NotBase64
      else if bytes = 0 then Some EmptyAttachment
      else if MAX_ATTACHMENT_BYTES < bytes then Some (OverLimit bytes)
      else None)"

definition attachmentSlug :: "string \<Rightarrow> string" where
  "attachmentSlug filename =
     (let trimmed = trim filename; ext = extensionOf trimmed;
          base = (if ext \<noteq> [] then take (length trimmed - length ext - 1) trimmed else trimmed);
          cut = slice 0 80 (strip_dashes (dash_runs (lower base)));
          slug = (if cut \<noteq> [] then cut else ''attachment'')
      in if ext \<noteq> [] then slug @ ''.'' @ ext else slug)"

definition ASSETS_DIR :: string where
  "ASSETS_DIR = ''assets''"

definition dir_of :: "string \<Rightarrow> string" where
  "dir_of path = (case last_index_of path SLASH of Some i \<Rightarrow> take i path | None \<Rightarrow> [])"

definition defaultAttachmentPath :: "string \<Rightarrow> string \<Rightarrow> string" where
  "defaultAttachmentPath pagePath filename =
     (let dir = dir_of pagePath; name = attachmentSlug filename in
      if dir \<noteq> [] then dir @ [SLASH] @ ASSETS_DIR @ [SLASH] @ name else ASSETS_DIR @ [SLASH] @ name)"

definition MAX_ATTACHMENT_VARIANTS :: nat where
  "MAX_ATTACHMENT_VARIANTS = 50"

text \<open>The name split into folder, stem and extension, and its numbered variants.\<close>

definition variant_parts :: "string \<Rightarrow> string \<times> string \<times> string" where
  "variant_parts target =
     (let cut = (case last_index_of target SLASH of Some i \<Rightarrow> i + 1 | None \<Rightarrow> 0);
          dir = take cut target; name = drop cut target in
      case last_index_of name (CHR ''.'') of
        Some (Suc i) \<Rightarrow> (dir, take (Suc i) name, drop (Suc i) name)
      | _ \<Rightarrow> (dir, name, []))"

definition variant :: "string \<Rightarrow> nat \<Rightarrow> string" where
  "variant target n = (case variant_parts target of (dir, stem, ext) \<Rightarrow> dir @ stem @ ''-'' @ show_nat n @ ext)"

definition uniqueAttachmentPath :: "string \<Rightarrow> (string \<Rightarrow> bool) \<Rightarrow> string" where
  "uniqueAttachmentPath target taken =
     (if \<not> taken target then target
      else (case find (\<lambda>n. \<not> taken (variant target n)) [2..<MAX_ATTACHMENT_VARIANTS + 1] of
              Some n \<Rightarrow> variant target n
            | None \<Rightarrow> []))"

definition isEmbeddable :: "string \<Rightarrow> bool" where
  "isEmbeddable path = (case mediaTypeOf path of Mime m \<Rightarrow> starts_with m ''image/'' | _ \<Rightarrow> False)"

definition attachmentMarkdown :: "string \<Rightarrow> string \<Rightarrow> string \<Rightarrow> string" where
  "attachmentMarkdown pagePath assetPath alt =
     (let label = filter (\<lambda>c. c \<noteq> CHR ''['' \<and> c \<noteq> CHR '']'') alt; href = relativeHref pagePath assetPath;
          link = ''['' @ label @ '']('' @ href @ '')''
      in if isEmbeddable assetPath then ''!'' @ link else link)"

section \<open>Addresses that are never fetched\<close>

definition BLOCKED_HOSTS :: "string list" where
  "BLOCKED_HOSTS = [''localhost'', ''metadata'', ''metadata.google.internal'', ''instance-data'']"

definition BLOCKED_SUFFIXES :: "string list" where
  "BLOCKED_SUFFIXES = [''.local'', ''.localhost'', ''.internal'', ''.home.arpa'']"

text \<open>\<open>Number(p)\<close> where it is an integer from 0 to 255.\<close>

definition octet :: "string \<Rightarrow> int option" where
  "octet p =
     (case finite_number p of
        Some v \<Rightarrow> if of_int \<lfloor>v\<rfloor> = v \<and> 0 \<le> \<lfloor>v\<rfloor> \<and> \<lfloor>v\<rfloor> \<le> 255 then Some \<lfloor>v\<rfloor> else None
      | None \<Rightarrow> None)"

definition private_range :: "int \<Rightarrow> int \<Rightarrow> bool" where
  "private_range a b \<longleftrightarrow>
     a = 0 \<or> a = 10 \<or> a = 127 \<or> (a = 169 \<and> b = 254) \<or> (a = 172 \<and> 16 \<le> b \<and> b \<le> 31)
     \<or> (a = 192 \<and> b = 168) \<or> (a = 192 \<and> b = 0) \<or> (a = 100 \<and> 64 \<le> b \<and> b \<le> 127)
     \<or> (a = 198 \<and> (b = 18 \<or> b = 19)) \<or> 224 \<le> a"

definition isPrivateIPv4 :: "string \<Rightarrow> bool" where
  "isPrivateIPv4 host =
     (case map octet (split_on (CHR ''.'') host) of
        [Some a, Some b, Some c, Some d] \<Rightarrow> private_range a b
      | _ \<Rightarrow> False)"

text \<open>\<open>/(\d+\.\d+\.\d+\.\d+)$/\<close>: where the leftmost dotted quad that ends the text starts.\<close>

definition is_dotted_quad :: "string \<Rightarrow> bool" where
  "is_dotted_quad s =
     (let ps = split_on (CHR ''.'') s in length ps = 4 \<and> list_all (\<lambda>p. p \<noteq> [] \<and> list_all is_digit p) ps)"

fun quad_start :: "string \<Rightarrow> nat option" where
  "quad_start [] = None"
| "quad_start (c # cs) = (if is_dotted_quad (c # cs) then Some 0 else map_option Suc (quad_start cs))"

definition unbracket :: "string \<Rightarrow> string" where
  "unbracket s =
     (let t = (if starts_with s ''['' then tl s else s) in if ends_with t '']'' then butlast t else t)"

definition undot :: "string \<Rightarrow> string option" where
  "undot text =
     (case quad_start text of
        None \<Rightarrow> Some text
      | Some i \<Rightarrow>
          (case map octet (split_on (CHR ''.'') (drop i text)) of
             [Some a, Some b, Some c, Some d] \<Rightarrow>
               Some (take i text @ show_base 16 (nat (a * 256 + b)) @ '':'' @ show_base 16 (nat (c * 256 + d)))
           | _ \<Rightarrow> None))"

definition to_groups :: "string \<Rightarrow> int option list" where
  "to_groups s = (if s = [] then [] else map parse_int_16 (split_on (CHR '':'') s))"

definition group_value :: "int option \<Rightarrow> int option" where
  "group_value g = (case g of Some n \<Rightarrow> if 0 \<le> n \<and> n \<le> 65535 then Some n else None | None \<Rightarrow> None)"

definition ipv6_text :: "string \<Rightarrow> int list option" where
  "ipv6_text text =
     (let halves = split_by ''::'' text;
          head = to_groups (hd halves);
          tail = (if length halves = 2 then to_groups (halves ! 1) else []);
          groups = (if length halves = 2
                    then head @ replicate (8 - length head - length tail) (Some 0) @ tail else head) in
      if 2 < length halves then None
      else if length groups \<noteq> 8 then None
      else if None \<in> set (map group_value groups) then None
      else Some (map the groups))"

definition ipv6Groups :: "string \<Rightarrow> int list option" where
  "ipv6Groups raw =
     (let text = lower (unbracket raw) in
      if CHR '':'' \<notin> set text then None else Option.bind (undot text) ipv6_text)"

definition isPrivateIPv6 :: "string \<Rightarrow> bool" where
  "isPrivateIPv6 host =
     (case ipv6Groups host of
        None \<Rightarrow> False
      | Some g \<Rightarrow>
          if list_all (\<lambda>x. x = 0) g then True
          else if list_all (\<lambda>x. x = 0) (take 7 g) \<and> g ! 7 = 1 then True
          else if list_all (\<lambda>x. x = 0) (take 5 g) \<and> g ! 5 = 65535
          then isPrivateIPv4 (join_with ''.'' (map show_int [g ! 6 div 256, g ! 6 mod 256, g ! 7 div 256, g ! 7 mod 256]))
          else and (g ! 0) 0xfe00 = 0xfc00 \<or> and (g ! 0) 0xffc0 = 0xfe80)"

record url =
  u_protocol :: string
  u_username :: string
  u_password :: string
  u_hostname :: string
  u_pathname :: string

datatype url_problem =
    InvalidUrl string
  | NotHttps string string
  | CarriesCredentials
  | LocalAddress string
  | PrivateAddress string

definition fetchUrlProblem :: "(string \<Rightarrow> url option) \<Rightarrow> string \<Rightarrow> url_problem option" where
  "fetchUrlProblem parse_url raw =
     (case parse_url (trim raw) of
        None \<Rightarrow> Some (InvalidUrl raw)
      | Some u \<Rightarrow>
          (let host = lower (u_hostname u) in
           if u_protocol u \<noteq> ''https:'' then Some (NotHttps raw (u_protocol u))
           else if u_username u \<noteq> [] \<or> u_password u \<noteq> [] then Some CarriesCredentials
           else if host \<in> set BLOCKED_HOSTS \<or> list_ex (ends_with host) BLOCKED_SUFFIXES then Some (LocalAddress host)
           else if isPrivateIPv4 host \<or> isPrivateIPv6 host then Some (PrivateAddress host)
           else None))"

section \<open>Fetching an attachment\<close>

text \<open>\<open>EXTENSION_FOR_TYPE\<close>: the types in the order of the registry, the first extension of each.\<close>

definition EXTENSION_FOR_TYPE :: "string obj" where
  "EXTENSION_FOR_TYPE =
     foldl (\<lambda>out (ext, type). if obj_in type out then out else obj_set type ext out) [] MEDIA_TYPES"

definition extensionForType :: "string \<Rightarrow> string option" where
  "extensionForType mimeType =
     (case map_of EXTENSION_FOR_TYPE mimeType of
        Some ext \<Rightarrow> Some ext
      | None \<Rightarrow> if mimeType = ''__proto__'' then Some ''[object Object]''
                else if mimeType \<in> set object_prototype_keys then Some ''function'' else None)"

definition normalizeContentType :: "string option \<Rightarrow> string" where
  "normalizeContentType header =
     (let bare = lower (trim (hd (split_on (CHR '';'') (case header of Some h \<Rightarrow> h | None \<Rightarrow> [])))) in
      if bare = ''image/jpg'' then ''image/jpeg'' else bare)"

definition filenameFromUrl :: "(string \<Rightarrow> url option) \<Rightarrow> (string \<Rightarrow> string option) \<Rightarrow> string \<Rightarrow> string" where
  "filenameFromUrl parse_url decode raw =
     (case parse_url raw of
        None \<Rightarrow> []
      | Some u \<Rightarrow>
          (let segs = filter (\<lambda>s. s \<noteq> []) (split_on SLASH (u_pathname u)); leaf = (if segs = [] then [] else last segs)
           in trim (case decode leaf of Some d \<Rightarrow> d | None \<Rightarrow> leaf)))"

text \<open>\<open>btoa\<close>, standard base64 of a binary string.\<close>

definition b64_digit :: "nat \<Rightarrow> char" where
  "b64_digit n = ''ABCDEFGHIJKLMNOPQRSTUVWXYZabcdefghijklmnopqrstuvwxyz0123456789+/'' ! n"

fun base64FromBytes :: "string \<Rightarrow> string" where
  "base64FromBytes [] = []"
| "base64FromBytes [a] = [b64_digit (code a div 4), b64_digit (code a mod 4 * 16), CHR ''='', CHR ''='']"
| "base64FromBytes [a, b] =
     [b64_digit (code a div 4), b64_digit (code a mod 4 * 16 + code b div 16), b64_digit (code b mod 16 * 4), CHR ''='']"
| "base64FromBytes (a # b # c # r) =
     b64_digit (code a div 4) # b64_digit (code a mod 4 * 16 + code b div 16)
     # b64_digit (code b mod 16 * 4 + code c div 64) # b64_digit (code c mod 64) # base64FromBytes r"

text \<open>
  A response: its status, the headers the code reads, the chunks its body stream delivers, and whether the
  stream then throws (the connection drops, the 15 seconds of the abort signal pass) instead of ending.
\<close>

record response =
  r_status :: nat
  r_location :: "string option"
  r_length :: "string option"
  r_type :: "string option"
  r_chunks :: "string list"
  r_breaks :: bool

datatype fetched = Unreachable | Answered response

text \<open>The answers that are no attachment.  \<open>BodyThrew\<close> is no error value of the code: its promise rejects.\<close>

datatype fetch_problem =
    Refused url_problem
  | CouldNotFetch string
  | RedirectNowhere string
  | RedirectNotUrl string
  | TooManyRedirects string
  | BadStatus string nat
  | DeclaredTooBig string
  | BodyTooBig
  | BodyThrew
  | EmptyFile string
  | NoUsableType string string
  | ServedMismatch string string media_lookup

definition MAX_REDIRECTS :: nat where
  "MAX_REDIRECTS = 3"

text \<open>
  The chunks of a stream up to the limit: reading stops with the chunk that passes it, and a stream that
  throws before that takes the whole call with it.
\<close>

datatype body_read = BodyRead string | OverLimit | StreamThrew

fun read_chunks :: "int \<Rightarrow> int \<Rightarrow> string list \<Rightarrow> bool \<Rightarrow> string \<Rightarrow> body_read" where
  "read_chunks limit sofar [] breaks out = (if breaks then StreamThrew else BodyRead out)"
| "read_chunks limit sofar (c # cs) breaks out =
     (let after = sofar + int (length c) in
      if limit < after then OverLimit else read_chunks limit after cs breaks (out @ c))"

definition readCapped :: "response \<Rightarrow> int \<Rightarrow> body_read" where
  "readCapped res limit = read_chunks limit 0 (r_chunks res) (r_breaks res) []"

text \<open>
  The redirect loop: the answer it ends with, and every URL handed to the network, in order.  The
  network may answer the same URL differently at another hop.
\<close>

fun follow ::
  "(string \<Rightarrow> url option) \<Rightarrow> (string \<Rightarrow> string \<Rightarrow> string option) \<Rightarrow> (nat \<Rightarrow> string \<Rightarrow> fetched)
     \<Rightarrow> string \<Rightarrow> nat list \<Rightarrow> string \<Rightarrow> (fetch_problem + string \<times> response) \<times> string list" where
  "follow parse_url join_url net raw [] current = (Inl (TooManyRedirects raw), [])"
| "follow parse_url join_url net raw (hop # hops) current =
     (case fetchUrlProblem parse_url current of
        Some p \<Rightarrow> (Inl (Refused p), [])
      | None \<Rightarrow>
          (case net hop current of
             Unreachable \<Rightarrow> (Inl (CouldNotFetch current), [current])
           | Answered res \<Rightarrow>
               if 300 \<le> r_status res \<and> r_status res < 400 then
                 (case r_location res of
                    None \<Rightarrow> (Inl (RedirectNowhere current), [current])
                  | Some loc \<Rightarrow>
                      if loc = [] then (Inl (RedirectNowhere current), [current])
                      else (case join_url loc current of
                              None \<Rightarrow> (Inl (RedirectNotUrl current), [current])
                            | Some next \<Rightarrow>
                                (let r = follow parse_url join_url net raw hops next in (fst r, current # snd r))))
               else (Inr (current, res), [current])))"

record attachment =
  fa_data :: string
  fa_bytes :: int
  fa_mime :: media_lookup
  fa_filename :: string

definition declared_too_big :: "response \<Rightarrow> bool" where
  "declared_too_big res =
     (case finite_number (case r_length res of Some l \<Rightarrow> l | None \<Rightarrow> ''0'') of
        Some v \<Rightarrow> of_int MAX_ATTACHMENT_BYTES < v | None \<Rightarrow> False)"

text \<open>From a final response to an attachment: the size, then the agreement of name and type.\<close>

definition name_type ::
  "string \<Rightarrow> string \<Rightarrow> string \<Rightarrow> fetch_problem + string \<times> media_lookup" where
  "name_type raw served filename =
     (let mimeType = mediaTypeOf filename in
      if mimeType = NoMedia then
        (case (if served \<noteq> [] then extensionForType served else None) of
           None \<Rightarrow> Inl (NoUsableType raw served)
         | Some ext \<Rightarrow> Inr ((if filename \<noteq> [] then filename else ''attachment'') @ ''.'' @ ext, Mime served))
      else if served \<noteq> [] \<and> mimeType \<noteq> Mime served then Inl (ServedMismatch raw served mimeType)
      else Inr (filename, mimeType))"

definition receive ::
  "(string \<Rightarrow> url option) \<Rightarrow> (string \<Rightarrow> string option) \<Rightarrow> string \<Rightarrow> string option \<Rightarrow> string \<Rightarrow> response
     \<Rightarrow> fetch_problem + attachment" where
  "receive parse_url decode raw filename current res =
     (if \<not> (200 \<le> r_status res \<and> r_status res < 300) then Inl (BadStatus raw (r_status res))
      else if declared_too_big res then Inl (DeclaredTooBig raw)
      else (case readCapped res MAX_ATTACHMENT_BYTES of
              OverLimit \<Rightarrow> Inl BodyTooBig
            | StreamThrew \<Rightarrow> Inl BodyThrew
            | BodyRead body \<Rightarrow>
                (let wanted = given filename;
                     name = (if wanted \<noteq> [] then wanted else filenameFromUrl parse_url decode current) in
                 if body = [] then Inl (EmptyFile raw)
                 else (case name_type raw (normalizeContentType (r_type res)) name of
                         Inl p \<Rightarrow> Inl p
                       | Inr (fname, mime) \<Rightarrow>
                           Inr \<lparr>fa_data = base64FromBytes body, fa_bytes = int (length body),
                                fa_mime = mime, fa_filename = fname\<rparr>))))"

definition fetchRemoteAttachment ::
  "(string \<Rightarrow> url option) \<Rightarrow> (string \<Rightarrow> string \<Rightarrow> string option) \<Rightarrow> (string \<Rightarrow> string option)
     \<Rightarrow> (nat \<Rightarrow> string \<Rightarrow> fetched) \<Rightarrow> string \<Rightarrow> string option
     \<Rightarrow> (fetch_problem + attachment) \<times> string list" where
  "fetchRemoteAttachment parse_url join_url decode net raw filename =
     (case follow parse_url join_url net raw [0..<MAX_REDIRECTS + 1] (trim raw) of
        (Inl p, urls) \<Rightarrow> (Inl p, urls)
      | (Inr (current, res), urls) \<Rightarrow> (receive parse_url decode raw filename current res, urls))"

section \<open>What the guard lets through\<close>

lemma follow_guarded:
  "u \<in> set (snd (follow parse_url join_url net raw hops current)) \<Longrightarrow> fetchUrlProblem parse_url u = None"
proof (induction hops arbitrary: current)
  case Nil
  then show ?case by simp
next
  case (Cons hop hops)
  then show ?case
    by (auto simp: Let_def split: option.splits fetched.splits if_splits)
qed

lemma follow_length: "length (snd (follow parse_url join_url net raw hops current)) \<le> length hops"
  by (induction hops arbitrary: current) (auto simp: Let_def split: option.splits fetched.splits)

lemma follow_answer:
  "follow parse_url join_url net raw hops current = (Inr (c, res), urls) \<Longrightarrow>
     urls \<noteq> [] \<and> c = last urls \<and> length urls \<le> length hops \<and> net (hops ! (length urls - 1)) c = Answered res
     \<and> \<not> (300 \<le> r_status res \<and> r_status res < 400)"
proof (induction hops arbitrary: current urls)
  case Nil
  then show ?case by simp
next
  case (Cons hop hops)
  from Cons.prems have ok: "fetchUrlProblem parse_url current = None" by (simp split: option.splits)
  with Cons.prems obtain r where r: "net hop current = Answered r" by (cases "net hop current") auto
  show ?case
  proof (cases "300 \<le> r_status r \<and> r_status r < 400")
    case False
    with ok r Cons.prems show ?thesis by auto
  next
    case True
    with ok r Cons.prems obtain loc where loc: "r_location r = Some loc" "loc \<noteq> []"
      by (auto split: option.splits if_splits)
    with ok r True Cons.prems obtain nxt where "join_url loc current = Some nxt"
      by (cases "join_url loc current") auto
    with ok r True loc Cons.prems have
      "fst (follow parse_url join_url net raw hops nxt) = Inr (c, res)"
      "urls = current # snd (follow parse_url join_url net raw hops nxt)" by (simp_all add: Let_def)
    then obtain us where us: "follow parse_url join_url net raw hops nxt = (Inr (c, res), us)" "urls = current # us"
      by (metis prod.collapse)
    from Cons.IH [OF us(1)] us(2) show ?thesis by (cases us) auto
  qed
qed

lemma read_chunks_whole:
  "read_chunks limit sofar cs breaks out = BodyRead body \<Longrightarrow> sofar = int (length out) \<Longrightarrow> sofar \<le> limit \<Longrightarrow>
     int (length body) \<le> limit \<and> body = out @ concat cs \<and> \<not> breaks"
  by (induction limit sofar cs breaks out rule: read_chunks.induct) (auto simp: Let_def split: if_splits)

subsection \<open>Base64\<close>

lemma b64_digit_char: "n < 64 \<Longrightarrow> is_b64_char (b64_digit n)"
proof -
  let ?abc = "''ABCDEFGHIJKLMNOPQRSTUVWXYZabcdefghijklmnopqrstuvwxyz0123456789+/''"
  have "list_all is_b64_char ?abc" by code_simp
  moreover assume "n < 64"
  then have "?abc ! n \<in> set ?abc" by (intro nth_mem) simp
  ultimately show ?thesis unfolding b64_digit_def list_all_iff by blast
qed

lemma code_bounds: "code c div 4 < 64" "code c mod 4 * 16 < 64" "code c div 16 < 16"
    "code c mod 16 * 4 < 64" "code c div 64 < 4" "code c mod 64 < 64"
proof -
  have "code c < 256" by simp
  then show "code c div 4 < 64" "code c div 16 < 16" "code c div 64 < 4" by (simp_all add: less_mult_imp_div_less)
  have "code c mod 4 < 4" "code c mod 16 < 16" by simp_all
  then show "code c mod 4 * 16 < 64" "code c mod 16 * 4 < 64" by linarith+
qed simp

lemma b64_sums: "code a mod 4 * 16 + code b div 16 < 64" "code a mod 16 * 4 + code b div 64 < 64"
proof -
  have "code a mod 4 < 4" "code a mod 16 < 16" by simp_all
  with code_bounds(3,5) [of b] show "code a mod 4 * 16 + code b div 16 < 64" "code a mod 16 * 4 + code b div 64 < 64"
    by linarith+
qed

lemma base64_shape:
  "\<exists>body pad. base64FromBytes s = body @ pad \<and> list_all is_b64_char body \<and> pad \<in> {[], ''='', ''==''}
     \<and> (s \<noteq> [] \<longrightarrow> body \<noteq> []) \<and> length (body @ pad) = 4 * ((length s + 2) div 3)
     \<and> length pad = (3 - length s mod 3) mod 3"
proof (induction s rule: base64FromBytes.induct)
  case 1
  then show ?case by simp
next
  case (2 a)
  show ?case
    by (intro exI [of _ "[b64_digit (code a div 4), b64_digit (code a mod 4 * 16)]"] exI [of _ "''==''"])
       (simp add: b64_digit_char code_bounds)
next
  case (3 a b)
  show ?case
    by (intro exI [of _ "[b64_digit (code a div 4), b64_digit (code a mod 4 * 16 + code b div 16), b64_digit (code b mod 16 * 4)]"]
              exI [of _ "''=''"])
       (simp add: b64_digit_char code_bounds b64_sums)
next
  case (4 a b c r)
  then obtain body pad where r: "base64FromBytes r = body @ pad" "list_all is_b64_char body" "pad \<in> {[], ''='', ''==''}"
    "length (body @ pad) = 4 * ((length r + 2) div 3)" "length pad = (3 - length r mod 3) mod 3" by blast
  let ?q = "[b64_digit (code a div 4), b64_digit (code a mod 4 * 16 + code b div 16),
     b64_digit (code b mod 16 * 4 + code c div 64), b64_digit (code c mod 64)]"
  have "(5 + length r) div 3 = Suc ((2 + length r) div 3)" using div_add_self1 [of 3 "2 + length r"] by simp
  then have quads: "4 * ((length (a # b # c # r) + 2) div 3) = 4 + 4 * ((length r + 2) div 3)" by simp
  have "list_all is_b64_char ?q" by (simp add: b64_digit_char code_bounds b64_sums)
  moreover have "length ((?q @ body) @ pad) = 4 * ((length (a # b # c # r) + 2) div 3)" unfolding quads using r(4) by simp
  moreover have "length (a # b # c # r) = length r + 3" by simp
  then have "length pad = (3 - length (a # b # c # r) mod 3) mod 3"
    using r(5) by (simp only: mod_add_self2)
  moreover have "base64FromBytes (a # b # c # r) = (?q @ body) @ pad" using r(1) by simp
  moreover have "list_all is_b64_char (?q @ body)" using calculation(1) r(2) unfolding list_all_append by (rule conjI)
  ultimately show ?case using r(3) by blast
qed

lemma no_breaks_b64: "list_all is_b64_char body \<Longrightarrow> pad \<in> {[], ''='', ''==''} \<Longrightarrow> no_breaks (body @ pad) = body @ pad"
proof -
  assume "list_all is_b64_char body" "pad \<in> {[], ''='', ''==''}"
  moreover have "\<not> is_b64_char CR" "\<not> is_b64_char NL" by code_simp+
  ultimately show ?thesis by (auto simp: no_breaks_def list_all_iff intro!: filter_True)
qed

lemma not_b64_pad: "\<not> is_b64_char (CHR ''='')"
  by code_simp

lemma b64_ends:
  "list_all is_b64_char body \<Longrightarrow> body \<noteq> [] \<Longrightarrow> pad \<in> {[], ''='', ''==''} \<Longrightarrow>
     ends_with (body @ pad) ''=='' = (length pad = 2) \<and> ends_with (body @ pad) ''='' = (1 \<le> length pad)
     \<and> takeWhile is_b64_char (body @ pad) = body \<and> dropWhile is_b64_char (body @ pad) = pad"
  using not_b64_pad
  by (cases body rule: rev_cases) (auto simp: ends_with_def takeWhile_whole takeWhile_append dropWhile_append list_all_iff)

lemma base64_bytes:
  assumes "s \<noteq> []"
  shows "isValidBase64 (base64FromBytes s) \<and> base64Bytes (base64FromBytes s) = int (length s)"
proof -
  obtain body pad where b: "base64FromBytes s = body @ pad" "list_all is_b64_char body" "pad \<in> {[], ''='', ''==''}"
    "body \<noteq> []" "length (body @ pad) = 4 * ((length s + 2) div 3)" "length pad = (3 - length s mod 3) mod 3"
    using base64_shape [of s] assms by blast
  note clean = no_breaks_b64 [OF b(2,3)] and ends = b64_ends [OF b(2,4,3)]
  have "length (body @ pad) mod 4 = 0" unfolding b(5) by simp
  then have "isValidBase64 (body @ pad)"
    unfolding isValidBase64_def Let_def clean using b(3,4) ends by (metis append_is_Nil_conv)
  moreover have "int (length (body @ pad)) * 3 div 4 - int (length pad) = int (length s)"
  proof -
    obtain q r where qr: "length s = 3 * q + r" "r < 3" by (metis mod_less_divisor mult_div_mod_eq zero_less_numeral)
    then consider "r = 0" | "r = 1" | "r = 2" by linarith
    then show ?thesis
      by cases (use qr b(5,6) in \<open>simp_all add: mod_Suc\<close>)
  qed
  then have "base64Bytes (body @ pad) = int (length s)"
    using b(3,4) clean ends by (auto simp: base64Bytes_def Let_def)
  ultimately show ?thesis using b(1) by simp
qed

definition whole_body :: "response \<Rightarrow> string \<Rightarrow> bool" where
  "whole_body res body \<longleftrightarrow> body = concat (r_chunks res) \<and> \<not> r_breaks res \<and> 200 \<le> r_status res \<and> r_status res < 300
     \<and> body \<noteq> [] \<and> int (length body) \<le> MAX_ATTACHMENT_BYTES"

lemma receive_sound:
  assumes "receive parse_url decode raw filename current res = Inr a"
  shows "whole_body res (concat (r_chunks res)) \<and> fa_data a = base64FromBytes (concat (r_chunks res))
           \<and> fa_bytes a = int (length (concat (r_chunks res)))"
proof -
  from assms obtain body where body: "readCapped res MAX_ATTACHMENT_BYTES = BodyRead body" "body \<noteq> []"
    and ok: "200 \<le> r_status res \<and> r_status res < 300"
    and a: "fa_data a = base64FromBytes body" "fa_bytes a = int (length body)"
    by (auto simp: receive_def Let_def split: if_splits option.splits sum.splits body_read.splits)
  have "int (length body) \<le> MAX_ATTACHMENT_BYTES \<and> body = [] @ concat (r_chunks res) \<and> \<not> r_breaks res"
    by (rule read_chunks_whole [OF body(1) [unfolded readCapped_def]]) (simp_all add: MAX_ATTACHMENT_BYTES_def)
  with body(2) ok a show ?thesis by (auto simp: whole_body_def)
qed

lemma snd_fetch:
  "snd (fetchRemoteAttachment parse_url join_url decode net raw filename)
     = snd (follow parse_url join_url net raw [0..<MAX_REDIRECTS + 1] (trim raw))"
  by (auto simp: fetchRemoteAttachment_def split: prod.split sum.split)

lemma fetched_last:
  assumes "fetchRemoteAttachment parse_url join_url decode net raw filename = (Inr a, urls)"
  shows "\<exists>res. net (length urls - 1) (last urls) = Answered res
           \<and> receive parse_url decode raw filename (last urls) res = Inr a"
proof -
  from assms obtain current res where
    run: "follow parse_url join_url net raw [0..<MAX_REDIRECTS + 1] (trim raw) = (Inr (current, res), urls)"
    and "receive parse_url decode raw filename current res = Inr a"
    by (auto simp: fetchRemoteAttachment_def split: prod.splits sum.splits)
  moreover have "[0..<MAX_REDIRECTS + 1] ! (length urls - 1) = length urls - 1"
    using follow_answer [OF run] by (cases urls) (simp_all del: upt_Suc)
  ultimately show ?thesis using follow_answer [OF run] by auto
qed

text \<open>
  C23. Every URL handed to the network passed the guard at that hop, redirects included, and there
  are at most four.  What comes back as an attachment is the whole body of the 2xx answer the last of
  them got, every chunk in its order, of a stream that ended and did not throw, not empty and within the
  limit; its base64 is what an upload must be: \<open>validateAttachment\<close> accepts it under any path whose type
  is the one declared.
\<close>

theorem fetch_guarded:
  "case fetchRemoteAttachment parse_url join_url decode net raw filename of
     (result, urls) \<Rightarrow>
       (\<forall>u \<in> set urls. fetchUrlProblem parse_url u = None) \<and> length urls \<le> 4
       \<and> (\<forall>a. result = Inr a \<longrightarrow>
            (\<exists>res. net (length urls - 1) (last urls) = Answered res
               \<and> whole_body res (concat (r_chunks res))
               \<and> fa_data a = base64FromBytes (concat (r_chunks res))
               \<and> fa_bytes a = int (length (concat (r_chunks res)))))
       \<and> (\<forall>a path m. result = Inr a \<and> mediaTypeOf path = Mime m \<longrightarrow>
            validateAttachment path m (fa_data a) = None \<and> fa_bytes a = base64Bytes (fa_data a))"
proof -
  let ?run = "fetchRemoteAttachment parse_url join_url decode net raw filename"
  have few: "length (snd ?run) \<le> 4"
    using follow_length [of parse_url join_url net raw "[0..<MAX_REDIRECTS + 1]"]
    unfolding snd_fetch by (simp add: MAX_REDIRECTS_def)
  have guard: "\<forall>u \<in> set (snd ?run). fetchUrlProblem parse_url u = None"
    unfolding snd_fetch using follow_guarded by blast
  have got: "\<exists>res. net (length (snd ?run) - 1) (last (snd ?run)) = Answered res
       \<and> whole_body res (concat (r_chunks res)) \<and> fa_data a = base64FromBytes (concat (r_chunks res))
       \<and> fa_bytes a = int (length (concat (r_chunks res)))" if "fst ?run = Inr a" for a
  proof -
    from that have "?run = (Inr a, snd ?run)" by (simp add: prod_eq_iff)
    from fetched_last [OF this] receive_sound show ?thesis by blast
  qed
  have "validateAttachment path m (fa_data a) = None \<and> fa_bytes a = base64Bytes (fa_data a)"
    if "fst ?run = Inr a" "mediaTypeOf path = Mime m" for a path m
  proof -
    from got [OF that(1)] obtain body where b: "body \<noteq> []" "int (length body) \<le> MAX_ATTACHMENT_BYTES"
      "fa_data a = base64FromBytes body" "fa_bytes a = int (length body)" unfolding whole_body_def by metis
    with base64_bytes [OF b(1)] that(2) show ?thesis by (auto simp: validateAttachment_def Let_def)
  qed
  with few guard got show ?thesis by (cases ?run) auto
qed

definition demo_url :: "string \<Rightarrow> url option" where
  "demo_url s = (if starts_with s ''https://''
     then Some \<lparr>u_protocol = ''https:'', u_username = [], u_password = [],
                u_hostname = takeWhile (\<lambda>c. c \<noteq> SLASH) (drop 8 s), u_pathname = dropWhile (\<lambda>c. c \<noteq> SLASH) (drop 8 s)\<rparr>
     else None)"

definition demo_net :: "nat \<Rightarrow> string \<Rightarrow> fetched" where
  "demo_net hop url =
     Answered (if hop = 0 then \<lparr>r_status = 302, r_location = Some ''https://b.example/logo.png'', r_length = None, r_type = None, r_chunks = [], r_breaks = False\<rparr>
               else \<lparr>r_status = 200, r_location = None, r_length = Some ''3'', r_type = Some ''image/png'', r_chunks = [''Hi'', ''!''], r_breaks = False\<rparr>)"

theorem fetch_guarded_witness:
  "fetchRemoteAttachment demo_url (\<lambda>loc _. Some loc) Some demo_net ''https://a.example/x'' None
     = (Inr \<lparr>fa_data = ''SGkh'', fa_bytes = 3, fa_mime = Mime ''image/png'', fa_filename = ''logo.png''\<rparr>,
        [''https://a.example/x'', ''https://b.example/logo.png''])
   \<and> fetchUrlProblem demo_url ''https://b.example/logo.png'' = None
   \<and> validateAttachment ''w/logo.png'' ''image/png'' ''SGkh'' = None"
proof -
  have run: "fetchRemoteAttachment demo_url (\<lambda>loc _. Some loc) Some demo_net ''https://a.example/x'' None
     = (Inr \<lparr>fa_data = ''SGkh'', fa_bytes = 3, fa_mime = Mime ''image/png'', fa_filename = ''logo.png''\<rparr>,
        [''https://a.example/x'', ''https://b.example/logo.png''])" by code_simp
  have "mediaTypeOf ''w/logo.png'' = Mime ''image/png''" by code_simp
  with fetch_guarded [of demo_url demo_net "\<lambda>loc _. Some loc" Some "''https://a.example/x''" None] run
  show ?thesis by simp
qed

section \<open>One range check for both families\<close>

lemma octet_show: "n < 256 \<Longrightarrow> octet (show_nat n) = Some (int n)"
proof -
  assume n: "n < 256"
  then have "(of_nat n :: rat) < of_nat 256" by (simp only: of_nat_less_iff)
  then have "finite_double (of_nat n)" by (simp add: finite_double_def)
  with n show ?thesis by (simp add: octet_def finite_number_def js_number_show_nat)
qed

definition dotted :: "nat list \<Rightarrow> string" where
  "dotted ns = join_with ''.'' (map show_nat ns)"

lemma dot_notin_show_nat: "CHR ''.'' \<notin> set (show_nat n)"
  using show_nat_digits [of "CHR ''.''" n] by (auto simp: is_digit_def)

lemma isPrivateIPv4_dotted:
  "a < 256 \<Longrightarrow> b < 256 \<Longrightarrow> c < 256 \<Longrightarrow> d < 256 \<Longrightarrow>
     isPrivateIPv4 (dotted [a, b, c, d]) = private_range (int a) (int b)"
proof -
  assume "a < 256" "b < 256" "c < 256" "d < 256"
  moreover have "split_on (CHR ''.'') (dotted [a, b, c, d]) = map show_nat [a, b, c, d]"
    unfolding dotted_def by (rule split_on_join) (auto simp: dot_notin_show_nat)
  ultimately show ?thesis by (simp add: isPrivateIPv4_def octet_show)
qed

abbreviation hex :: "nat \<Rightarrow> string" where
  "hex n \<equiv> show_base 16 n"

lemma hex_chars: "c \<in> set (hex n) \<Longrightarrow> c \<noteq> CHR '':'' \<and> c \<noteq> CHR ''.'' \<and> c \<noteq> CHR '']'' \<and> c \<noteq> CHR ''[''"
proof -
  assume "c \<in> set (hex n)"
  then have "is_base_digit 16 c" using show_base_digits [of 16 n] by (simp add: list_all_iff)
  then show ?thesis using base_digit_facts by blast
qed

lemma lower_digit: "n < 16 \<Longrightarrow> char_lower (''0123456789abcdefghijklmnopqrstuvwxyz'' ! n) = ''0123456789abcdefghijklmnopqrstuvwxyz'' ! n"
proof -
  have "\<forall>n \<in> {0..<16}. char_lower (''0123456789abcdefghijklmnopqrstuvwxyz'' ! n) = ''0123456789abcdefghijklmnopqrstuvwxyz'' ! n"
    by code_simp
  then show "n < 16 \<Longrightarrow> ?thesis" by simp
qed

lemma lower_hex: "lower (hex n) = hex n"
proof (induction n rule: less_induct)
  case (less n)
  show ?case
  proof (cases "n < 16")
    case True
    then show ?thesis by (subst (1 2) show_base.simps) (simp add: lower_def lower_digit)
  next
    case False
    then have "lower (hex (n div 16)) = hex (n div 16)" by (intro less) simp
    with False show ?thesis by (subst (1 2) show_base.simps) (simp add: lower_def lower_digit)
  qed
qed

lemma quad_start_no_dot: "CHR ''.'' \<notin> set s \<Longrightarrow> quad_start s = None"
  by (induction s) (simp_all add: is_dotted_quad_def split_on_notin)

text \<open>What the URL parser makes of an IPv4-mapped address.\<close>

definition mapped :: "nat \<Rightarrow> nat \<Rightarrow> string" where
  "mapped hi lo = ''[::ffff:'' @ hex hi @ '':'' @ hex lo @ '']''"

lemma no_double_colon: "index_of (''ffff:'' @ hex hi @ '':'' @ hex lo) ''::'' = None"
proof -
  have c: "CHR '':'' \<notin> set (hex hi)" "CHR '':'' \<notin> set (hex lo)" using hex_chars by blast+
  have s: "\<not> starts_with (hex n @ t) '':''" for n t
    using hex_chars [of "hd (hex n)" n] by (cases "hex n") auto
  have "index_of (hex lo) ''::'' = None"
    using index_of_skip [OF c(2), of "[]" "'':''"] by simp
  moreover have "index_of (hex hi @ '':'' @ hex lo) ''::'' = map_option (\<lambda>i. length (hex hi) + i) (index_of ('':'' @ hex lo) ''::'')"
    using index_of_skip [OF c(1)] by simp
  ultimately show ?thesis using s [of lo "[]"] s [of hi "'':'' @ hex lo"] by simp
qed

lemma mapped_groups:
  assumes "hi < 65536" "lo < 65536"
  shows "ipv6Groups (mapped hi lo) = Some [0, 0, 0, 0, 0, 65535, int hi, int lo]"
proof -
  let ?t = "''ffff:'' @ hex hi @ '':'' @ hex lo"
  have t: "unbracket (mapped hi lo) = ''::'' @ ?t"
    by (simp add: unbracket_def mapped_def ends_with_def butlast_append)
  have t: "lower (unbracket (mapped hi lo)) = ''::'' @ ?t" "quad_start (''::'' @ ?t) = None"
    unfolding t
    using hex_chars
    by - (use lower_hex [of hi] lower_hex [of lo] in \<open>simp add: lower_def, simp add: char_lower_def is_upper_def\<close>,
      intro quad_start_no_dot, auto)
  have "split_by ''::'' (''::'' @ ?t) = [[], ?t]"
  proof -
    have "split_by ''::'' ?t = [?t]" using no_double_colon [of hi lo] by (subst split_by.simps) simp
    then show ?thesis by (subst split_by.simps) simp
  qed
  moreover have "to_groups ?t = [Some 65535, Some (int hi), Some (int lo)]"
  proof -
    have c: "CHR '':'' \<notin> set (hex hi)" "CHR '':'' \<notin> set (hex lo)" using hex_chars by blast+
    have split: "split_on (CHR '':'') ?t = [''ffff'', hex hi, hex lo]"
      using split_on_append [OF c(1), of "hex lo"] split_on_notin [OF c(2)] by simp
    have "parse_int_16 ''ffff'' = parse_int_16 (hex 65535)" by (simp add: show_base.simps)
    then have ffff: "parse_int_16 ''ffff'' = Some 65535" by (simp add: parse_int_16_show)
    have "?t \<noteq> []" by simp
    then show ?thesis unfolding to_groups_def split by (simp only: if_False list.map ffff parse_int_16_show)
  qed
  moreover have "replicate 5 (Some (0 :: int)) = [Some 0, Some 0, Some 0, Some 0, Some 0]"
    by (simp add: numeral_eq_Suc)
  moreover have "to_groups [] = []" by (simp add: to_groups_def)
  ultimately have "ipv6_text (''::'' @ ?t) = Some [0, 0, 0, 0, 0, 65535, int hi, int lo]"
    using assms by (simp add: ipv6_text_def group_value_def Let_def del: append_Cons)
  with t show ?thesis by (simp add: ipv6Groups_def undot_def del: append_Cons)
qed

text \<open>
  C39. An IPv4 destination is judged alike however it is spelled: as four octets, or wrapped in an
  IPv4-mapped IPv6 address as the URL parser writes it, it is refused exactly when its first octets
  lie in a private, local or reserved range.
\<close>

theorem mapped_ipv4_judged_alike:
  assumes "a < 256" "b < 256" "c < 256" "d < 256"
  shows "isPrivateIPv6 (mapped (a * 256 + b) (c * 256 + d)) = private_range (int a) (int b)
         \<and> isPrivateIPv4 (dotted [a, b, c, d]) = private_range (int a) (int b)"
proof -
  have g: "ipv6Groups (mapped (a * 256 + b) (c * 256 + d))
      = Some [0, 0, 0, 0, 0, 65535, int (a * 256 + b), int (c * 256 + d)]"
    using assms by (intro mapped_groups) simp_all
  have "int (a * 256 + b) div 256 = int a" "int (a * 256 + b) mod 256 = int b"
    "int (c * 256 + d) div 256 = int c" "int (c * 256 + d) mod 256 = int d" using assms by simp_all
  moreover have "show_int (int n) = show_nat n" for n by (simp add: show_int_def)
  ultimately have "isPrivateIPv6 (mapped (a * 256 + b) (c * 256 + d)) = isPrivateIPv4 (dotted [a, b, c, d])"
    by (simp add: isPrivateIPv6_def g dotted_def del: of_nat_add of_nat_mult)
  with isPrivateIPv4_dotted [OF assms] show ?thesis by simp
qed

theorem mapped_ipv4_judged_alike_witness:
  "isPrivateIPv6 (mapped (127 * 256 + 0) (0 * 256 + 1)) \<and> isPrivateIPv4 (dotted [127, 0, 0, 1])
   \<and> \<not> isPrivateIPv6 (mapped (8 * 256 + 8) (8 * 256 + 8))"
  using mapped_ipv4_judged_alike [of 127 0 0 1] mapped_ipv4_judged_alike [of 8 8 8 8]
  by (simp add: private_range_def)

lemma variant_parts_split: "variant_parts target = (dir, stem, ext) \<Longrightarrow> target = dir @ stem @ ext"
proof -
  assume v: "variant_parts target = (dir, stem, ext)"
  define cut where "cut = (case last_index_of target SLASH of Some i \<Rightarrow> i + 1 | None \<Rightarrow> 0)"
  define name where "name = drop cut target"
  have "dir = take cut target \<and> stem @ ext = name"
    using v unfolding variant_parts_def Let_def cut_def [symmetric] name_def [symmetric]
    by (auto split: option.splits nat.splits)
  then show ?thesis by (simp add: name_def)
qed

lemma variant_numbers: "n \<in> set [2..<MAX_ATTACHMENT_VARIANTS + 1] \<longleftrightarrow> 2 \<le> n \<and> n \<le> 50"
  unfolding set_upt MAX_ATTACHMENT_VARIANTS_def by auto

text \<open>
  An upload never overwrites: the path answered is free, and is the one asked for or that path
  with a number from 2 to 50 before its extension; it is empty only when all of those are taken.
\<close>

theorem uniqueAttachmentPath_free:
  "let p = uniqueAttachmentPath target taken in
   (\<not> taken p \<and> (p = target \<or> (\<exists>n dir stem ext. 2 \<le> n \<and> n \<le> 50 \<and> target = dir @ stem @ ext
                                    \<and> p = dir @ stem @ ''-'' @ show_nat n @ ext)))
   \<or> (p = [] \<and> taken target \<and> (\<forall>n \<in> {2..50}. taken (variant target n)))"
proof (cases "taken target")
  case False
  then show ?thesis by (simp add: uniqueAttachmentPath_def)
next
  case True
  show ?thesis
  proof (cases "find (\<lambda>n. \<not> taken (variant target n)) [2..<MAX_ATTACHMENT_VARIANTS + 1]")
    case None
    then have "\<forall>n. n \<in> set [2..<MAX_ATTACHMENT_VARIANTS + 1] \<longrightarrow> taken (variant target n)"
      unfolding find_None_iff by blast
    then have "\<forall>n \<in> {2..50}. taken (variant target n)"
      by (meson atLeastAtMost_iff variant_numbers)
    with True None show ?thesis by (simp only: uniqueAttachmentPath_def Let_def) simp
  next
    case (Some n)
    obtain dir stem ext where parts: "variant_parts target = (dir, stem, ext)" by (cases "variant_parts target")
    have p: "uniqueAttachmentPath target taken = variant target n"
      using True Some by (simp only: uniqueAttachmentPath_def) simp
    have "\<not> taken (variant target n)" "2 \<le> n" "n \<le> 50" using find_sound [OF Some] variant_numbers by auto
    moreover have "target = dir @ stem @ ext" by (rule variant_parts_split [OF parts])
    moreover have "variant target n = dir @ stem @ ''-'' @ show_nat n @ ext" by (simp add: variant_def parts)
    ultimately show ?thesis unfolding Let_def p by blast
  qed
qed

theorem uniqueAttachmentPath_free_witness:
  "uniqueAttachmentPath ''w/logo.png'' (\<lambda>p. p = ''w/logo.png'') = ''w/logo-2.png''
   \<and> ''w/logo-2.png'' \<noteq> ''w/logo.png''"
proof -
  have run: "uniqueAttachmentPath ''w/logo.png'' (\<lambda>p. p = ''w/logo.png'') = ''w/logo-2.png''" by code_simp
  from uniqueAttachmentPath_free [of "''w/logo.png''" "\<lambda>p. p = ''w/logo.png''"] run
  have "''w/logo-2.png'' \<noteq> ''w/logo.png''" unfolding Let_def by auto
  with run show ?thesis by blast
qed

text \<open>A trailing dot keeps a local name out of the block lists.\<close>

lemma trailing_dot_passes:
  "fetchUrlProblem (\<lambda>_. Some \<lparr>u_protocol = ''https:'', u_username = [], u_password = [],
      u_hostname = ''localhost.'', u_pathname = ''/''\<rparr>) ''https://localhost./'' = None"
  by code_simp

end
