(* ===== verification/ViewDirectives.thy ===== *)
theory ViewDirectives
  imports WikiLinks JsNumber
begin

text \<open>
  Derived views, the pure layer (\<open>src/lib/view-directives.ts\<close>): reading a directive, comparing a
  page's fields with its conditions, and cutting a page into text, views and cached snapshots.
  Calendar dates are the proleptic Gregorian days of ECMAScript's \<open>Date\<close>.
\<close>

section \<open>Dates\<close>

text \<open>The day number of a civil date, 1970-01-01 being day 0; \<open>m\<close> runs from 1 to 12.\<close>

definition day_of_civil :: "int \<Rightarrow> int \<Rightarrow> int \<Rightarrow> int" where
  "day_of_civil y m d =
     (let y' = (if m \<le> 2 then y - 1 else y); era = y' div 400; yoe = y' mod 400;
          doy = (153 * (if 2 < m then m - 3 else m + 9) + 2) div 5 + d - 1;
          doe = yoe * 365 + yoe div 4 - yoe div 100 + doy
      in era * 146097 + doe - 719468)"

definition civil_of_day :: "int \<Rightarrow> int \<times> int \<times> int" where
  "civil_of_day n =
     (let z = n + 719468; era = z div 146097; doe = z mod 146097;
          yoe = (doe - doe div 1460 + doe div 36524 - doe div 146096) div 365;
          doy = doe - (365 * yoe + yoe div 4 - yoe div 100); mp = (5 * doy + 2) div 153;
          d = doy - (153 * mp + 2) div 5 + 1; m = (if mp < 10 then mp + 3 else mp - 9);
          y = yoe + era * 400 + (if m \<le> 2 then 1 else 0)
      in (y, m, d))"

text \<open>\<open>Date.UTC(y, m - 1, d)\<close> in days: months and days out of range carry, years 0 to 99 mean 19xx.\<close>

definition utc_day :: "int \<Rightarrow> int \<Rightarrow> int \<Rightarrow> int" where
  "utc_day y m d =
     (let y' = (if 0 \<le> y \<and> y \<le> 99 then 1900 + y else y)
      in day_of_civil (y' + (m - 1) div 12) ((m - 1) mod 12 + 1) 1 + d - 1)"

definition pad_nat :: "nat \<Rightarrow> nat \<Rightarrow> string" where
  "pad_nat w n = replicate (w - length (show_nat n)) (CHR ''0'') @ show_nat n"

text \<open>\<open>toISOString().slice(0, 10)\<close> of a day.\<close>

definition iso_day :: "int \<Rightarrow> string" where
  "iso_day n =
     (case civil_of_day n of (y, m, d) \<Rightarrow>
        (let year = (if 0 \<le> y \<and> y \<le> 9999 then pad_nat 4 (nat y)
                     else (if y < 0 then ''-'' else ''+'') @ pad_nat 6 (nat \<bar>y\<bar>))
         in take 10 (year @ ''-'' @ pad_nat 2 (nat m) @ ''-'' @ pad_nat 2 (nat d) @ ''T'')))"

definition iso_parts :: "string \<Rightarrow> (int \<times> int \<times> int) option" where
  "iso_parts s =
     (let y = take 4 s; m = slice 5 7 s; d = drop 8 s in
      if length s = 10 \<and> list_all is_digit (y @ m @ d) \<and> s ! 4 = DASH \<and> s ! 7 = DASH
      then Some (int (digits_value y), int (digits_value m), int (digits_value d)) else None)"

definition isRealDate :: "string \<Rightarrow> bool" where
  "isRealDate ymd =
     (case iso_parts ymd of Some (y, m, d) \<Rightarrow> iso_day (utc_day y m d) = ymd | None \<Rightarrow> False)"

definition isNumeric :: "string \<Rightarrow> bool" where
  "isNumeric s \<longleftrightarrow> trim s \<noteq> [] \<and> finite_number s \<noteq> None"

definition datePart :: "string \<Rightarrow> string option" where
  "datePart value =
     (let d = take 10 (trim value); rest = drop 10 (trim value) in
      if rest \<noteq> [] \<and> \<not> starts_with rest ''T'' then None
      else if isRealDate d then Some d else None)"

section \<open>Conditions\<close>

datatype filter_op = OpLT | OpLE | OpGT | OpGE | OpNE

record filter_condition =
  fc_key :: string
  fc_op :: filter_op
  fc_operand :: string

datatype operand = DateOperand string | NumberOperand rat | TextOperand string

text \<open>\<open>/^([+-])(\d{1,5})d$/\<close>\<close>

definition day_offset :: "string \<Rightarrow> int option" where
  "day_offset t =
     (case t of
        [] \<Rightarrow> None
      | c # cs \<Rightarrow>
          (let ds = takeWhile is_digit cs in
           if (c = CHR ''+'' \<or> c = CHR ''-'') \<and> 1 \<le> length ds \<and> length ds \<le> 5 \<and> dropWhile is_digit cs = ''d''
           then Some (if c = CHR ''-'' then - int (digits_value ds) else int (digits_value ds)) else None))"

text \<open>\<open>today\<close> is a date \<open>YYYY-MM-DD\<close>, as every caller passes it.\<close>

definition shift_day :: "string \<Rightarrow> int \<Rightarrow> string" where
  "shift_day today n = (case iso_parts today of Some (y, m, d) \<Rightarrow> iso_day (day_of_civil y m d + n) | None \<Rightarrow> [])"

definition resolveOperand :: "filter_op \<Rightarrow> string \<Rightarrow> string \<Rightarrow> operand option" where
  "resolveOperand op raw today =
     (let t = trim raw in
      if t = ''today'' then Some (DateOperand today)
      else (case day_offset t of
              Some n \<Rightarrow> Some (DateOperand (shift_day today n))
            | None \<Rightarrow>
                if isRealDate t then Some (DateOperand t)
                else if isNumeric t then map_option NumberOperand (finite_number t)
                else if op = OpNE \<and> t \<noteq> [] then Some (TextOperand (lower t)) else None))"

definition op_prefix :: "string \<Rightarrow> (filter_op \<times> string) option" where
  "op_prefix s =
     (if starts_with s ''<='' then Some (OpLE, drop 2 s)
      else if starts_with s ''>='' then Some (OpGE, drop 2 s)
      else if starts_with s ''!='' then Some (OpNE, drop 2 s)
      else if starts_with s ''<'' then Some (OpLT, drop 1 s)
      else if starts_with s ''>'' then Some (OpGT, drop 1 s) else None)"

text \<open>\<open>/^(<=|>=|!=|<|>)\s*(.*)$/\<close>\<close>

definition op_match :: "string \<Rightarrow> (filter_op \<times> string) option" where
  "op_match s =
     (case op_prefix s of
        Some (op, t) \<Rightarrow>
          (let operand = dropWhile is_space t in
           if CR \<in> set operand \<or> NL \<in> set operand then None else Some (op, operand))
      | None \<Rightarrow> None)"

datatype view_error =
    UnrecognizedLine string
  | BadFilterLine string
  | BadFilter string
  | OperatorInList string
  | BadOperand string string filter_op
  | BadKind string
  | BadAs string
  | BadOrder string
  | OfNeedsBacklinks
  | UnderNotBacklinks

definition parseCondition :: "string \<Rightarrow> string list \<Rightarrow> (view_error + filter_condition) option" where
  "parseCondition key values =
     (if filter (\<lambda>v. op_match (trim v) \<noteq> None) values = [] then None
      else if 1 < length values then Some (Inl (OperatorInList key))
      else (case op_match (trim (hd values)) of
              None \<Rightarrow> None
            | Some (op, operand) \<Rightarrow>
                if resolveOperand op operand ''2000-01-01'' = None
                then Some (Inl (BadOperand key (trim (hd values)) op))
                else Some (Inr \<lparr>fc_key = key, fc_op = op, fc_operand = trim operand\<rparr>)))"

text \<open>The sign of a value against the operand, where they can be compared.\<close>

definition sign_against :: "operand \<Rightarrow> string \<Rightarrow> int option" where
  "sign_against operand v =
     (case operand of
        DateOperand date \<Rightarrow> map_option (\<lambda>d. code_unit_cmp d date) (datePart v)
      | NumberOperand n \<Rightarrow>
          if isNumeric v then map_option (\<lambda>x. if x < n then -1 else if n < x then 1 else 0) (finite_number v) else None
      | TextOperand text \<Rightarrow> Some (if lower (trim v) = text then 0 else 1))"

definition comparable :: "operand \<Rightarrow> string list \<Rightarrow> int list" where
  "comparable operand values = List.map_filter (sign_against operand) values"

definition op_holds :: "filter_op \<Rightarrow> int list \<Rightarrow> bool" where
  "op_holds op signs =
     (case op of
        OpLT \<Rightarrow> list_ex (\<lambda>c. c < 0) signs
      | OpLE \<Rightarrow> list_ex (\<lambda>c. c \<le> 0) signs
      | OpGT \<Rightarrow> list_ex (\<lambda>c. 0 < c) signs
      | OpGE \<Rightarrow> list_ex (\<lambda>c. 0 \<le> c) signs
      | OpNE \<Rightarrow> list_all (\<lambda>c. c \<noteq> 0) signs)"

definition matchesCondition :: "string list \<Rightarrow> filter_condition \<Rightarrow> string \<Rightarrow> bool" where
  "matchesCondition values cond today =
     (case resolveOperand (fc_op cond) (fc_operand cond) today of
        None \<Rightarrow> False
      | Some operand \<Rightarrow>
          (let signs = comparable operand values in if signs = [] then False else op_holds (fc_op cond) signs))"

section \<open>The directive\<close>

definition stripViewQuotes :: "string \<Rightarrow> string" where
  "stripViewQuotes v =
     (let t = trim v in
      if quoted_with DQUOTE t \<or> quoted_with SQUOTE t then unescape_dquote (butlast (tl t)) else t)"

definition parseScalarOrList :: "string \<Rightarrow> string list" where
  "parseScalarOrList raw =
     (let t = trim raw in
      if t \<noteq> [] \<and> hd t = CHR ''['' \<and> last t = CHR '']'' then
        (let inner = trim (butlast (tl t)) in
         if inner = [] then [] else map stripViewQuotes (split_on (CHR '','') inner))
      else [stripViewQuotes t])"

text \<open>Commas outside brackets; a rest of white space only is dropped.\<close>

fun split_outside :: "string \<Rightarrow> int \<Rightarrow> string \<Rightarrow> string list" where
  "split_outside [] depth cur = (if trim cur \<noteq> [] then [cur] else [])"
| "split_outside (c # cs) depth cur =
     (let d = (if c = CHR ''['' then depth + 1 else if c = CHR '']'' then depth - 1 else depth) in
      if c = CHR '','' \<and> d = 0 then cur # split_outside cs d [] else split_outside cs d (cur @ [c]))"

fun map_parts :: "string list \<Rightarrow> string list obj \<Rightarrow> string list obj option" where
  "map_parts [] out = Some out"
| "map_parts (p # ps) out =
     (case fm_key_match (dropWhile is_space p) of
        None \<Rightarrow> None
      | Some (k, v) \<Rightarrow> map_parts ps (obj_set k (parseScalarOrList v) out))"

definition parseInlineMap :: "string \<Rightarrow> string list obj option" where
  "parseInlineMap raw =
     (let t = trim raw in
      if \<not> (starts_with t ''{'' \<and> ends_with t ''}'') then None
      else (let inner = trim (butlast (tl t)) in
            if inner = [] then Some [] else map_parts (split_outside inner 0 []) []))"

datatype view_kind = Backlinks | Pages | Folders
datatype view_as = AsList | AsTable | AsCount

record view_spec =
  vs_kind :: view_kind
  vs_of :: "string option"
  vs_under :: "string option"
  vs_filter :: "string list obj"
  vs_conditions :: "filter_condition list"
  vs_as :: view_as
  vs_columns :: "string list"
  vs_describe :: "string option"
  vs_groupBy :: "string option"
  vs_sort :: string
  vs_desc :: bool
  vs_label :: "string option"

fun filter_lines :: "string list \<Rightarrow> string list obj \<Rightarrow> view_error + string list obj" where
  "filter_lines [] flt = Inr flt"
| "filter_lines (l # ls) flt =
     (case fm_key_match (dropWhile is_space l) of
        None \<Rightarrow> Inl (BadFilterLine (trim l))
      | Some (k, v) \<Rightarrow> filter_lines ls (obj_set k (parseScalarOrList v) flt))"

text \<open>The lines of the directive into its plain keys and its filter.\<close>

fun spec_lines :: "string list \<Rightarrow> string obj \<Rightarrow> string list obj \<Rightarrow> view_error + string obj \<times> string list obj" where
  "spec_lines [] raw flt = Inr (raw, flt)"
| "spec_lines (line # ls) raw flt =
     (if trim line = [] \<or> starts_with (trim line) ''#'' then spec_lines ls raw flt
      else (case fm_key_match line of
              None \<Rightarrow> Inl (UnrecognizedLine (trim line))
            | Some (key, rest) \<Rightarrow>
                if key = ''filter'' then
                  (if trim rest = [] then
                     (case filter_lines (takeWhile indented ls) flt of
                        Inl e \<Rightarrow> Inl e
                      | Inr flt' \<Rightarrow> spec_lines (dropWhile indented ls) raw flt')
                   else (case parseInlineMap rest of
                           None \<Rightarrow> Inl (BadFilter (trim rest))
                         | Some m \<Rightarrow> spec_lines ls raw (foldl (\<lambda>acc e. obj_set (fst e) (snd e) acc) flt m)))
                else spec_lines ls (obj_set key (trim rest) raw) flt))"

fun take_conditions ::
  "string list obj \<Rightarrow> string list obj \<Rightarrow> filter_condition list \<Rightarrow> view_error + string list obj \<times> filter_condition list" where
  "take_conditions [] flt conds = Inr (flt, conds)"
| "take_conditions ((key, values) # es) flt conds =
     (case parseCondition key values of
        None \<Rightarrow> take_conditions es flt conds
      | Some (Inl e) \<Rightarrow> Inl e
      | Some (Inr c) \<Rightarrow> take_conditions es (obj_delete key flt) (conds @ [c]))"

definition raw_value :: "string obj \<Rightarrow> string \<Rightarrow> string option" where
  "raw_value raw k = (case map_of raw k of Some v \<Rightarrow> if v \<noteq> [] then Some (stripViewQuotes v) else None | None \<Rightarrow> None)"

definition kind_of :: "string \<Rightarrow> view_kind option" where
  "kind_of s = (if s = ''backlinks'' then Some Backlinks else if s = ''pages'' then Some Pages
                else if s = ''folders'' then Some Folders else None)"

definition as_of :: "string \<Rightarrow> view_as option" where
  "as_of s = (if s = ''list'' then Some AsList else if s = ''table'' then Some AsTable
              else if s = ''count'' then Some AsCount else None)"

definition columns_of :: "string obj \<Rightarrow> string list" where
  "columns_of raw =
     (case map_of raw ''columns'' of
        Some (c # cs) \<Rightarrow>
          (let cols = concat (map (\<lambda>x. filter (\<lambda>s. s \<noteq> []) (map stripViewQuotes (split_on (CHR '','') x)))
                        (parseScalarOrList (c # cs)))
           in if cols = [] then [''title''] else cols)
      | _ \<Rightarrow> [''title''])"

definition default_value :: "string obj \<Rightarrow> string \<Rightarrow> string \<Rightarrow> string" where
  "default_value raw k d = stripViewQuotes (case map_of raw k of Some v \<Rightarrow> v | None \<Rightarrow> d)"

definition build_spec :: "string obj \<Rightarrow> string list obj \<Rightarrow> filter_condition list \<Rightarrow> view_error + view_spec" where
  "build_spec raw flt conds =
     (let kind0 = default_value raw ''kind'' []; as0 = default_value raw ''as'' ''list'';
          kind = (if kind0 = ''count'' then ''backlinks'' else kind0);
          as = (if kind0 = ''count'' then ''count'' else as0);
          order = default_value raw ''order'' ''asc'' in
      case kind_of kind of
        None \<Rightarrow> Inl (BadKind (if kind0 \<noteq> [] then kind0 else ''nothing''))
      | Some k \<Rightarrow>
          (case as_of as of
             None \<Rightarrow> Inl (BadAs as)
           | Some a \<Rightarrow>
               if order \<noteq> ''asc'' \<and> order \<noteq> ''desc'' then Inl (BadOrder order)
               else if raw_value raw ''of'' \<noteq> None \<and> k \<noteq> Backlinks then Inl OfNeedsBacklinks
               else if raw_value raw ''under'' \<noteq> None \<and> k = Backlinks then Inl UnderNotBacklinks
               else Inr \<lparr>vs_kind = k, vs_of = raw_value raw ''of'', vs_under = raw_value raw ''under'',
                         vs_filter = flt, vs_conditions = conds, vs_as = a, vs_columns = columns_of raw,
                         vs_describe = raw_value raw ''describe'', vs_groupBy = raw_value raw ''group-by'',
                         vs_sort = (case raw_value raw ''sort'' of Some s \<Rightarrow> s | None \<Rightarrow> ''title''),
                         vs_desc = (order = ''desc''), vs_label = raw_value raw ''label''\<rparr>))"

definition parseViewSpec :: "string \<Rightarrow> view_error + view_spec" where
  "parseViewSpec yaml =
     (case spec_lines (split_on NL yaml) [] [] of
        Inl e \<Rightarrow> Inl e
      | Inr (raw, flt) \<Rightarrow>
          (case take_conditions flt flt [] of
             Inl e \<Rightarrow> Inl e
           | Inr (flt', conds) \<Rightarrow> build_spec raw flt' conds))"

section \<open>Segments\<close>

definition VIEW_FENCE_TAG :: string where
  "VIEW_FENCE_TAG = ''okf-view''"

definition SNAPSHOT_BEGIN :: string where
  "SNAPSHOT_BEGIN = ''<!-- okf-view:snapshot (generated: do not edit, recomputed on save) -->''"

definition SNAPSHOT_END :: string where
  "SNAPSHOT_END = ''<!-- /okf-view:snapshot -->''"

datatype segment =
    TextSegment string
  | ViewSegment string "view_error + view_spec" "string option"

definition hasViews :: "string \<Rightarrow> bool" where
  "hasViews content \<longleftrightarrow> contains content (FENCE @ VIEW_FENCE_TAG)"

text \<open>The lines before the first one that satisfies \<open>P\<close>, that line, and the lines after it.\<close>

fun cut_lines :: "(string \<Rightarrow> bool) \<Rightarrow> string list \<Rightarrow> (string list \<times> string \<times> string list) option" where
  "cut_lines P [] = None"
| "cut_lines P (l # ls) =
     (if P l then Some ([], l, ls)
      else map_option (\<lambda>(before, hit, rest). (l # before, hit, rest)) (cut_lines P ls))"

lemma cut_lines_Some: "cut_lines P ls = Some (before, hit, rest) \<Longrightarrow> ls = before @ hit # rest \<and> P hit"
  by (induction ls arbitrary: before) (auto split: if_splits)

definition is_fence_line :: "string \<Rightarrow> bool" where
  "is_fence_line l \<longleftrightarrow> starts_with (trim l) FENCE"

definition is_blank :: "string \<Rightarrow> bool" where
  "is_blank l \<longleftrightarrow> trim l = []"

text \<open>The snapshot region behind a fence, and the lines after it.\<close>

definition snapshot_after :: "string list \<Rightarrow> string option \<times> string list" where
  "snapshot_after ls =
     (case dropWhile is_blank ls of
        [] \<Rightarrow> (None, ls)
      | b # bs \<Rightarrow>
          (case (if trim b = SNAPSHOT_BEGIN then cut_lines (\<lambda>l. trim l = SNAPSHOT_END) bs else None) of
             Some (body, _, rest) \<Rightarrow> (Some (join_with [NL] body), rest)
           | None \<Rightarrow> (None, ls)))"

lemma snapshot_after_length: "length (snd (snapshot_after ls)) \<le> length ls"
proof (cases "dropWhile is_blank ls")
  case Nil
  show ?thesis unfolding snapshot_after_def Nil by simp
next
  case (Cons b bs)
  then have "length bs \<le> length ls" using length_dropWhile_le [of is_blank ls] by simp
  then show ?thesis
    using Cons cut_lines_Some [of _ bs]
    by (fastforce simp: snapshot_after_def split: option.splits if_splits)
qed

definition flush :: "string list \<Rightarrow> segment list" where
  "flush text = (if text = [] then [] else [TextSegment (join_with [NL] text)])"

function seg_lines :: "string list \<Rightarrow> bool \<Rightarrow> string list \<Rightarrow> segment list" where
  "seg_lines [] other text = flush text"
| "seg_lines (line # ls) other text =
     (if other then seg_lines ls (\<not> is_fence_line line) (text @ [line])
      else if trim line = FENCE @ VIEW_FENCE_TAG then
        (case cut_lines (\<lambda>l. trim l = FENCE) ls of
           None \<Rightarrow> seg_lines ls False (text @ [line])
         | Some (yaml, close, rest) \<Rightarrow>
             flush text
             @ ViewSegment (join_with [NL] (line # yaml @ [close])) (parseViewSpec (join_with [NL] yaml))
                 (fst (snapshot_after rest))
             # seg_lines (snd (snapshot_after rest)) False [])
      else seg_lines ls (is_fence_line line) (text @ [line]))"
  by pat_completeness auto
termination
proof (relation "measure (\<lambda>(ls, _, _). length ls)", goal_cases)
  case (4 line ls other acc p yaml q close rest)
  then have "ls = yaml @ close # rest" using cut_lines_Some by blast
  with snapshot_after_length [of rest] show ?case by simp
qed auto

definition segmentViews :: "string \<Rightarrow> segment list" where
  "segmentViews content = seg_lines (split_on NL content) False []"

definition stripSnapshots :: "string \<Rightarrow> string" where
  "stripSnapshots content =
     join_with [NL] (map (\<lambda>s. case s of TextSegment t \<Rightarrow> t | ViewSegment fence _ _ \<Rightarrow> fence) (segmentViews content))"

definition displayFromSnapshots :: "string \<Rightarrow> string" where
  "displayFromSnapshots content =
     join_with [NL]
       (map (\<lambda>s. case s of TextSegment t \<Rightarrow> t
                 | ViewSegment fence _ snap \<Rightarrow> (case snap of Some b \<Rightarrow> b | None \<Rightarrow> fence)) (segmentViews content))"

section \<open>Pages without views\<close>

lemma trim_infix: "\<exists>a b. s = a @ trim s @ b"
proof -
  obtain ys where "dropWhile is_space s = trim s @ ys"
    using drop_trailing_prefix [of "dropWhile is_space s" is_space] by (auto simp: trim_def trim_end_def trim_start_def)
  then have "s = takeWhile is_space s @ trim s @ ys" by (metis takeWhile_dropWhile_id)
  then show ?thesis by blast
qed

lemma line_infix: "l \<in> set (split_on NL s) \<Longrightarrow> \<exists>a b. s = a @ l @ b"
proof -
  assume "l \<in> set (split_on NL s)"
  then obtain xs ys where p: "split_on NL s = xs @ l # ys" by (meson split_list)
  have "s = join_with [NL] (xs @ l # ys)" using join_split [of NL s] p by simp
  moreover have "\<exists>b. join_with [NL] (l # ys) = l @ b" by (cases ys) auto
  ultimately obtain b where b: "join_with [NL] (l # ys) = l @ b" and s: "s = join_with [NL] (xs @ l # ys)" by blast
  show ?thesis
  proof (cases "xs = []")
    case True
    with s b have "s = [] @ l @ b" by simp
    then show ?thesis by blast
  next
    case False
    then have "s = (join_with [NL] xs @ [NL]) @ l @ b" using s b by (simp add: join_with_append)
    then show ?thesis by blast
  qed
qed

lemma no_view_line: "\<not> hasViews s \<Longrightarrow> l \<in> set (split_on NL s) \<Longrightarrow> trim l \<noteq> FENCE @ VIEW_FENCE_TAG"
  using trim_infix [of l] line_infix [of l s] unfolding hasViews_def contains_iff by (metis append.assoc)

lemma seg_lines_plain:
  "(\<And>l. l \<in> set ls \<Longrightarrow> trim l \<noteq> FENCE @ VIEW_FENCE_TAG) \<Longrightarrow> seg_lines ls other acc = flush (acc @ ls)"
proof (induction ls arbitrary: other acc)
  case Nil
  then show ?case by simp
next
  case (Cons l ls)
  then have "seg_lines ls other' (acc @ [l]) = flush (acc @ l # ls)" for other' by simp
  moreover have "trim l \<noteq> FENCE @ VIEW_FENCE_TAG" using Cons.prems by simp
  ultimately show ?case by (simp del: append_Cons)
qed

text \<open>
  The cheap pre-check is sound: a page without the fence of a view is one text segment, and both
  the editor's and the reader's projection give it back unchanged.
\<close>

theorem no_views_unchanged:
  assumes "\<not> hasViews content"
  shows "segmentViews content = [TextSegment content] \<and> stripSnapshots content = content
         \<and> displayFromSnapshots content = content"
proof -
  have "segmentViews content = flush ([] @ split_on NL content)"
    unfolding segmentViews_def by (rule seg_lines_plain) (rule no_view_line [OF assms])
  then have "segmentViews content = [TextSegment content]" by (simp add: flush_def)
  then show ?thesis by (simp add: stripSnapshots_def displayFromSnapshots_def)
qed

theorem no_views_unchanged_witness:
  "\<not> hasViews (''a'' @ [NL] @ ''b'') \<and> stripSnapshots (''a'' @ [NL] @ ''b'') = ''a'' @ [NL] @ ''b''"
proof -
  have h: "\<not> hasViews (''a'' @ [NL] @ ''b'')" by code_simp
  with no_views_unchanged [OF h] show ?thesis by simp
qed

section \<open>Conditions\<close>

text \<open>
  What a condition answers for one field: a missing or incomparable field satisfies none; on a
  single comparable value the ordering operators are a trichotomy, and \<open>!=\<close> is its middle denied.
\<close>

lemma matchesCondition_total:
  "(case resolveOperand op operand today of
      None \<Rightarrow> \<not> matchesCondition values \<lparr>fc_key = k, fc_op = op, fc_operand = operand\<rparr> today
    | Some opd \<Rightarrow>
        (comparable opd values = [] \<longrightarrow> \<not> matchesCondition values \<lparr>fc_key = k, fc_op = op, fc_operand = operand\<rparr> today)
        \<and> (\<forall>c. comparable opd values = [c] \<longrightarrow>
              matchesCondition values \<lparr>fc_key = k, fc_op = op, fc_operand = operand\<rparr> today
                = (case op of OpLT \<Rightarrow> c < 0 | OpLE \<Rightarrow> c \<le> 0 | OpGT \<Rightarrow> 0 < c | OpGE \<Rightarrow> 0 \<le> c | OpNE \<Rightarrow> c \<noteq> 0)))"
  by (simp add: matchesCondition_def op_holds_def split: option.split filter_op.split)

end
