(* ===== verification/PagePatch.thy ===== *)
theory PagePatch
  imports ViewDirectives "HOL-Library.While_Combinator"
begin

text \<open>
  Partial page updates (\<open>src/lib/page-patch.ts\<close>): exact replacements and appends in the body, a
  merge patch of the frontmatter.  A refusal carries the data its message quotes.
\<close>

section \<open>Edits of the body\<close>

record page_edit =
  pe_find :: string
  pe_replace :: string

text \<open>Ranges \<open>(from, to)\<close> of generated text, markers included; an open marker runs to the end.\<close>

fun range_lines :: "string list \<Rightarrow> nat \<Rightarrow> nat option \<Rightarrow> (nat \<times> nat) list \<times> nat option" where
  "range_lines [] offset start = ([], start)"
| "range_lines (line # ls) offset start =
     (let stop = offset + length line in
      case start of
        None \<Rightarrow> range_lines ls (stop + 1) (if trim line = SNAPSHOT_BEGIN then Some offset else None)
      | Some b \<Rightarrow>
          if trim line = SNAPSHOT_END
          then (let r = range_lines ls (stop + 1) None in ((b, stop) # fst r, snd r))
          else range_lines ls (stop + 1) (Some b))"

definition snapshotRanges :: "string \<Rightarrow> (nat \<times> nat) list" where
  "snapshotRanges body =
     (let r = range_lines (split_on NL body) 0 None in
      fst r @ (case snd r of Some b \<Rightarrow> [(b, length body)] | None \<Rightarrow> []))"

text \<open>Occurrences that do not overlap, from the left; the needle is not empty where this is used.\<close>

function indexes_from :: "string \<Rightarrow> string \<Rightarrow> nat \<Rightarrow> nat list" where
  "indexes_from s needle offset =
     (case (if needle = [] then None else index_of s needle) of
        None \<Rightarrow> []
      | Some i \<Rightarrow> (offset + i) # indexes_from (drop (i + length needle) s) needle (offset + i + length needle))"
  by pat_completeness auto
termination
proof (relation "measure (\<lambda>(s, _, _). length s)", goal_cases)
  case (2 s needle offset i)
  then have "needle \<noteq> []" "i + length needle \<le> length s" using index_of_Some by (auto split: if_splits)
  then show ?case by (cases needle) auto
qed auto

declare indexes_from.simps [simp del]

definition allIndexesOf :: "string \<Rightarrow> string \<Rightarrow> nat list" where
  "allIndexesOf haystack needle = indexes_from haystack needle 0"

definition in_snapshot :: "(nat \<times> nat) list \<Rightarrow> nat \<Rightarrow> nat \<Rightarrow> bool" where
  "in_snapshot generated n i = list_ex (\<lambda>(b, e). i < e \<and> b < i + n) generated"

definition live_hits :: "string \<Rightarrow> string \<Rightarrow> nat list" where
  "live_hits body needle =
     filter (\<lambda>i. \<not> in_snapshot (snapshotRanges body) (length needle) i) (allIndexesOf body needle)"

text \<open>
  The first line of a text, at most sixty characters of it; the two flags say whether an ellipsis
  stands for the rest of the line and for further lines.
\<close>

definition excerpt :: "string \<Rightarrow> string \<times> bool \<times> bool" where
  "excerpt s =
     (let line = trim (hd (split_on NL s)) in
      (if 60 < length line then take 60 line else line, 60 < length line, NL \<in> set s))"

text \<open>What an edit is called in a message: its number where there are several.\<close>

type_synonym edit_label = "(nat \<times> (string \<times> bool \<times> bool)) option"

datatype patch_refusal =
    EmptyFind edit_label
  | NotFound "string \<times> bool \<times> bool"
  | OnlyInSnapshot "string \<times> bool \<times> bool"
  | Ambiguous "string \<times> bool \<times> bool" nat edit_label
  | EmptyAppend
  | NothingToChange

datatype patch_note = ReplacementsMade nat | LinesAppended nat

definition splice :: "string \<Rightarrow> nat \<Rightarrow> nat \<Rightarrow> string \<Rightarrow> string" where
  "splice s i n r = take i s @ r @ drop (i + n) s"

definition apply_edit :: "edit_label \<Rightarrow> page_edit \<Rightarrow> string \<Rightarrow> patch_refusal + string" where
  "apply_edit label edit body =
     (let find = pe_find edit; live = live_hits body find in
      if find = [] then Inl (EmptyFind label)
      else if allIndexesOf body find = [] then Inl (NotFound (excerpt find))
      else if live = [] then Inl (OnlyInSnapshot (excerpt find))
      else if 1 < length live then Inl (Ambiguous (excerpt find) (length live) label)
      else Inr (splice body (hd live) (length find) (pe_replace edit)))"

fun apply_edits :: "bool \<Rightarrow> nat \<Rightarrow> page_edit list \<Rightarrow> string \<Rightarrow> patch_refusal + string" where
  "apply_edits many i [] body = Inr body"
| "apply_edits many i (e # es) body =
     (case apply_edit (if many then Some (i + 1, excerpt (pe_find e)) else None) e body of
        Inl r \<Rightarrow> Inl r
      | Inr next \<Rightarrow> apply_edits many (i + 1) es next)"

definition append_to :: "string \<Rightarrow> string \<Rightarrow> patch_refusal + string \<times> nat" where
  "append_to body text =
     (let addition = drop_trailing is_space text; base = drop_trailing is_space body in
      if trim addition = [] then Inl EmptyAppend
      else Inr (if base = [] then addition @ [NL] else base @ [NL, NL] @ addition @ [NL],
                length (split_on NL addition)))"

definition applyPageEdits ::
  "string \<Rightarrow> string option \<Rightarrow> page_edit list option \<Rightarrow> patch_refusal + string \<times> patch_note list" where
  "applyPageEdits body appended edits =
     (let es = (case edits of Some es \<Rightarrow> es | None \<Rightarrow> []) in
      case apply_edits (1 < length es) 0 es body of
        Inl r \<Rightarrow> Inl r
      | Inr next \<Rightarrow>
          (let made = (if es \<noteq> [] then [ReplacementsMade (length es)] else []) in
           case appended of
             None \<Rightarrow> if made = [] then Inl NothingToChange else Inr (next, made)
           | Some text \<Rightarrow>
               (case append_to next text of
                  Inl r \<Rightarrow> Inl r
                | Inr (next', n) \<Rightarrow> Inr (next', made @ [LinesAppended n]))))"

section \<open>Fields of the frontmatter\<close>

definition MANAGED_FIELD_KEYS :: "string list" where
  "MANAGED_FIELD_KEYS = [''title'', ''type'', ''description'', ''status'', ''updated'']"

definition is_field_key :: "string \<Rightarrow> bool" where
  "is_field_key k \<longleftrightarrow> k \<noteq> [] \<and> list_all is_key_char k"

definition isUsableFieldKey :: "string \<Rightarrow> bool" where
  "isUsableFieldKey key \<longleftrightarrow> is_field_key key \<and> key \<notin> set MANAGED_FIELD_KEYS"

text \<open>
  A value of a patch.  A number is the text \<open>String\<close> gives it; \<open>FieldObject\<close> is any other object,
  which the checks refuse.
\<close>

datatype field_item = ItemText string | ItemNumber string

datatype field_value =
    FieldText string
  | FieldNumber string
  | FieldBool bool
  | FieldList "field_item list"
  | FieldNull
  | FieldObject

type_synonym field_patch = "field_value obj"

definition item_string :: "field_item \<Rightarrow> string" where
  "item_string i = (case i of ItemText s \<Rightarrow> s | ItemNumber s \<Rightarrow> s)"

definition normalize_value :: "field_value \<Rightarrow> fm_value" where
  "normalize_value v =
     (case v of
        FieldList xs \<Rightarrow> Items (map item_string xs)
      | FieldText s \<Rightarrow> Scalar s
      | FieldNumber s \<Rightarrow> Scalar s
      | FieldBool b \<Rightarrow> Scalar (if b then ''true'' else ''false'')
      | FieldNull \<Rightarrow> Scalar ''null''
      | FieldObject \<Rightarrow> Scalar ''[object Object]'')"

definition sameValue :: "fm_value option \<Rightarrow> fm_value \<Rightarrow> bool" where
  "sameValue a b = (case a of None \<Rightarrow> False | Some v \<Rightarrow> \<not> isFrontmatterBlock a \<and> v = b)"

datatype field_refusal =
    NothingToSet
  | UnusableKey string
  | ManagedKey string
  | BadValue string
  | HoldsNestedYaml string

definition check_entry :: "string \<times> field_value \<Rightarrow> field_refusal option" where
  "check_entry e =
     (if \<not> is_field_key (fst e) then Some (UnusableKey (fst e))
      else if fst e \<in> set MANAGED_FIELD_KEYS then Some (ManagedKey (fst e))
      else if snd e = FieldObject then Some (BadValue (fst e)) else None)"

fun first_refusal :: "field_patch \<Rightarrow> field_refusal option" where
  "first_refusal [] = None"
| "first_refusal (e # es) = (case check_entry e of Some r \<Rightarrow> Some r | None \<Rightarrow> first_refusal es)"

definition validateFieldPatch :: "field_patch \<Rightarrow> field_refusal option" where
  "validateFieldPatch patch = (if patch = [] then Some NothingToSet else first_refusal patch)"

record patched =
  pf_frontmatter :: frontmatter
  pf_set :: "string list"
  pf_removed :: "string list"

text \<open>\<open>key in next\<close> also finds inherited names, and assigning to \<open>__proto__\<close> creates no key.\<close>

definition patch_entry :: "frontmatter \<Rightarrow> string \<times> field_value \<Rightarrow> patched \<Rightarrow> field_refusal + patched" where
  "patch_entry fm e p =
     (case e of (key, value) \<Rightarrow>
        if isFrontmatterBlock (map_of fm key) then Inl (HoldsNestedYaml key)
        else if value = FieldNull then
          Inr (if obj_in key (pf_frontmatter p)
               then p\<lparr>pf_frontmatter := obj_delete key (pf_frontmatter p), pf_removed := pf_removed p @ [key]\<rparr> else p)
        else if sameValue (map_of fm key) (normalize_value value) then Inr p
        else Inr (p\<lparr>pf_frontmatter := obj_set key (normalize_value value) (pf_frontmatter p), pf_set := pf_set p @ [key]\<rparr>))"

fun patch_entries :: "frontmatter \<Rightarrow> field_patch \<Rightarrow> patched \<Rightarrow> field_refusal + patched" where
  "patch_entries fm [] p = Inr p"
| "patch_entries fm (e # es) p =
     (case patch_entry fm e p of Inl r \<Rightarrow> Inl r | Inr p' \<Rightarrow> patch_entries fm es p')"

definition applyFieldPatch :: "frontmatter \<Rightarrow> field_patch \<Rightarrow> field_refusal + patched" where
  "applyFieldPatch fm patch =
     (case validateFieldPatch patch of
        Some r \<Rightarrow> Inl r
      | None \<Rightarrow> patch_entries fm patch \<lparr>pf_frontmatter = obj_spread [] fm, pf_set = [], pf_removed = []\<rparr>)"

definition pf_changed :: "patched \<Rightarrow> nat" where
  "pf_changed p = length (pf_set p) + length (pf_removed p)"

section \<open>An edit lands on the one live occurrence\<close>

lemma indexes_from_mem:
  "i \<in> set (indexes_from s needle offset) \<longleftrightarrow>
     (\<exists>j. needle \<noteq> [] \<and> index_of s needle = Some j
        \<and> (i = offset + j \<or> i \<in> set (indexes_from (drop (j + length needle) s) needle (offset + j + length needle))))"
  by (subst indexes_from.simps, cases "index_of s needle") auto

lemma indexes_from_occurrence:
  "i \<in> set (indexes_from s needle offset) \<Longrightarrow>
     offset \<le> i \<and> (i - offset) + length needle \<le> length s \<and> take (length needle) (drop (i - offset) s) = needle"
proof (induction s needle offset arbitrary: i rule: indexes_from.induct)
  case (1 s needle offset)
  from 1(2) obtain j where ne: "needle \<noteq> []" and j: "index_of s needle = Some j"
    and i: "i = offset + j \<or> i \<in> set (indexes_from (drop (j + length needle) s) needle (offset + j + length needle))"
    unfolding indexes_from_mem [of i s] by blast
  note hit = index_of_Some [OF j]
  from i show ?case
  proof
    assume "i = offset + j"
    with hit show ?thesis by simp
  next
    assume "i \<in> set (indexes_from (drop (j + length needle) s) needle (offset + j + length needle))"
    with "1.IH" [of j i] ne j have "offset + j + length needle \<le> i"
      "i - (offset + j + length needle) + length needle \<le> length (drop (j + length needle) s)"
      "take (length needle) (drop (i - (offset + j + length needle)) (drop (j + length needle) s)) = needle"
      by auto
    moreover from this(1) have k: "i - (offset + j + length needle) + (j + length needle) = i - offset" by simp
    moreover have "i - offset + length needle \<le> length s"
      using calculation(2) hit unfolding k [symmetric] length_drop by linarith
    ultimately show ?thesis by (simp add: add.commute)
  qed
qed

lemma allIndexesOf_occurrence:
  "i \<in> set (allIndexesOf s needle) \<Longrightarrow> s = take i s @ needle @ drop (i + length needle) s"
  using indexes_from_occurrence [of i s needle 0]
  by (auto simp: allIndexesOf_def) (metis append_take_drop_id drop_drop add.commute)

lemma apply_edit_Inr:
  "apply_edit label e body = Inr next \<longleftrightarrow>
     pe_find e \<noteq> [] \<and> (\<exists>i. live_hits body (pe_find e) = [i] \<and> next = splice body i (length (pe_find e)) (pe_replace e))"
proof -
  have "live_hits body (pe_find e) = [i] \<Longrightarrow> allIndexesOf body (pe_find e) \<noteq> []" for i
    by (auto simp: live_hits_def)
  moreover have "live_hits body (pe_find e) \<noteq> [] \<Longrightarrow> \<not> 1 < length (live_hits body (pe_find e)) \<Longrightarrow>
      \<exists>i. live_hits body (pe_find e) = [i]"
    by (cases "live_hits body (pe_find e)") auto
  ultimately show ?thesis by (auto simp: apply_edit_def Let_def)
qed

text \<open>
  Every place a text stands at, overlapping ones included, and a text that cannot overlap itself (no
  proper beginning of it is also its end).  Of such a text the search from the left misses no place.
\<close>

definition occurrences :: "string \<Rightarrow> string \<Rightarrow> nat list" where
  "occurrences s needle = filter (\<lambda>i. take (length needle) (drop i s) = needle) [0..<length s + 1]"

definition borderless :: "string \<Rightarrow> bool" where
  "borderless needle \<longleftrightarrow> list_all (\<lambda>k. drop k needle \<noteq> take (length needle - k) needle) [1..<length needle]"

lemma borderless_apart:
  assumes "borderless needle" "take (length needle) (drop j s) = needle" "j < i" "i < j + length needle"
  shows "take (length needle) (drop i s) \<noteq> needle"
proof
  assume hit: "take (length needle) (drop i s) = needle"
  let ?n = "length needle" and ?k = "i - j"
  have "drop ?k needle = drop ?k (take ?n (drop j s))" using assms(2) by simp
  also have "\<dots> = take (?n - ?k) (drop i s)" using assms(3) by (simp add: drop_take)
  also have "\<dots> = take (?n - ?k) (take ?n (drop i s))" by simp
  also have "\<dots> = take (?n - ?k) needle" by (simp only: hit)
  finally have "drop ?k needle = take (?n - ?k) needle" .
  moreover have "?k \<in> set [1..<?n]" using assms(3,4) by auto
  ultimately show False using assms(1) unfolding borderless_def list_all_iff by blast
qed

lemma map_plus_upt: "map ((+) m) [0..<n] = [m..<m + n]" for m n :: nat
  by (induction n) auto

lemma upt_split: "i \<le> j \<Longrightarrow> j \<le> k \<Longrightarrow> [i..<k] = [i..<j] @ [j..<k]"
  by (metis le_add_diff_inverse upt_add_eq_append)

lemma indexes_from_occurrences:
  "needle \<noteq> [] \<Longrightarrow> borderless needle \<Longrightarrow> indexes_from s needle offset = map ((+) offset) (occurrences s needle)"
proof (induction s needle offset rule: indexes_from.induct)
  case (1 s needle offset)
  let ?n = "length needle"
  let ?P = "\<lambda>i. take ?n (drop i s) = needle"
  show ?case
  proof (cases "index_of s needle")
    case None
    then have "occurrences s needle = []"
      unfolding index_of_None occurrences_def by (auto simp: filter_empty_conv)
    with None show ?thesis by (simp add: indexes_from.simps)
  next
    case (Some j)
    note hit = index_of_Some [OF Some]
    have n: "0 < ?n" using "1.prems"(1) by simp
    have "[0..<length s + 1] = [0..<j] @ j # [j + 1..<j + ?n] @ [j + ?n..<length s + 1]"
    proof -
      have "[0..<length s + 1] = [0..<j] @ [j..<length s + 1]" using hit by (intro upt_split) linarith+
      also have "[j..<length s + 1] = j # [j + 1..<length s + 1]" using hit by (simp add: upt_rec)
      also have "[j + 1..<length s + 1] = [j + 1..<j + ?n] @ [j + ?n..<length s + 1]"
        using hit n by (intro upt_split) linarith+
      finally show ?thesis .
    qed
    moreover have "filter ?P [0..<j] = []" using index_of_first [OF Some] by (auto simp: filter_empty_conv)
    moreover have "filter ?P [j + 1..<j + ?n] = []"
      using borderless_apart [OF "1.prems"(2), of j s] hit by (auto simp: filter_empty_conv)
    moreover have "filter ?P [j + ?n..<length s + 1] = map ((+) (j + ?n)) (occurrences (drop (j + ?n) s) needle)"
    proof -
      have "[j + ?n..<length s + 1] = map ((+) (j + ?n)) [0..<length s - (j + ?n) + 1]"
        unfolding map_plus_upt using hit by (simp del: upt_Suc)
      then show ?thesis
        by (simp add: occurrences_def filter_map comp_def add.commute del: upt_Suc)
    qed
    ultimately have "occurrences s needle = j # map ((+) (j + ?n)) (occurrences (drop (j + ?n) s) needle)"
      using hit unfolding occurrences_def by simp
    with Some "1.IH" [of j] "1.prems" show ?thesis
      by (subst indexes_from.simps) (simp add: add_ac)
  qed
qed

definition live_places :: "string \<Rightarrow> string \<Rightarrow> nat list" where
  "live_places body needle =
     filter (\<lambda>i. \<not> in_snapshot (snapshotRanges body) (length needle) i) (occurrences body needle)"

lemma live_hits_places: "needle \<noteq> [] \<Longrightarrow> borderless needle \<Longrightarrow> live_hits body needle = live_places body needle"
  by (simp add: live_hits_def live_places_def allIndexesOf_def indexes_from_occurrences map_idI)

text \<open>One edit the way it is meant: a text, its replacement, and the only place it stands outside the snapshots.\<close>

definition replaces_once :: "page_edit \<Rightarrow> string \<Rightarrow> string \<Rightarrow> bool" where
  "replaces_once e body next \<longleftrightarrow>
     pe_find e \<noteq> []
     \<and> (\<exists>a b. body = a @ pe_find e @ b \<and> next = a @ pe_replace e @ b \<and> live_places body (pe_find e) = [length a])"

lemma apply_edit_replaces:
  assumes "borderless (pe_find e)"
  shows "apply_edit label e body = Inr next \<longleftrightarrow> replaces_once e body next"
proof
  assume "apply_edit label e body = Inr next"
  then obtain i where f: "pe_find e \<noteq> []" and live: "live_hits body (pe_find e) = [i]"
    and n: "next = splice body i (length (pe_find e)) (pe_replace e)" by (auto simp: apply_edit_Inr)
  have "i \<in> set (allIndexesOf body (pe_find e))"
    using live unfolding live_hits_def by (metis filter_is_subset list.set_intros(1) subsetD)
  then have b: "body = take i body @ pe_find e @ drop (i + length (pe_find e)) body"
    and le: "i \<le> length body"
    using allIndexesOf_occurrence indexes_from_occurrence [of i body "pe_find e" 0] by (auto simp: allIndexesOf_def)
  from le have "length (take i body) = i" by simp
  with f live n b live_hits_places [OF f assms] show "replaces_once e body next"
    unfolding replaces_once_def splice_def by metis
next
  assume "replaces_once e body next"
  with assms show "apply_edit label e body = Inr next"
    by (auto simp: replaces_once_def apply_edit_Inr splice_def live_hits_places)
qed

fun edit_chain :: "page_edit list \<Rightarrow> string \<Rightarrow> string \<Rightarrow> bool" where
  "edit_chain [] body next \<longleftrightarrow> next = body"
| "edit_chain (e # es) body next \<longleftrightarrow> (\<exists>mid. replaces_once e body mid \<and> edit_chain es mid next)"

lemma apply_edits_chain:
  "list_all (\<lambda>e. borderless (pe_find e)) es \<Longrightarrow> apply_edits many i es body = Inr next \<longleftrightarrow> edit_chain es body next"
proof (induction es arbitrary: i body)
  case Nil
  then show ?case by auto
next
  case (Cons e es)
  let ?label = "if many then Some (i + 1, excerpt (pe_find e)) else None"
  from Cons.prems have e: "borderless (pe_find e)" and es: "list_all (\<lambda>e. borderless (pe_find e)) es" by simp_all
  show ?case
  proof (cases "apply_edit ?label e body")
    case (Inl r)
    then have "\<not> replaces_once e body mid" for mid using apply_edit_replaces [OF e, of ?label body mid] by simp
    with Inl show ?thesis by simp
  next
    case (Inr m)
    then have "replaces_once e body mid \<longleftrightarrow> mid = m" for mid
      using apply_edit_replaces [OF e, of ?label body mid] by auto
    with Inr Cons.IH [OF es] show ?thesis by simp
  qed
qed

section \<open>The search for occurrences returns\<close>

text \<open>
  The loop of \<open>allIndexesOf\<close> as it is written, over the position (none for -1) and the list built so
  far; it has no value when it does not end.
\<close>

definition hits_step :: "string \<Rightarrow> string \<Rightarrow> nat option \<times> nat list \<Rightarrow> nat option \<times> nat list" where
  "hits_step haystack needle s =
     (case fst s of
        None \<Rightarrow> s
      | Some i \<Rightarrow> (index_of_from haystack needle (i + length needle), snd s @ [i]))"

definition hits_loop :: "string \<Rightarrow> string \<Rightarrow> nat list option" where
  "hits_loop haystack needle =
     map_option snd (while_option (\<lambda>s. fst s \<noteq> None) (hits_step haystack needle) (index_of haystack needle, []))"

lemma hits_while:
  assumes "needle \<noteq> []"
  shows "k \<le> length h \<Longrightarrow>
     while_option (\<lambda>s. fst s \<noteq> None) (hits_step h needle) (index_of_from h needle k, acc)
       = Some (None, acc @ indexes_from (drop k h) needle k)"
proof (induction "length h - k" arbitrary: k acc rule: less_induct)
  case less
  show ?case
  proof (cases "index_of (drop k h) needle")
    case None
    then show ?thesis
      using less.prems by (simp add: index_of_from_def while_option_unfold indexes_from.simps)
  next
    case (Some j)
    then have at: "index_of_from h needle k = Some (k + j)" using less.prems by (simp add: index_of_from_def min_def)
    have le: "k + j + length needle \<le> length h"
      using conjunct1 [OF index_of_Some [OF Some]] less.prems unfolding length_drop by linarith
    have "length h - (k + j + length needle) < length h - k" using le assms by (cases needle) auto
    from less.hyps [OF this le, of "acc @ [k + j]"] Some assms show ?thesis
      by (subst while_option_unfold, subst indexes_from.simps) (simp add: at hits_step_def add_ac)
  qed
qed

lemma hits_loop_empty: "hits_loop h [] = None"
proof -
  have start: "index_of h [] = Some 0" by (cases h) auto
  have step: "fst (hits_step h [] s) = Some 0" if "fst s = Some 0" for s
    using that by (cases h) (auto simp: hits_step_def index_of_from_def)
  have "while_option (\<lambda>s. fst s \<noteq> None) (hits_step h []) (Some 0, []) \<noteq> Some t" for t
  proof
    assume w: "while_option (\<lambda>s. fst s \<noteq> None) (hits_step h []) (Some 0, []) = Some t"
    have "fst t = Some 0"
      by (rule while_option_rule [OF _ w, where P = "\<lambda>s. fst s = Some 0"]) (auto intro: step)
    with while_option_stop [OF w] show False by simp
  qed
  then show ?thesis by (cases "while_option (\<lambda>s. fst s \<noteq> None) (hits_step h []) (Some 0, [])") (simp_all add: hits_loop_def start)
qed

text \<open>
  C29. The search for a text's occurrences, a loop with no bound of its own, returns exactly when the
  text is not empty, and then with the occurrences from the left that do not overlap; the empty text
  would keep it at the start of the page for ever, which is why an edit is refused before it is
  searched for.
\<close>

theorem allIndexesOf_returns:
  "hits_loop haystack needle = (if needle = [] then None else Some (allIndexesOf haystack needle))
   \<and> apply_edit label \<lparr>pe_find = [], pe_replace = r\<rparr> haystack = Inl (EmptyFind label)"
proof -
  have "index_of_from haystack needle 0 = index_of haystack needle"
    by (cases "index_of haystack needle") (simp_all add: index_of_from_def)
  then show ?thesis
    using hits_while [of needle 0 haystack "[]"] hits_loop_empty [of haystack]
    by (auto simp: hits_loop_def allIndexesOf_def apply_edit_def Let_def)
qed

text \<open>
  C28. A patch of the body does exactly what its arguments say or nothing: each edit replaces its text at
  the only place it stands at outside the generated snapshots, overlapping places counted, in the result
  of the edits before it; the addition goes behind the trimmed body; and any edit whose text stands at no
  such place or at several refuses the whole patch.  This is for texts that cannot overlap themselves: the
  code counts places from the left without overlaps (\<open>overlap_not_ambiguous\<close> below).
\<close>

theorem applyPageEdits_exact:
  assumes "list_all (\<lambda>e. borderless (pe_find e)) (case edits of Some es \<Rightarrow> es | None \<Rightarrow> [])"
  shows "(\<exists>notes. applyPageEdits body appended edits = Inr (next, notes)) \<longleftrightarrow>
     (\<exists>mid. edit_chain (case edits of Some es \<Rightarrow> es | None \<Rightarrow> []) body mid
        \<and> (case appended of
             None \<Rightarrow> edits \<notin> {None, Some []} \<and> next = mid
           | Some t \<Rightarrow>
               trim (drop_trailing is_space t) \<noteq> []
               \<and> next = (if drop_trailing is_space mid = [] then [] else drop_trailing is_space mid @ [NL, NL])
                         @ drop_trailing is_space t @ [NL]))"
proof -
  obtain es where es: "(case edits of Some es \<Rightarrow> es | None \<Rightarrow> []) = es" by blast
  have ne: "edits \<in> {None, Some []} \<longleftrightarrow> es = []" using es by (auto split: option.splits)
  note chain = apply_edits_chain [OF assms [unfolded es], of "1 < length es" 0 body]
  show ?thesis
  proof (cases "apply_edits (1 < length es) 0 es body")
    case (Inl r)
    then have "\<not> edit_chain es body mid" for mid using chain by simp
    with Inl show ?thesis unfolding applyPageEdits_def es Let_def by simp
  next
    case (Inr m)
    then have only: "edit_chain es body mid \<longleftrightarrow> mid = m" for mid using chain [of mid] by auto
    show ?thesis
      unfolding applyPageEdits_def es ne Let_def Inr only
      by (cases appended) (auto simp: append_to_def Let_def)
  qed
qed

theorem applyPageEdits_exact_witness:
  "(\<exists>notes. applyPageEdits ''a b'' (Some ''z'') (Some [\<lparr>pe_find = ''b'', pe_replace = ''c''\<rparr>]) = Inr (''a c'' @ [NL, NL] @ ''z'' @ [NL], notes))
   \<and> (\<exists>mid. edit_chain [\<lparr>pe_find = ''b'', pe_replace = ''c''\<rparr>] ''a b'' mid
        \<and> trim (drop_trailing is_space ''z'') \<noteq> []
        \<and> ''a c'' @ [NL, NL] @ ''z'' @ [NL] = (if drop_trailing is_space mid = [] then [] else drop_trailing is_space mid @ [NL, NL])
             @ drop_trailing is_space ''z'' @ [NL])"
proof -
  let ?es = "[\<lparr>pe_find = ''b'', pe_replace = ''c''\<rparr>]"
  have "applyPageEdits ''a b'' (Some ''z'') (Some ?es) = Inr (''a c'' @ [NL, NL] @ ''z'' @ [NL], [ReplacementsMade 1, LinesAppended 1])"
    by code_simp
  then have run: "\<exists>notes. applyPageEdits ''a b'' (Some ''z'') (Some ?es) = Inr (''a c'' @ [NL, NL] @ ''z'' @ [NL], notes)" by blast
  have "list_all (\<lambda>e. borderless (pe_find e)) (case Some ?es of Some es \<Rightarrow> es | None \<Rightarrow> [])" by code_simp
  from iffD1 [OF applyPageEdits_exact [OF this] run]
  have "\<exists>mid. edit_chain ?es ''a b'' mid
        \<and> trim (drop_trailing is_space ''z'') \<noteq> []
        \<and> ''a c'' @ [NL, NL] @ ''z'' @ [NL] = (if drop_trailing is_space mid = [] then [] else drop_trailing is_space mid @ [NL, NL])
             @ drop_trailing is_space ''z'' @ [NL]" by (simp only: option.case)
  with run show ?thesis by (rule conjI)
qed

text \<open>
  C24. Generated text is never touched: whatever an accepted edit replaces, every snapshot region of
  the page stands unchanged before the replacement or behind it.
\<close>

theorem edit_keeps_snapshots:
  assumes "apply_edit label e body = Inr next" and "(b, s) \<in> set (snapshotRanges body)"
  shows "\<exists>i. next = take i body @ pe_replace e @ drop (i + length (pe_find e)) body
     \<and> take (length (pe_find e)) (drop i body) = pe_find e
     \<and> (s \<le> i \<or> i + length (pe_find e) \<le> b)"
proof -
  from assms(1) obtain i where i: "live_hits body (pe_find e) = [i]"
    and n: "next = splice body i (length (pe_find e)) (pe_replace e)" by (auto simp: apply_edit_Inr)
  then have "i \<in> set (live_hits body (pe_find e))" by simp
  then have hit: "i \<in> set (allIndexesOf body (pe_find e))"
    and "\<not> in_snapshot (snapshotRanges body) (length (pe_find e)) i" by (simp_all add: live_hits_def)
  then have "s \<le> i \<or> i + length (pe_find e) \<le> b"
    using assms(2) by (auto simp: in_snapshot_def list_ex_iff not_less)
  with n hit indexes_from_occurrence [of i body "pe_find e" 0] show ?thesis
    by (auto simp: splice_def allIndexesOf_def)
qed

theorem edit_keeps_snapshots_witness:
  "let body = ''x'' @ [NL] @ SNAPSHOT_BEGIN @ [NL] @ ''- x'' @ [NL] @ SNAPSHOT_END in
   apply_edit None \<lparr>pe_find = ''x'', pe_replace = ''y''\<rparr> body = Inr (''y'' @ tl body)
   \<and> (\<exists>i. ''y'' @ tl body = take i body @ ''y'' @ drop (i + 1) body \<and> take 1 (drop i body) = ''x'' \<and> (105 \<le> i \<or> i + 1 \<le> 2))"
proof -
  let ?body = "''x'' @ [NL] @ SNAPSHOT_BEGIN @ [NL] @ ''- x'' @ [NL] @ SNAPSHOT_END"
  let ?e = "\<lparr>pe_find = ''x'', pe_replace = ''y''\<rparr>"
  have run: "apply_edit None ?e ?body = Inr (''y'' @ tl ?body)" by code_simp
  have "snapshotRanges ?body = [(2, 105)]" by code_simp
  then have "(2, 105) \<in> set (snapshotRanges ?body)" by simp
  from edit_keeps_snapshots [OF run this] run show ?thesis by (simp add: Let_def)
qed

section \<open>Fields are merged\<close>

text \<open>What a merge patch says of one key: set, removed, or left alone.\<close>

definition merged :: "(string \<rightharpoonup> fm_value) \<Rightarrow> field_patch \<Rightarrow> string \<rightharpoonup> fm_value" where
  "merged m patch k =
     (case map_of patch k of
        None \<Rightarrow> m k
      | Some v \<Rightarrow> if v = FieldNull then None else Some (normalize_value v))"

lemma first_refusal_None: "first_refusal es = None \<longleftrightarrow> list_all (\<lambda>e. check_entry e = None) es"
  by (induction es) (auto split: option.split)

lemma patch_entry_map:
  assumes "patch_entry fm (key, v) p = Inr q" "map_of (pf_frontmatter p) key = map_of fm key" "key \<noteq> ''__proto__''"
  shows "map_of (pf_frontmatter q)
     = (map_of (pf_frontmatter p))(key := (if v = FieldNull then None else Some (normalize_value v)))"
proof (cases "v = FieldNull")
  case True
  show ?thesis
  proof (cases "obj_in key (pf_frontmatter p)")
    case False
    then have "map_of (pf_frontmatter p) key = None" by (auto simp: obj_in_def map_of_eq_None_iff)
    with False True assms(1) show ?thesis by (auto simp: patch_entry_def fun_upd_idem split: if_splits)
  next
    case True
    with \<open>v = FieldNull\<close> assms(1) show ?thesis by (auto simp: patch_entry_def split: if_splits)
  qed
next
  case False
  show ?thesis
  proof (cases "sameValue (map_of fm key) (normalize_value v)")
    case True
    then have "map_of fm key = Some (normalize_value v)" by (auto simp: sameValue_def split: option.splits)
    with assms True False show ?thesis by (auto simp: patch_entry_def fun_upd_idem split: if_splits)
  next
    case F: False
    with assms False show ?thesis by (auto simp: patch_entry_def map_of_obj_set split: if_splits)
  qed
qed

lemma patch_entries_map:
  assumes "patch_entries fm es p = Inr q" "distinct (keys_of es)" "''__proto__'' \<notin> set (keys_of es)"
    and "\<forall>k \<in> set (keys_of es). map_of (pf_frontmatter p) k = map_of fm k"
  shows "map_of (pf_frontmatter q) k
     = (case map_of es k of None \<Rightarrow> map_of (pf_frontmatter p) k
        | Some v \<Rightarrow> if v = FieldNull then None else Some (normalize_value v))"
  using assms
proof (induction es arbitrary: p)
  case Nil
  then show ?case by simp
next
  case (Cons e es)
  obtain key v where e: "e = (key, v)" by (cases e)
  from Cons.prems(1) obtain m where m: "patch_entry fm (key, v) p = Inr m" and rest: "patch_entries fm es m = Inr q"
    unfolding e by (auto split: sum.splits)
  have key: "key \<notin> set (keys_of es)" "key \<noteq> ''__proto__''" using Cons.prems(2,3) e by auto
  have upd: "map_of (pf_frontmatter m)
      = (map_of (pf_frontmatter p))(key := (if v = FieldNull then None else Some (normalize_value v)))"
    using patch_entry_map [OF m] Cons.prems(4) key(2) e by simp
  have "\<forall>k \<in> set (keys_of es). map_of (pf_frontmatter m) k = map_of fm k"
    using Cons.prems(4) key(1) e upd by auto
  from Cons.IH [OF rest _ _ this] Cons.prems(2,3) e
  have q: "map_of (pf_frontmatter q) k
     = (case map_of es k of None \<Rightarrow> map_of (pf_frontmatter m) k
        | Some v \<Rightarrow> if v = FieldNull then None else Some (normalize_value v))" by simp
  show ?case
  proof (cases "k = key")
    case True
    then have "map_of es k = None" using key(1) by (simp add: map_of_eq_None_iff)
    with q upd e True show ?thesis by simp
  next
    case False
    with q upd e show ?thesis by (cases "map_of es k") simp_all
  qed
qed

lemma patch_entries_blocks:
  "patch_entries fm es p = Inr q \<Longrightarrow> list_all (\<lambda>e. \<not> isFrontmatterBlock (map_of fm (fst e))) es"
proof (induction es arbitrary: p)
  case Nil
  then show ?case by simp
next
  case (Cons e es)
  then show ?case by (cases e) (auto simp: patch_entry_def split: sum.splits if_splits)
qed

lemma good_patch_key:
  "validateFieldPatch patch = None \<Longrightarrow> e \<in> set patch \<Longrightarrow>
     is_field_key (fst e) \<and> fst e \<notin> set MANAGED_FIELD_KEYS \<and> snd e \<noteq> FieldObject"
  by (auto simp: validateFieldPatch_def first_refusal_None list_all_iff check_entry_def split: if_splits)

lemma applyFieldPatch_map:
  assumes ok: "applyFieldPatch fm patch = Inr p"
    and js: "distinct (keys_of fm)" "distinct (keys_of patch)" "''__proto__'' \<notin> set (keys_of patch)"
  shows "map_of (pf_frontmatter p) = merged (map_of fm) patch
     \<and> (\<forall>k \<in> set (keys_of patch).
          is_field_key k \<and> k \<notin> set MANAGED_FIELD_KEYS \<and> \<not> isFrontmatterBlock (map_of fm k))"
proof -
  from ok have valid: "validateFieldPatch patch = None"
    and run: "patch_entries fm patch \<lparr>pf_frontmatter = obj_spread [] fm, pf_set = [], pf_removed = []\<rparr> = Inr p"
    by (auto simp: applyFieldPatch_def split: option.splits)
  have "map_of (pf_frontmatter p) k = merged (map_of fm) patch k" for k
    using patch_entries_map [OF run js(2,3), of k] map_of_spread_self [OF js(1)] unfolding merged_def
    by (cases "map_of patch k") simp_all
  then have "map_of (pf_frontmatter p) = merged (map_of fm) patch" by (rule ext)
  moreover have "is_field_key k \<and> k \<notin> set MANAGED_FIELD_KEYS \<and> \<not> isFrontmatterBlock (map_of fm k)"
    if "k \<in> set (keys_of patch)" for k
    using that good_patch_key [OF valid] patch_entries_blocks [OF run] by (auto simp: list_all_iff)
  ultimately show ?thesis by blast
qed



text \<open>A patch keeps the frontmatter an object in enumeration order.\<close>

lemma patch_entries_enumerated:
  "patch_entries fm es p = Inr q \<Longrightarrow> enumerated (pf_frontmatter p) \<Longrightarrow> enumerated (pf_frontmatter q)"
proof (induction es arbitrary: p)
  case Nil
  then show ?case by simp
next
  case (Cons e es)
  then show ?case
    by (cases e) (auto simp: patch_entry_def enumerated_set enumerated_delete split: sum.splits if_splits)
qed

lemma applyFieldPatch_enumerated: "applyFieldPatch fm patch = Inr p \<Longrightarrow> enumerated (pf_frontmatter p)"
  using patch_entries_enumerated
  by (fastforce simp: applyFieldPatch_def enumerated_spread_into split: option.splits)

text \<open>Keys a patch does not name, the managed ones among them, keep their values.\<close>

lemma patch_entries_other:
  "patch_entries fm es p = Inr q \<Longrightarrow> k \<notin> set (keys_of es) \<Longrightarrow>
     map_of (pf_frontmatter q) k = map_of (pf_frontmatter p) k"
proof (induction es arbitrary: p)
  case Nil
  then show ?case by simp
next
  case (Cons e es)
  then show ?case
    by (cases e) (auto simp: patch_entry_def obj_set_def map_of_obj_delete map_of_obj_define split: sum.splits if_splits)
qed

lemma applyFieldPatch_managed:
  assumes "applyFieldPatch fm patch = Inr p" "k \<in> set MANAGED_FIELD_KEYS" "enumerated fm"
  shows "map_of (pf_frontmatter p) k = map_of fm k"
proof -
  from assms(1) have valid: "validateFieldPatch patch = None"
    and run: "patch_entries fm patch \<lparr>pf_frontmatter = obj_spread [] fm, pf_set = [], pf_removed = []\<rparr> = Inr p"
    by (auto simp: applyFieldPatch_def split: option.splits)
  have "k \<notin> set (keys_of patch)" using good_patch_key [OF valid] assms(2) by auto
  from patch_entries_other [OF run this] enumerated_spread [OF assms(3)] show ?thesis by simp
qed

section \<open>Where the code and its comments part\<close>

text \<open>Removing a key the page does not have is counted as a change when every object inherits the name.\<close>

lemma inherited_key_removed:
  "applyFieldPatch [] [(''constructor'', FieldNull)]
     = Inr \<lparr>pf_frontmatter = [], pf_set = [], pf_removed = [''constructor'']\<rparr>"
  by code_simp

text \<open>Occurrences that overlap are counted once, so a text that stands twice can pass as unique.\<close>

lemma overlap_not_ambiguous:
  "apply_edit None \<lparr>pe_find = ''--'', pe_replace = ''x''\<rparr> ''a---b'' = Inr ''ax-b''"
  by code_simp

end
