(* ===== verification/PageWrite.thy ===== *)
theory PageWrite
  imports PagePatch PathPolicy
begin

text \<open>
  What \<open>write_page\<close> does with its arguments, decided without touching a repository
  (\<open>src/lib/page-write.ts\<close>): the refusals that need no page, the plan for the page as it stands, and
  the new file of a create and of an update.
\<close>

section \<open>Arguments\<close>

datatype write_mode = CreateMode | UpdateMode | UpsertMode

record page_args =
  pa_path :: string
  pa_content :: "string option"
  pa_append :: "string option"
  pa_edits :: "page_edit list option"
  pa_title :: "string option"
  pa_type :: "string option"
  pa_description :: "string option"
  pa_status :: "string option"
  pa_fields :: "field_patch option"
  pa_sources :: "string list option"
  pa_mode :: "write_mode option"
  pa_sha :: "string option"

record page_blob =
  pb_content :: string
  pb_sha :: string

datatype page_refusal =
    NotMarkdown
  | ContentAndPatch
  | PathRefused write_refusal
  | FieldsRefused field_refusal
  | NothingToPatch string bool
  | NoSuchPage string
  | PageExists string
  | PageChanged
  | NothingToUpdate
  | BodyRefused patch_refusal

definition isPatching :: "page_args \<Rightarrow> bool" where
  "isPatching args \<longleftrightarrow> pa_append args \<noteq> None \<or> pa_edits args \<notin> {None, Some []}"

definition checkPageWrite :: "page_args \<Rightarrow> path_policy \<Rightarrow> page_refusal + string" where
  "checkPageWrite args cfg =
     (let target = normPagePath (pa_path args) in
      if \<not> ends_with target ''.md'' then Inl NotMarkdown
      else if isPatching args \<and> pa_content args \<noteq> None then Inl ContentAndPatch
      else (case writeRefusal target cfg Written False of
              Some r \<Rightarrow> Inl (PathRefused r)
            | None \<Rightarrow>
                (case (case pa_fields args of Some p \<Rightarrow> validateFieldPatch p | None \<Rightarrow> None) of
                   Some r \<Rightarrow> Inl (FieldsRefused r)
                 | None \<Rightarrow> Inr target)))"

datatype page_plan = PlanCreate | PlanUpdate "(string \<times> patch_note list) option"

definition sets_metadata :: "page_args \<Rightarrow> bool" where
  "sets_metadata args \<longleftrightarrow>
     pa_title args \<noteq> None \<or> pa_type args \<noteq> None \<or> pa_description args \<noteq> None
     \<or> pa_status args \<noteq> None \<or> pa_fields args \<noteq> None"

definition planPageWrite :: "page_args \<Rightarrow> string \<Rightarrow> page_blob option \<Rightarrow> path_policy \<Rightarrow> page_refusal + page_plan" where
  "planPageWrite args target existing cfg =
     (let patching = isPatching args; mode = (case pa_mode args of Some m \<Rightarrow> m | None \<Rightarrow> UpsertMode) in
      case existing of
        None \<Rightarrow>
          (if patching then Inl (NothingToPatch target (pa_append args \<noteq> None))
           else if mode = UpdateMode then Inl (NoSuchPage target)
           else (case writeRefusal target cfg Written True of
                   Some r \<Rightarrow> Inl (PathRefused r)
                 | None \<Rightarrow> Inr PlanCreate))
      | Some page \<Rightarrow>
          (if mode = CreateMode then Inl (PageExists target)
           else if pa_sha args \<noteq> None \<and> pa_sha args \<noteq> Some (pb_sha page) then Inl PageChanged
           else if pa_content args = None \<and> \<not> patching \<and> \<not> sets_metadata args then Inl NothingToUpdate
           else if \<not> patching then Inr (PlanUpdate None)
           else (case applyPageEdits (snd (parseFrontmatter (pb_content page))) (pa_append args) (pa_edits args) of
                   Inl r \<Rightarrow> Inl (BodyRefused r)
                 | Inr patch \<Rightarrow> Inr (PlanUpdate (Some patch)))))"

section \<open>A new page\<close>

definition splitProvidedContent :: "string \<Rightarrow> frontmatter \<times> string" where
  "splitProvidedContent content =
     (case parseFrontmatter content of
        (None, _) \<Rightarrow> ([], content)
      | (Some fm, body) \<Rightarrow> (fm, body))"

definition text_of :: "string option \<Rightarrow> string" where
  "text_of a = (case a of Some s \<Rightarrow> s | None \<Rightarrow> [])"

definition scalar_of :: "fm_value option \<Rightarrow> string option" where
  "scalar_of v = (case v of Some (Scalar s) \<Rightarrow> Some s | _ \<Rightarrow> None)"

definition optional_field :: "string \<Rightarrow> string \<Rightarrow> frontmatter" where
  "optional_field k s = (if s \<noteq> [] then [(k, Scalar s)] else [])"

record composed_create =
  cc_content :: string
  cc_title :: string
  cc_status :: "string option"

definition create_title :: "string \<Rightarrow> page_args \<Rightarrow> string" where
  "create_title target args =
     (let t = given (pa_title args) in if t \<noteq> [] then t else pageTitle target (text_of (pa_content args)))"

definition managed_fields :: "string \<Rightarrow> page_args \<Rightarrow> frontmatter \<Rightarrow> string \<Rightarrow> frontmatter" where
  "managed_fields title args provided today =
     (let declared = (case scalar_of (map_of provided ''type'') of Some s \<Rightarrow> trim s | None \<Rightarrow> []);
          type = (if given (pa_type args) \<noteq> [] then given (pa_type args) else declared);
          sources = (case pa_sources args of Some xs \<Rightarrow> xs | None \<Rightarrow> [])
      in optional_field ''type'' type @ [(''title'', Scalar title)]
         @ optional_field ''description'' (text_of (pa_description args))
         @ optional_field ''status'' (text_of (pa_status args)) @ [(''updated'', Scalar today)]
         @ (if sources \<noteq> [] then [(''sources'', Items sources)] else []))"

definition create_fields :: "string \<Rightarrow> page_args \<Rightarrow> frontmatter \<Rightarrow> string \<Rightarrow> frontmatter" where
  "create_fields title args provided today =
     (let managed = managed_fields title args provided today in
      obj_spread managed (obj_spread [] (filter (\<lambda>e. \<not> obj_in (fst e) managed) provided)))"

definition composeCreate :: "string \<Rightarrow> page_args \<Rightarrow> string \<Rightarrow> page_refusal + composed_create" where
  "composeCreate target args today =
     (let title = create_title target args; (provided, body) = splitProvidedContent (text_of (pa_content args));
          fm = create_fields title args provided today in
      case (case pa_fields args of
              Some p \<Rightarrow> (case applyFieldPatch fm p of Inl r \<Rightarrow> Inl r | Inr q \<Rightarrow> Inr (pf_frontmatter q))
            | None \<Rightarrow> Inr fm) of
        Inl r \<Rightarrow> Inl (FieldsRefused r)
      | Inr fm' \<Rightarrow>
          Inr \<lparr>cc_content = withFrontmatter fm' body, cc_title = title,
               cc_status = scalar_of (map_of fm' ''status'')\<rparr>)"

section \<open>An existing page\<close>

datatype update_note =
    BodyPatched "patch_note list"
  | BodyReplaced nat nat
  | FieldsChanged "string list" "string list"
  | TooManyKeys nat nat

record composed_update =
  cu_content :: string
  cu_label :: string
  cu_retitledFrom :: "string option"
  cu_statusChanged :: "string option"
  cu_notes :: "update_note list"

definition line_count :: "string \<Rightarrow> nat" where
  "line_count s = (if trim s \<noteq> [] then length (split_on NL (trim s)) else 0)"

definition provided_update :: "string \<Rightarrow> page_args \<Rightarrow> (string \<times> patch_note list) option \<Rightarrow> frontmatter \<times> string" where
  "provided_update oldBody args raw =
     (case raw of
        Some (body, _) \<Rightarrow> ([], body)
      | None \<Rightarrow> (case pa_content args of Some c \<Rightarrow> splitProvidedContent c | None \<Rightarrow> ([], oldBody)))"

definition update_title :: "frontmatter option \<Rightarrow> page_args \<Rightarrow> string option" where
  "update_title oldFm args =
     (case pa_title args of
        Some t \<Rightarrow> Some t
      | None \<Rightarrow> scalar_of (Option.bind oldFm (\<lambda>fm. map_of fm ''title'')))"

text \<open>What the call itself sets, in the order it is merged.\<close>

definition update_sets :: "frontmatter option \<Rightarrow> page_args \<Rightarrow> string \<Rightarrow> frontmatter" where
  "update_sets oldFm args today =
     optional_field ''title'' (text_of (update_title oldFm args))
     @ optional_field ''type'' (given (pa_type args))
     @ optional_field ''description'' (text_of (pa_description args))
     @ optional_field ''status'' (text_of (pa_status args)) @ [(''updated'', Scalar today)]"

definition update_fields :: "frontmatter option \<Rightarrow> frontmatter \<Rightarrow> page_args \<Rightarrow> string \<Rightarrow> frontmatter" where
  "update_fields oldFm provided args today =
     obj_spread (obj_spread (obj_spread [] (case oldFm of Some fm \<Rightarrow> fm | None \<Rightarrow> [])) provided)
       (update_sets oldFm args today)"

definition body_notes :: "string \<Rightarrow> string \<Rightarrow> page_args \<Rightarrow> (string \<times> patch_note list) option \<Rightarrow> update_note list" where
  "body_notes oldBody body args raw =
     (case raw of
        Some (_, summary) \<Rightarrow> [BodyPatched summary]
      | None \<Rightarrow>
          if pa_content args \<noteq> None \<and> trim body \<noteq> trim oldBody
          then [BodyReplaced (line_count oldBody) (line_count body)] else [])"

text \<open>The fields of an update after the patch, and the notes the patch adds.\<close>

definition patched_update ::
  "frontmatter \<Rightarrow> page_args \<Rightarrow> nat \<Rightarrow> field_refusal + frontmatter \<times> update_note list" where
  "patched_update fm args maxIndexedKeys =
     (case pa_fields args of
        None \<Rightarrow> Inr (fm, [])
      | Some p \<Rightarrow>
          (case applyFieldPatch fm p of
             Inl r \<Rightarrow> Inl r
           | Inr q \<Rightarrow>
               (let keys = length (pf_frontmatter q) in
                Inr (pf_frontmatter q,
                     FieldsChanged (pf_set q) (pf_removed q)
                     # (if maxIndexedKeys < keys then [TooManyKeys keys maxIndexedKeys] else [])))))"

definition composeUpdate ::
  "string \<Rightarrow> string \<Rightarrow> page_args \<Rightarrow> (string \<times> patch_note list) option \<Rightarrow> string \<Rightarrow> nat
     \<Rightarrow> page_refusal + composed_update" where
  "composeUpdate path existingContent args raw today maxIndexedKeys =
     (let (oldFm, oldBody) = parseFrontmatter existingContent;
          (provided, body) = provided_update oldBody args raw;
          oldTitle = scalar_of (Option.bind oldFm (\<lambda>fm. map_of fm ''title''));
          newTitle = update_title oldFm args;
          manageFm = (oldFm \<noteq> None \<or> sets_metadata args);
          oldStatus = Option.bind oldFm (\<lambda>fm. map_of fm ''status'');
          status = text_of (pa_status args) in
      case (if manageFm then patched_update (update_fields oldFm provided args today) args maxIndexedKeys
            else Inr ([], [])) of
        Inl r \<Rightarrow> Inl (FieldsRefused r)
      | Inr (fm, notes) \<Rightarrow>
          Inr \<lparr>cu_content = (if manageFm then withFrontmatter fm body else body),
               cu_label = (case newTitle of Some t \<Rightarrow> t | None \<Rightarrow> path),
               cu_retitledFrom = (if text_of (pa_title args) \<noteq> [] \<and> text_of oldTitle \<noteq> [] \<and> pa_title args \<noteq> oldTitle
                                  then oldTitle else None),
               cu_statusChanged = (if status \<noteq> [] \<and> oldStatus \<noteq> Some (Scalar status) then Some status else None),
               cu_notes = body_notes oldBody body args raw @ notes\<rparr>)"

section \<open>Nothing is overwritten unread\<close>

text \<open>
  C21. The plan never clobbers: a create is planned only where no page exists, on editable content,
  with a body and not a patch; an update only on a page that exists, never in mode create, and when
  the caller names the version it opened, only on that version.
\<close>

theorem planPageWrite_never_clobbers:
  "case planPageWrite args target existing cfg of
     Inl _ \<Rightarrow> True
   | Inr PlanCreate \<Rightarrow>
       existing = None \<and> \<not> isPatching args \<and> pa_mode args \<noteq> Some UpdateMode \<and> role_spec target cfg = ContentRole
   | Inr (PlanUpdate patch) \<Rightarrow>
       (\<exists>page. existing = Some page \<and> pa_mode args \<noteq> Some CreateMode \<and> pa_sha args \<in> {None, Some (pb_sha page)}
          \<and> (isPatching args \<longleftrightarrow> patch \<noteq> None)
          \<and> \<not> (pa_content args = None \<and> \<not> isPatching args \<and> \<not> sets_metadata args))"
proof (cases existing)
  case None
  have "writeRefusal target cfg Written True = None \<Longrightarrow> role_spec target cfg = ContentRole"
    by (cases "role_spec target cfg")
       (simp_all add: writeRefusal_def isSourcePath_def isToolMaintained_def isContentPath_def roleOf_longest_prefix_rule)
  with None show ?thesis by (auto simp: planPageWrite_def Let_def split: option.splits)
next
  case (Some page)
  then show ?thesis
    by (auto simp: planPageWrite_def Let_def split: option.splits sum.splits)
qed

section \<open>An update keeps what it is not told to change\<close>

definition patch_of :: "page_args \<Rightarrow> field_patch" where
  "patch_of args = (case pa_fields args of Some p \<Rightarrow> p | None \<Rightarrow> [])"

lemma distinct_update_sets: "distinct (keys_of (update_sets oldFm args today))"
  by (simp add: update_sets_def optional_field_def)

lemma map_of_update_fields:
  "distinct (keys_of fm) \<Longrightarrow>
     map_of (update_fields (Some fm) [] args today) = map_of fm ++ map_of (update_sets (Some fm) args today)"
  using map_of_rev_distinct [OF distinct_update_sets [of "Some fm" args today]]
  by (simp add: update_fields_def map_of_obj_spread map_of_rev_distinct)

lemma update_fields_enumerated: "enumerated (update_fields oldFm provided args today)"
  by (simp add: update_fields_def enumerated_spread_into)

lemma patched_update_map:
  assumes "patched_update fm args maxk = Inr (fm', ns)" "enumerated fm"
    and "distinct (keys_of (patch_of args))" "''__proto__'' \<notin> set (keys_of (patch_of args))"
  shows "enumerated fm' \<and> map_of fm' = merged (map_of fm) (patch_of args)"
proof (cases "pa_fields args")
  case None
  with assms(1,2) show ?thesis by (auto simp: patched_update_def patch_of_def merged_def)
next
  case (Some p)
  with assms(1) obtain q where q: "applyFieldPatch fm p = Inr q" "fm' = pf_frontmatter q"
    by (auto simp: patched_update_def Let_def split: sum.splits)
  have "distinct (keys_of fm)" using assms(2) by (simp add: enumerated_def)
  from applyFieldPatch_map [OF q(1) this] applyFieldPatch_enumerated [OF q(1)] q(2) assms(3,4) Some
  show ?thesis by (simp add: patch_of_def)
qed

text \<open>
  C25. A write that carries no body is a write of metadata: the page keeps its body, and its fields
  are the old ones overridden by what the call sets, merged with its patch, in every other key
  untouched, nested YAML included; and where every field of the result is one the reader takes back
  (\<open>good_entry\<close>: one line, trimmed, no comment mark, no item that looks like a mapping), the saved page
  reads back as exactly those fields.  This is for a page that has frontmatter.
\<close>

theorem composeUpdate_metadata_only:
  assumes run: "composeUpdate path existing args None today maxk = Inr c"
    and page: "parseFrontmatter existing = (Some fm, body)" and meta: "pa_content args = None"
    and patch: "distinct (keys_of (patch_of args))" "''__proto__'' \<notin> set (keys_of (patch_of args))"
  shows "\<exists>fm'. cu_content c = withFrontmatter fm' body
     \<and> map_of fm' = merged (map_of fm ++ map_of (update_sets (Some fm) args today)) (patch_of args)
     \<and> (list_all good_entry fm' \<longrightarrow>
          parseFrontmatter (cu_content c) = (Some fm', dropWhile (\<lambda>ch. ch = NL) body))"
proof -
  let ?new = "update_fields (Some fm) [] args today"
  from run page meta obtain fm' ns where p: "patched_update ?new args maxk = Inr (fm', ns)"
    and c: "cu_content c = withFrontmatter fm' body"
    by (auto simp: composeUpdate_def provided_update_def Let_def split: sum.splits)
  have "enumerated fm" using parsed_enumerated [of existing fm] page by simp
  then have "distinct (keys_of fm)" by (simp add: enumerated_def)
  with patched_update_map [OF p update_fields_enumerated patch]
  have "enumerated fm'" "map_of fm' = merged (map_of fm ++ map_of (update_sets (Some fm) args today)) (patch_of args)"
    by (simp_all add: map_of_update_fields)
  with c frontmatter_reads_back [OF enumerated_js_object] show ?thesis by auto
qed

lemma map_of_obj_in: "map_of ob k = Some v \<Longrightarrow> obj_in k ob"
  by (force simp: obj_in_def dest: map_of_SomeD)

lemma map_of_filter_key: "map_of (filter (\<lambda>e. P (fst e)) xs) k = (if P k then map_of xs k else None)"
  by (induction xs) auto

text \<open>
  A new page keeps what its author wrote in its frontmatter: every key this call sets no value
  for, and that is no inherited name, has the value the content gave it; the body follows unchanged.
\<close>

theorem composeCreate_keeps_provided:
  assumes run: "composeCreate target args today = Inr c" and content: "pa_content args = Some md"
    and page: "parseFrontmatter md = (Some fm, body)" and none: "pa_fields args = None"
  shows "\<exists>fm'. cc_content c = withFrontmatter fm' body
     \<and> map_of fm' ''title'' = Some (Scalar (cc_title c)) \<and> map_of fm' ''updated'' = Some (Scalar today)
     \<and> (\<forall>k v. map_of fm k = Some v \<and> k \<notin> {''type'', ''title'', ''description'', ''status'', ''updated'', ''sources''}
            \<and> k \<notin> set object_prototype_keys \<longrightarrow> map_of fm' k = Some v)"
proof -
  let ?m = "managed_fields (create_title target args) args fm today"
  let ?fm' = "create_fields (create_title target args) args fm today"
  from run content page none have c: "cc_content c = withFrontmatter ?fm' body" "cc_title c = create_title target args"
    by (auto simp: composeCreate_def splitProvidedContent_def text_of_def Let_def)
  have keys: "set (keys_of ?m) \<subseteq> {''type'', ''title'', ''description'', ''status'', ''updated'', ''sources''}"
    by (auto simp: managed_fields_def optional_field_def Let_def split: if_splits)
  have vals: "map_of ?m ''title'' = Some (Scalar (create_title target args))" "map_of ?m ''updated'' = Some (Scalar today)"
    by (auto simp: managed_fields_def optional_field_def Let_def)
  let ?rest = "filter (\<lambda>e. \<not> obj_in (fst e) ?m) fm"
  have d: "distinct (keys_of fm)" using parsed_enumerated [of md fm] page by (simp add: enumerated_def)
  then have dr: "distinct (keys_of ?rest)" by (simp add: distinct_map_filter)
  have sp: "enumerated (obj_spread [] ?rest)" by (simp add: enumerated_spread_into)
  then have "map_of (rev (obj_spread [] ?rest)) = map_of ?rest"
    using dr by (simp add: map_of_rev_distinct map_of_spread_self enumerated_def)
  then have fm': "map_of ?fm' = map_of ?m ++ map_of ?rest"
    by (simp add: create_fields_def Let_def map_of_obj_spread)
  have out: "map_of ?rest k = (if obj_in k ?m then None else map_of fm k)" for k
    using map_of_filter_key [of "\<lambda>k. \<not> obj_in k ?m" fm k] by simp
  have "obj_in ''title'' ?m" "obj_in ''updated'' ?m"
    using vals by (auto intro: map_of_obj_in)
  then have "map_of ?fm' ''title'' = Some (Scalar (cc_title c))" "map_of ?fm' ''updated'' = Some (Scalar today)"
    using vals c(2) by (simp_all add: fm' out map_add_def)
  moreover have "map_of ?fm' k = Some v" if "map_of fm k = Some v"
    "k \<notin> {''type'', ''title'', ''description'', ''status'', ''updated'', ''sources''}" "k \<notin> set object_prototype_keys" for k v
  proof -
    have "\<not> obj_in k ?m" using that(2,3) keys by (auto simp: obj_in_def)
    with that(1) show ?thesis by (simp add: fm' out map_add_def)
  qed
  ultimately show ?thesis
    by (intro exI [of _ ?fm'] conjI allI impI) (use c(1) in simp_all)
qed

theorem composeUpdate_metadata_only_witness:
  "\<exists>c fm'. composeUpdate ''w/a.md'' (withFrontmatter [(''title'', Scalar ''T''), (''owner'', Scalar ''ada'')] ''Body'')
      \<lparr>pa_path = ''w/a.md'', pa_content = None, pa_append = None, pa_edits = None, pa_title = None, pa_type = None,
       pa_description = None, pa_status = Some ''stable'', pa_fields = Some [(''due'', FieldText ''x'')],
       pa_sources = None, pa_mode = None, pa_sha = None\<rparr> None ''2026-01-02'' 32 = Inr c
     \<and> cu_content c = withFrontmatter fm' ''Body'' \<and> map_of fm' ''owner'' = Some (Scalar ''ada'')
     \<and> map_of fm' ''due'' = Some (Scalar ''x'') \<and> map_of fm' ''status'' = Some (Scalar ''stable'')"
proof -
  let ?fm = "[(''title'', Scalar ''T''), (''owner'', Scalar ''ada'')]"
  let ?md = "withFrontmatter ?fm ''Body''"
  let ?args = "\<lparr>pa_path = ''w/a.md'', pa_content = None, pa_append = None, pa_edits = None, pa_title = None, pa_type = None,
       pa_description = None, pa_status = Some ''stable'', pa_fields = Some [(''due'', FieldText ''x'')],
       pa_sources = None, pa_mode = None, pa_sha = None\<rparr> :: page_args"
  have "js_object ?fm" "list_all good_entry ?fm" by code_simp+
  then have page: "parseFrontmatter ?md = (Some ?fm, ''Body'')" using frontmatter_reads_back by simp
  have "case composeUpdate ''w/a.md'' ?md ?args None ''2026-01-02'' 32 of Inl _ \<Rightarrow> False | Inr _ \<Rightarrow> True"
    by code_simp
  then obtain c where c: "composeUpdate ''w/a.md'' ?md ?args None ''2026-01-02'' 32 = Inr c"
    by (auto split: sum.splits)
  have "distinct (keys_of (patch_of ?args))" "''__proto__'' \<notin> set (keys_of (patch_of ?args))"
    by (simp_all add: patch_of_def)
  from composeUpdate_metadata_only [OF c page _ this] obtain fm' where "cu_content c = withFrontmatter fm' ''Body''"
    "map_of fm' = merged (map_of ?fm ++ map_of (update_sets (Some ?fm) ?args ''2026-01-02'')) (patch_of ?args)" by auto
  then show ?thesis using c
    by (intro exI [of _ c] exI [of _ fm'])
       (simp add: merged_def patch_of_def update_sets_def update_title_def optional_field_def text_of_def given_def
          scalar_of_def normalize_value_def)
qed

theorem composeCreate_keeps_provided_witness:
  "\<exists>c. composeCreate ''w/a.md''
      \<lparr>pa_path = ''w/a.md'', pa_content = Some (withFrontmatter [(''owner'', Scalar ''ada'')] ''Body''), pa_append = None,
       pa_edits = None, pa_title = Some ''T'', pa_type = None, pa_description = None, pa_status = None, pa_fields = None,
       pa_sources = None, pa_mode = None, pa_sha = None\<rparr> ''2026-01-02'' = Inr c
     \<and> (\<exists>fm'. cc_content c = withFrontmatter fm' ''Body'' \<and> map_of fm' ''owner'' = Some (Scalar ''ada''))"
proof -
  let ?md = "withFrontmatter [(''owner'', Scalar ''ada'')] ''Body''"
  let ?args = "\<lparr>pa_path = ''w/a.md'', pa_content = Some ?md, pa_append = None, pa_edits = None, pa_title = Some ''T'',
       pa_type = None, pa_description = None, pa_status = None, pa_fields = None, pa_sources = None, pa_mode = None,
       pa_sha = None\<rparr> :: page_args"
  have "js_object [(''owner'', Scalar ''ada'')]" "list_all good_entry [(''owner'', Scalar ''ada'')]" by code_simp+
  then have page: "parseFrontmatter ?md = (Some [(''owner'', Scalar ''ada'')], ''Body'')" using frontmatter_reads_back by simp
  have "\<exists>c. composeCreate ''w/a.md'' ?args ''2026-01-02'' = Inr c"
    by (simp add: composeCreate_def splitProvidedContent_def text_of_def page Let_def)
  then obtain c where c: "composeCreate ''w/a.md'' ?args ''2026-01-02'' = Inr c" by blast
  have "''owner'' \<notin> set object_prototype_keys" by code_simp
  with composeCreate_keeps_provided [OF c _ page] c show ?thesis by auto
qed

section \<open>The frontmatter a save writes\<close>

text \<open>
  What the frontmatter of a saved page is: an object as JavaScript lists one (no key twice, the
  integer keys first and ascending), dated with the day of the save.
\<close>

definition saved_frontmatter :: "string \<Rightarrow> frontmatter \<Rightarrow> bool" where
  "saved_frontmatter today fm \<longleftrightarrow> enumerated fm \<and> map_of fm ''updated'' = Some (Scalar today)"

lemma patch_keeps_saved:
  "applyFieldPatch fm patch = Inr p \<Longrightarrow> saved_frontmatter today fm \<Longrightarrow> saved_frontmatter today (pf_frontmatter p)"
  by (simp add: saved_frontmatter_def applyFieldPatch_enumerated applyFieldPatch_managed MANAGED_FIELD_KEYS_def)

lemma managed_fields_saved: "saved_frontmatter today (managed_fields title args provided today)"
proof -
  have "\<not> is_array_index k" if "k \<in> {''type'', ''title'', ''description'', ''status'', ''updated'', ''sources''}" for k
    using that by (auto simp: is_array_index_def is_digit_def)
  then show ?thesis
    by (simp add: saved_frontmatter_def managed_fields_def optional_field_def enumerated_def Let_def index_before_def)
qed

lemma create_fields_saved: "saved_frontmatter today (create_fields title args provided today)"
proof -
  let ?m = "managed_fields title args provided today"
  have m: "enumerated ?m" "map_of ?m ''updated'' = Some (Scalar today)"
    using managed_fields_saved by (auto simp: saved_frontmatter_def)
  then have "obj_in ''updated'' ?m" by (auto simp: obj_in_def dest: map_of_SomeD intro: rev_image_eqI)
  let ?sp = "obj_spread [] (filter (\<lambda>e. \<not> obj_in (fst e) ?m) provided)"
  have "enumerated ?sp" by (simp add: enumerated_spread_into)
  then have "map_of (rev ?sp) = map_of ?sp" by (simp add: map_of_rev_distinct enumerated_def)
  moreover have "map_of ?sp ''updated'' = None"
    using \<open>obj_in ''updated'' ?m\<close> by (auto simp: map_of_obj_spread map_of_eq_None_iff)
  ultimately show ?thesis using m
    by (simp add: saved_frontmatter_def create_fields_def Let_def enumerated_spread_into map_of_obj_spread [of ?m] map_add_def)
qed

lemma update_fields_saved: "saved_frontmatter today (update_fields oldFm provided args today)"
proof -
  have "map_of (rev (update_sets oldFm args today)) ''updated'' = Some (Scalar today)"
    by (simp add: map_of_rev_distinct [OF distinct_update_sets]) (simp add: update_sets_def optional_field_def)
  then show ?thesis
    by (simp add: saved_frontmatter_def update_fields_enumerated) (simp add: update_fields_def map_of_obj_spread)
qed


section \<open>Where the code and its comments part\<close>

text \<open>A key of the author's frontmatter is dropped on create when every object inherits its name.\<close>

lemma inherited_key_dropped:
  "create_fields ''T'' args [(''constructor'', Scalar ''Acme'')] today
     = managed_fields ''T'' args [(''constructor'', Scalar ''Acme'')] today"
  by (simp add: create_fields_def obj_in_def object_prototype_keys_def obj_spread_def)

end
