(* ===== verification/JsRegex.thy ===== *)
theory JsRegex
  imports JsText
begin

text \<open>
  Regular expressions with the backtracking matcher of ECMAScript, for the patterns whose greedy runs
  do not determine the match.  \<open>ends r s p\<close> lists the states the matcher can reach through \<open>r\<close> from
  \<open>p\<close>, the preferred one first; the state is a position and the groups captured so far.  The first
  start with a state, and its first state, are what \<open>exec\<close> answers.
\<close>

type_synonym rx_state = "nat \<times> (nat \<times> nat \<times> nat) list"

datatype rx =
    Eps
  | Cls "char \<Rightarrow> bool"
  | Seq rx rx
  | Alt rx rx
  | Rep rx nat "nat option"
  | WordEdge
  | NotBehind "char \<Rightarrow> bool"
  | NotAhead "char \<Rightarrow> bool"
  | AtStart
  | AtEnd
  | Group nat rx

text \<open>
  A quantifier (\<open>RepeatMatcher\<close>): at most \<open>k\<close> more rounds, at least \<open>m\<close>; past the minimum a round that takes
  nothing is refused, so rounds past the length of the text never happen.
\<close>

fun rounds :: "(rx_state \<Rightarrow> rx_state list) \<Rightarrow> nat \<Rightarrow> nat \<Rightarrow> rx_state \<Rightarrow> rx_state list" where
  "rounds f 0 m p = [p]"
| "rounds f (Suc k) 0 p = concat (map (\<lambda>q. if fst q = fst p then [] else rounds f k 0 q) (f p)) @ [p]"
| "rounds f (Suc k) (Suc m) p = concat (map (rounds f k m) (f p))"

definition char_is :: "(char \<Rightarrow> bool) \<Rightarrow> string \<Rightarrow> nat \<Rightarrow> bool" where
  "char_is P s i \<longleftrightarrow> i < length s \<and> P (s ! i)"

definition word_before :: "(char \<Rightarrow> bool) \<Rightarrow> string \<Rightarrow> nat \<Rightarrow> bool" where
  "word_before P s i \<longleftrightarrow> 0 < i \<and> char_is P s (i - 1)"

fun ends :: "rx \<Rightarrow> string \<Rightarrow> rx_state \<Rightarrow> rx_state list" where
  "ends Eps s p = [p]"
| "ends (Cls P) s p = (if char_is P s (fst p) then [(Suc (fst p), snd p)] else [])"
| "ends (Seq a b) s p = concat (map (ends b s) (ends a s p))"
| "ends (Alt a b) s p = ends a s p @ ends b s p"
| "ends (Rep a m n) s p = rounds (ends a s) (case n of Some k \<Rightarrow> k | None \<Rightarrow> m + length s) m p"
| "ends WordEdge s p = (if word_before is_word_char s (fst p) \<noteq> char_is is_word_char s (fst p) then [p] else [])"
| "ends (NotBehind P) s p = (if word_before P s (fst p) then [] else [p])"
| "ends (NotAhead P) s p = (if char_is P s (fst p) then [] else [p])"
| "ends AtStart s p = (if fst p = 0 then [p] else [])"
| "ends AtEnd s p = (if fst p = length s then [p] else [])"
| "ends (Group n a) s p = map (\<lambda>q. (fst q, (n, fst p, fst q) # snd q)) (ends a s p)"

section \<open>Writing patterns\<close>

definition seqs :: "rx list \<Rightarrow> rx" where
  "seqs rs = foldr Seq rs Eps"

fun alts :: "rx list \<Rightarrow> rx" where
  "alts [] = Cls (\<lambda>_. False)"
| "alts [r] = r"
| "alts (r # rs) = Alt r (alts rs)"

text \<open>A literal, and a literal or class under the flag \<open>i\<close>.\<close>

definition lit :: "string \<Rightarrow> rx" where
  "lit w = seqs (map (\<lambda>c. Cls (\<lambda>d. d = c)) w)"

definition either_case :: "(char \<Rightarrow> bool) \<Rightarrow> char \<Rightarrow> bool" where
  "either_case P c \<longleftrightarrow> P c \<or> P (char_lower c) \<or> (is_lower c \<and> P (char_of (code c - 32)))"

definition lit_ci :: "string \<Rightarrow> rx" where
  "lit_ci w = seqs (map (\<lambda>c. Cls (\<lambda>d. char_lower d = char_lower c)) w)"

abbreviation opt :: "rx \<Rightarrow> rx" where "opt r \<equiv> Rep r 0 (Some 1)"
abbreviation many :: "rx \<Rightarrow> rx" where "many r \<equiv> Rep r 0 None"
abbreviation some1 :: "rx \<Rightarrow> rx" where "some1 r \<equiv> Rep r 1 None"
abbreviation times :: "nat \<Rightarrow> rx \<Rightarrow> rx" where "times n r \<equiv> Rep r n (Some n)"

definition one_of :: "string \<Rightarrow> char \<Rightarrow> bool" where
  "one_of w c \<longleftrightarrow> c \<in> set w"

section \<open>exec and test\<close>

definition rx_exec :: "rx \<Rightarrow> string \<Rightarrow> nat \<Rightarrow> (nat \<times> rx_state) option" where
  "rx_exec r s i =
     (case find (\<lambda>j. ends r s (j, []) \<noteq> []) [i..<Suc (length s)] of
        None \<Rightarrow> None
      | Some j \<Rightarrow> Some (j, hd (ends r s (j, []))))"

definition rx_test :: "rx \<Rightarrow> string \<Rightarrow> bool" where
  "rx_test r s \<longleftrightarrow> rx_exec r s 0 \<noteq> None"

definition rx_group :: "string \<Rightarrow> rx_state \<Rightarrow> nat \<Rightarrow> string" where
  "rx_group s p n = (case map_of (snd p) n of Some (a, b) \<Rightarrow> slice a b s | None \<Rightarrow> [])"

text \<open>A match stays inside the text.\<close>

lemma rounds_bounds:
  assumes f: "\<And>p q. q \<in> set (f p) \<Longrightarrow> fst p \<le> n \<Longrightarrow> fst p \<le> fst q \<and> fst q \<le> n"
  shows "q \<in> set (rounds f k m p) \<Longrightarrow> fst p \<le> n \<Longrightarrow> fst p \<le> fst q \<and> fst q \<le> n"
proof (induction k arbitrary: m p)
  case 0
  then show ?case by simp
next
  case (Suc k)
  show ?case
  proof (cases "q = p")
    case True
    with Suc show ?thesis by simp
  next
    case False
    with Suc.prems(1) obtain x m' where x: "x \<in> set (f p)" "q \<in> set (rounds f k m' x)"
      by (cases m) (auto split: if_splits)
    from f [OF x(1) Suc.prems(2)] have "fst p \<le> fst x" "fst x \<le> n" by simp_all
    with Suc.IH [OF x(2)] show ?thesis by simp
  qed
qed

lemma ends_bounds:
  "q \<in> set (ends r s p) \<Longrightarrow> fst p \<le> length s \<Longrightarrow> fst p \<le> fst q \<and> fst q \<le> length s"
proof (induction r arbitrary: p q)
  case (Seq a b)
  then obtain x where x: "x \<in> set (ends a s p)" "q \<in> set (ends b s x)" by auto
  from Seq.IH(1) [OF x(1) Seq.prems(2)] Seq.IH(2) [OF x(2)] show ?case by simp
next
  case (Rep a m n)
  from Rep.prems have "q \<in> set (rounds (ends a s) (case n of Some k \<Rightarrow> k | None \<Rightarrow> m + length s) m p)" by simp
  from rounds_bounds [OF Rep.IH this Rep.prems(2)] show ?case .
next
  case (Group n a)
  from Group.prems obtain x where "x \<in> set (ends a s p)" "fst q = fst x" by auto
  with Group.IH [of x p] Group.prems(2) show ?case by simp
qed (auto simp: char_is_def split: if_splits)

lemma rx_exec_SomeD:
  assumes "rx_exec r s i = Some (j, p)"
  shows "i \<le> j" "j \<le> fst p" "fst p \<le> length s" "p \<in> set (ends r s (j, []))"
proof -
  from assms have j: "find (\<lambda>j. ends r s (j, []) \<noteq> []) [i..<Suc (length s)] = Some j"
    and p: "p = hd (ends r s (j, []))"
    by (auto simp: rx_exec_def simp del: upt_Suc split: option.splits)
  from find_sound [OF j] have "j \<in> set [i..<Suc (length s)]" and ne: "ends r s (j, []) \<noteq> []" by blast+
  then have "i \<le> j" "j \<le> length s" by (simp_all only: set_upt atLeastLessThan_iff less_Suc_eq_le)
  from ne p show "p \<in> set (ends r s (j, []))" by simp
  with ends_bounds [of p r s "(j, [])"] \<open>i \<le> j\<close> \<open>j \<le> length s\<close>
  show "i \<le> j" "j \<le> fst p" "fst p \<le> length s" by simp_all
qed

section \<open>Every match of a global pattern\<close>

text \<open>The loop over \<open>exec\<close>; a match that takes nothing is passed over and the next start tried.\<close>

function exec_all :: "rx \<Rightarrow> string \<Rightarrow> nat \<Rightarrow> (nat \<times> rx_state) list" where
  "exec_all r s i =
     (case rx_exec r s i of
        None \<Rightarrow> []
      | Some (j, p) \<Rightarrow> if fst p = j then exec_all r s (Suc j) else (j, p) # exec_all r s (fst p))"
  by pat_completeness auto
termination
proof (relation "measure (\<lambda>(r, s, i). Suc (length s) - i)", simp, goal_cases)
  case (1 r s i q j p)
  then have "rx_exec r s i = Some (j, p)" by simp
  from rx_exec_SomeD [OF this] show ?case by simp
next
  case (2 r s i q j p)
  then have "rx_exec r s i = Some (j, p)" by simp
  from rx_exec_SomeD [OF this] 2(3) show ?case by simp
qed

declare exec_all.simps [simp del]

lemma exec_all_bounds:
  "(j, p) \<in> set (exec_all r s i) \<Longrightarrow> i \<le> j \<and> j < fst p \<and> fst p \<le> length s"
proof (induction r s i rule: exec_all.induct)
  case (1 r s i)
  show ?case
  proof (cases "rx_exec r s i")
    case None
    with 1(3) show ?thesis by (subst (asm) exec_all.simps) simp
  next
    case (Some jp)
    obtain j' p' where jp: "jp = (j', p')" by (cases jp)
    note b = rx_exec_SomeD [OF Some [unfolded jp]]
    consider "fst p' = j'" "(j, p) \<in> set (exec_all r s (Suc j'))"
      | "fst p' \<noteq> j'" "(j, p) = (j', p')"
      | "fst p' \<noteq> j'" "(j, p) \<in> set (exec_all r s (fst p'))"
      using 1(3) Some jp by (subst (asm) exec_all.simps) (auto split: if_splits)
    then show ?thesis
    proof cases
      case c: 1
      have "Suc j' \<le> j \<and> j < fst p \<and> fst p \<le> length s" by (rule 1(1) [OF Some jp [symmetric] c])
      with b show ?thesis by simp
    next
      case c: 2
      with b show ?thesis by auto
    next
      case c: 3
      have "fst p' \<le> j \<and> j < fst p \<and> fst p \<le> length s" by (rule 1(2) [OF Some jp [symmetric] c])
      with b show ?thesis by simp
    qed
  qed
qed

end
