(* ===== verification/PolicyDetect.thy ===== *)
theory PolicyDetect
  imports JsRegex
begin

text \<open>
  The deterministic detectors of sensitive data (\<open>src/lib/policy-detectors.ts\<close>), the guard that runs
  them on every write and the report over what it found (\<open>src/lib/policy-guard.ts\<close>), and the redaction of
  a text before it is stored (\<open>scrubSensitive\<close> of \<open>src/lib/review-queue.ts\<close>).
\<close>

datatype detection_kind =
    PrivateKey | ApiToken | ConnectionString | CardNumber | UsSsn | MedicalRecordNumber | DateOfBirth

fun kind_id :: "detection_kind \<Rightarrow> string" where
  "kind_id PrivateKey = ''private-key''"
| "kind_id ApiToken = ''api-token''"
| "kind_id ConnectionString = ''connection-string''"
| "kind_id CardNumber = ''card-number''"
| "kind_id UsSsn = ''us-ssn''"
| "kind_id MedicalRecordNumber = ''medical-record-number''"
| "kind_id DateOfBirth = ''date-of-birth''"

datatype severity = Low | Medium | High

record detection =
  dt_kind :: detection_kind
  dt_severity :: severity
  dt_start :: nat
  dt_end :: nat

definition MAX_DETECTIONS_PER_TEXT :: nat where "MAX_DETECTIONS_PER_TEXT = 50"

section \<open>The patterns\<close>

definition upper_or_digit :: "char \<Rightarrow> bool" where
  "upper_or_digit c \<longleftrightarrow> is_upper c \<or> is_digit c"

definition alnum_or :: "string \<Rightarrow> char \<Rightarrow> bool" where
  "alnum_or w c \<longleftrightarrow> is_alnum c \<or> one_of w c"

definition none_of :: "string \<Rightarrow> char \<Rightarrow> bool" where
  "none_of w c \<longleftrightarrow> \<not> is_space c \<and> \<not> one_of w c"

definition digits_rx :: "nat \<Rightarrow> nat \<Rightarrow> rx" where
  "digits_rx m n = Rep (Cls is_digit) m (Some n)"

definition private_key_rx :: rx where
  "private_key_rx =
     seqs [lit ''-----BEGIN '', many (seqs [some1 (Cls upper_or_digit), lit '' '']), lit ''PRIVATE KEY-----'']"

definition TOKEN_PATTERNS :: "rx list" where
  "TOKEN_PATTERNS =
     [seqs [WordEdge, alts [lit ''AKIA'', lit ''ASIA''], times 16 (Cls upper_or_digit), WordEdge],
      seqs [WordEdge, lit ''gh'', Cls (one_of ''pousr''), lit ''_'', Rep (Cls is_alnum) 36 None, WordEdge],
      seqs [WordEdge, lit ''github_pat_'', Rep (Cls (alnum_or ''_'')) 22 None, WordEdge],
      seqs [WordEdge, lit ''xox'', Cls (one_of ''abprs''), lit ''-'', Rep (Cls (alnum_or ''-'')) 10 None, WordEdge],
      seqs [WordEdge, lit ''sk-'', Rep (Cls (alnum_or ''_-'')) 32 None],
      seqs [WordEdge, alts [lit ''sk'', lit ''rk''], lit ''_live_'', Rep (Cls is_alnum) 20 None, WordEdge],
      seqs [WordEdge, lit ''AIza'', times 35 (Cls (alnum_or ''_-'')), WordEdge]]"

definition QUOTES :: string where "QUOTES = [SQUOTE, DQUOTE, BACKTICK] @ ''<>''"

definition connection_rx :: rx where
  "connection_rx =
     seqs [WordEdge, Cls (\<lambda>c. is_lower c \<or> is_upper c), Rep (Cls (alnum_or ''+.-'')) 1 (Some 30), lit ''://'',
           Rep (Cls (none_of (QUOTES @ '':@/''))) 0 (Some 128), lit '':'',
           Group 1 (Rep (Cls (none_of (QUOTES @ ''@/''))) 1 (Some 256)), lit ''@'',
           some1 (Cls (none_of (QUOTES @ ''/@'')))]"

text \<open>\<open>PLACEHOLDER_PASSWORD\<close>; its alternative for the ellipsis character is outside Latin-1.\<close>

definition PLACEHOLDER_PASSWORD :: rx where
  "PLACEHOLDER_PASSWORD =
     seqs [AtStart,
       alts [seqs [lit ''$'', opt (lit ''{''), some1 (Cls is_word_char), opt (lit ''}'')],
             seqs [lit ''{'', opt (lit ''{''), many (Cls (\<lambda>c. \<not> one_of ''{}'' c)), opt (lit ''}''), lit ''}''],
             seqs [lit ''['', many (Cls (\<lambda>c. c \<noteq> CHR '']'')), lit '']''],
             seqs [lit ''%'', opt (lit ''(''), many (Cls is_word_char), opt (lit '')''), Cls (either_case (one_of ''sv''))],
             some1 (lit ''*''), some1 (lit_ci ''x''), some1 (lit ''.''),
             seqs [opt (alts [seqs [lit_ci ''your'', opt (Cls (one_of ''-_''))], seqs [lit_ci ''my'', opt (Cls (one_of ''-_''))]]),
                   alts [seqs [lit_ci ''pass'', opt (alts [lit_ci ''word'', lit_ci ''wd''])], lit_ci ''pwd'', lit_ci ''secret'']],
             lit_ci ''changeme''],
       AtEnd]"

definition word_or_dash :: "char \<Rightarrow> bool" where
  "word_or_dash c \<longleftrightarrow> is_word_char c \<or> c = DASH"

definition card_rx :: rx where
  "card_rx =
     seqs [NotBehind word_or_dash, Cls (one_of ''23456''), digits_rx 3 3,
           Rep (seqs [opt (Cls (one_of '' -'')), Cls is_digit]) 9 (Some 15), NotAhead word_or_dash]"

definition ssn_rx :: rx where
  "ssn_rx =
     seqs [NotBehind word_or_dash, Group 1 (digits_rx 3 3), lit ''-'', Group 2 (digits_rx 2 2), lit ''-'',
           Group 3 (digits_rx 4 4), NotAhead word_or_dash]"

definition medical_rx :: rx where
  "medical_rx =
     seqs [WordEdge,
           alts [lit_ci ''MRN'',
                 seqs [lit_ci ''medical record '',
                       alts [lit_ci ''number'', seqs [lit_ci ''no'', opt (lit ''.'')], lit ''#'']]],
           many (Cls is_space), opt (Cls (one_of '':#'')), many (Cls is_space),
           Cls is_alnum, Rep (Cls (alnum_or ''-'')) 4 None, WordEdge]"

definition birth_rx :: rx where
  "birth_rx =
     seqs [WordEdge, alts [lit_ci ''DOB'', lit_ci ''D.O.B.'', lit_ci ''date of birth''],
           many (Cls is_space), opt (Cls (one_of '':-'')), many (Cls is_space),
           alts [seqs [digits_rx 1 2, Cls (one_of ''/.-''), digits_rx 1 2, Cls (one_of ''/.-''), digits_rx 2 4],
                 seqs [digits_rx 4 4, lit ''-'', digits_rx 2 2, lit ''-'', digits_rx 2 2],
                 seqs [Rep (Cls (\<lambda>c. is_lower c \<or> is_upper c)) 3 (Some 9), opt (lit ''.''), lit '' '', digits_rx 1 2,
                       opt (lit '',''), lit '' '', digits_rx 4 4]]]"

section \<open>The second checks\<close>

definition isCardNetworkNumber :: "string \<Rightarrow> bool" where
  "isCardNetworkNumber digits =
     (let n = length digits; p2 = digits_value (take 2 digits); p3 = digits_value (take 3 digits);
          p4 = digits_value (take 4 digits);
          visa = (take 1 digits = ''4'' \<and> (n = 13 \<or> n = 16 \<or> n = 19));
          mastercard = (n = 16 \<and> (51 \<le> p2 \<and> p2 \<le> 55 \<or> 2221 \<le> p4 \<and> p4 \<le> 2720));
          amex = (n = 15 \<and> (p2 = 34 \<or> p2 = 37));
          discover = ((n = 16 \<or> n = 19) \<and> (p4 = 6011 \<or> p2 = 65 \<or> 644 \<le> p3 \<and> p3 \<le> 649));
          jcb = (16 \<le> n \<and> n \<le> 19 \<and> 3528 \<le> p4 \<and> p4 \<le> 3589);
          diners = (n = 14 \<and> (300 \<le> p3 \<and> p3 \<le> 305 \<or> p3 = 309 \<or> p2 = 36 \<or> p2 = 38 \<or> p2 = 39))
      in visa \<or> mastercard \<or> amex \<or> discover \<or> jcb \<or> diners)"

text \<open>The loop of \<open>luhn\<close>, from the last digit to the first.\<close>

fun luhn_sum :: "bool \<Rightarrow> nat list \<Rightarrow> nat" where
  "luhn_sum double [] = 0"
| "luhn_sum double (d # ds) =
     (if double then (if 9 < 2 * d then 2 * d - 9 else 2 * d) else d) + luhn_sum (\<not> double) ds"

definition luhn :: "string \<Rightarrow> bool" where
  "luhn digits \<longleftrightarrow> luhn_sum False (map (\<lambda>c. code c - 48) (rev digits)) mod 10 = 0"

text \<open>\<open>/^(\d)\1+$/\<close>\<close>

definition one_digit_repeated :: "string \<Rightarrow> bool" where
  "one_digit_repeated s \<longleftrightarrow> 2 \<le> length s \<and> is_digit (hd s) \<and> list_all (\<lambda>c. c = hd s) s"

definition only_digits :: "string \<Rightarrow> string" where
  "only_digits s = filter is_digit s"

definition card_accept :: "string \<Rightarrow> bool" where
  "card_accept m \<longleftrightarrow> isCardNetworkNumber (only_digits m) \<and> luhn (only_digits m) \<and> \<not> one_digit_repeated (only_digits m)"

definition ssn_accept :: "string \<Rightarrow> string \<Rightarrow> string \<Rightarrow> bool" where
  "ssn_accept area grp serial \<longleftrightarrow>
     area \<noteq> ''000'' \<and> area \<noteq> ''666'' \<and> take 1 area \<noteq> ''9'' \<and> grp \<noteq> ''00'' \<and> serial \<noteq> ''0000''"

section \<open>detectSensitive\<close>

record detector =
  dr_kind :: detection_kind
  dr_severity :: severity
  dr_pattern :: rx
  dr_accept :: "string \<Rightarrow> nat \<Rightarrow> rx_state \<Rightarrow> bool"

definition DETECTORS :: "detector list" where
  "DETECTORS =
     [\<lparr>dr_kind = PrivateKey, dr_severity = High, dr_pattern = private_key_rx, dr_accept = (\<lambda>_ _ _. True)\<rparr>,
      \<lparr>dr_kind = ApiToken, dr_severity = High, dr_pattern = alts TOKEN_PATTERNS, dr_accept = (\<lambda>_ _ _. True)\<rparr>,
      \<lparr>dr_kind = ConnectionString, dr_severity = High, dr_pattern = connection_rx,
        dr_accept = (\<lambda>s _ p. \<not> rx_test PLACEHOLDER_PASSWORD (rx_group s p 1))\<rparr>,
      \<lparr>dr_kind = CardNumber, dr_severity = High, dr_pattern = card_rx,
        dr_accept = (\<lambda>s i p. card_accept (slice i (fst p) s))\<rparr>,
      \<lparr>dr_kind = UsSsn, dr_severity = High, dr_pattern = ssn_rx,
        dr_accept = (\<lambda>s _ p. ssn_accept (rx_group s p 1) (rx_group s p 2) (rx_group s p 3))\<rparr>,
      \<lparr>dr_kind = MedicalRecordNumber, dr_severity = High, dr_pattern = medical_rx, dr_accept = (\<lambda>_ _ _. True)\<rparr>,
      \<lparr>dr_kind = DateOfBirth, dr_severity = Medium, dr_pattern = birth_rx, dr_accept = (\<lambda>_ _ _. True)\<rparr>]"

definition run_detector :: "string \<Rightarrow> detector \<Rightarrow> detection list" where
  "run_detector s d =
     map (\<lambda>(i, p). \<lparr>dt_kind = dr_kind d, dt_severity = dr_severity d, dt_start = i, dt_end = fst p\<rparr>)
       (filter (\<lambda>(i, p). dr_accept d s i p) (exec_all (dr_pattern d) s 0))"

definition by_offset :: "detection \<Rightarrow> detection \<Rightarrow> int" where
  "by_offset a b = cmp_or (int (dt_start a) - int (dt_start b)) (int (dt_end a) - int (dt_end b))"

definition detectSensitive :: "string \<Rightarrow> detection list" where
  "detectSensitive s = take MAX_DETECTIONS_PER_TEXT (js_sort by_offset (concat (map (run_detector s) DETECTORS)))"

section \<open>What a scan answers\<close>

lemma run_detector_bounds:
  "d \<in> set (run_detector s x) \<Longrightarrow> dt_start d < dt_end d \<and> dt_end d \<le> length s"
  by (auto simp: run_detector_def dest: exec_all_bounds)

lemma by_offset_comparator: "comparator by_offset"
  unfolding by_offset_def by unfold_locales (auto simp: cmp_or_def split: if_splits)

lemma detect_bounds:
  "d \<in> set (detectSensitive s) \<Longrightarrow> dt_start d < dt_end d \<and> dt_end d \<le> length s"
  by (auto simp: detectSensitive_def dest!: in_set_takeD run_detector_bounds)

lemma detect_sorted: "sorted_wrt (\<lambda>a b. dt_start a \<le> dt_start b) (detectSensitive s)"
proof -
  have "sorted_wrt (\<lambda>a b. by_offset a b \<le> 0) (js_sort by_offset (concat (map (run_detector s) DETECTORS)))"
    by (rule comparator.sorted_js_sort [OF by_offset_comparator])
  then have "sorted_wrt (\<lambda>a b. by_offset a b \<le> 0) (detectSensitive s)"
    unfolding detectSensitive_def by (rule sorted_wrt_take)
  then show ?thesis
    by (rule sorted_wrt_mono_rel [rotated]) (auto simp: by_offset_def cmp_or_def split: if_splits)
qed

lemma detect_length: "length (detectSensitive s) \<le> MAX_DETECTIONS_PER_TEXT"
  by (simp add: detectSensitive_def)

text \<open>
  Every span a detector matches and accepts, before the answer is cut at fifty.  Texts with no more
  than that are \<open>uncut\<close>: their answer holds all of them.
\<close>

definition flagged :: "string \<Rightarrow> detection list" where
  "flagged s = concat (map (run_detector s) DETECTORS)"

definition uncut :: "string \<Rightarrow> bool" where
  "uncut s \<longleftrightarrow> length (flagged s) \<le> MAX_DETECTIONS_PER_TEXT"

lemma detect_uncut: "uncut s \<Longrightarrow> set (detectSensitive s) = set (flagged s)"
  by (simp add: uncut_def flagged_def detectSensitive_def)

lemma few_uncut: "length (detectSensitive s) < MAX_DETECTIONS_PER_TEXT \<Longrightarrow> uncut s"
  by (simp add: uncut_def flagged_def detectSensitive_def min_def split: if_splits)

section \<open>luhn\<close>

text \<open>What one digit adds, by its place.\<close>

definition luhn_digit :: "bool \<Rightarrow> nat \<Rightarrow> nat" where
  "luhn_digit double d = (if double then (if 9 < 2 * d then 2 * d - 9 else 2 * d) else d)"

lemma luhn_digit_inj:
  assumes "a < 10" "b < 10" "luhn_digit f a mod 10 = luhn_digit f b mod 10"
  shows "a = b"
proof -
  have "\<forall>a \<in> {0..<10}. \<forall>b \<in> {0..<10}. \<forall>f \<in> {True, False}.
      luhn_digit f a mod 10 = luhn_digit f b mod 10 \<longrightarrow> a = b" by code_simp
  from this [THEN bspec [where x = a], THEN bspec [where x = b], THEN bspec [where x = f]] assms
  show ?thesis by simp
qed

lemma mod_ten_add:
  assumes "(a :: nat) mod 10 \<noteq> b mod 10"
  shows "(a + t) mod 10 \<noteq> (b + t) mod 10"
proof
  assume eq: "(a + t) mod 10 = (b + t) mod 10"
  show False
  proof (cases "a \<le> b")
    case True
    with eq have "10 dvd (b + t) - (a + t)" by (metis add_le_mono1 mod_eq_dvd_iff_nat)
    with True have "b mod 10 = a mod 10" by (simp add: mod_eq_dvd_iff_nat)
    with assms show False by simp
  next
    case False
    with eq have "10 dvd (a + t) - (b + t)" by (metis add_le_mono1 mod_eq_dvd_iff_nat nat_le_linear)
    with False have "a mod 10 = b mod 10" by (simp add: mod_eq_dvd_iff_nat)
    with assms show False by simp
  qed
qed

lemma digit_value_of: "is_digit c \<Longrightarrow> code c - 48 < (10 :: nat) \<and> code c - 48 + 48 = code c"
  unfolding is_digit_def by linarith

lemma luhn_sum_change:
  "i < length ds \<Longrightarrow> ds ! i < 10 \<Longrightarrow> d < 10 \<Longrightarrow> d \<noteq> ds ! i \<Longrightarrow>
     luhn_sum f (ds[i := d]) mod 10 \<noteq> luhn_sum f ds mod 10"
proof (induction ds arbitrary: f i)
  case Nil
  then show ?case by simp
next
  case (Cons x xs)
  show ?case
  proof (cases i)
    case 0
    with Cons.prems luhn_digit_inj [of d x f] have "luhn_digit f d mod 10 \<noteq> luhn_digit f x mod 10" by auto
    from mod_ten_add [OF this, of "luhn_sum (\<not> f) xs"] 0 show ?thesis by (simp add: luhn_digit_def)
  next
    case (Suc j)
    with Cons have "luhn_sum (\<not> f) (xs[j := d]) mod 10 \<noteq> luhn_sum (\<not> f) xs mod 10" by simp
    from mod_ten_add [OF this, of "luhn_digit f x"] Suc show ?thesis by (simp add: luhn_digit_def add.commute)
  qed
qed

text \<open>
  \<open>luhn\<close> catches every mistyped digit: in a number it accepts, no single digit can be replaced by
  another and be accepted again.
\<close>

theorem luhn_catches_one_digit:
  assumes "luhn ds" "list_all is_digit ds" "i < length ds" "is_digit d" "d \<noteq> ds ! i"
  shows "\<not> luhn (ds[i := d])"
proof -
  let ?v = "\<lambda>c. code c - (48 :: nat)"
  let ?r = "map ?v (rev ds)"
  let ?k = "length ds - 1 - i"
  from assms have k: "?k < length ?r" and at: "rev ds ! ?k = ds ! i" by (simp_all add: rev_nth)
  from assms have "is_digit (ds ! i)" by (simp add: list_all_length)
  note a = digit_value_of [OF assms(4)] and b = digit_value_of [OF this]
  note v = conjunct1 [OF a] conjunct1 [OF b] and c = conjunct2 [OF a] conjunct2 [OF b]
  have "?v d \<noteq> ?v (ds ! i)"
  proof
    assume "?v d = ?v (ds ! i)"
    with c have "code d = (code (ds ! i) :: nat)" by (metis (no_types))
    with assms(5) show False by simp
  qed
  with v k at have "luhn_sum False (?r[?k := ?v d]) mod 10 \<noteq> luhn_sum False ?r mod 10"
    by (intro luhn_sum_change) simp_all
  moreover have "?r[?k := ?v d] = map ?v (rev (ds[i := d]))"
    using assms(3) by (simp add: rev_update map_update)
  ultimately show ?thesis using assms(1) by (simp add: luhn_def)
qed

theorem luhn_catches_one_digit_witness:
  "luhn ''4111111111111111'' \<and> \<not> luhn (''4111111111111111''[3 := CHR ''7''])"
proof -
  have l: "luhn ''4111111111111111''" by code_simp
  have "\<not> luhn (''4111111111111111''[3 := CHR ''7''])"
    by (rule luhn_catches_one_digit [OF l]) (simp_all add: is_digit_def)
  with l show ?thesis by blast
qed

section \<open>scrubSensitive\<close>

definition REDACTED :: string where "REDACTED = ''[redacted]''"

text \<open>The loop over the spans, from the position \<open>k\<close> already copied.\<close>

fun scrub_from :: "string \<Rightarrow> nat \<Rightarrow> detection list \<Rightarrow> string" where
  "scrub_from s k [] = drop k s"
| "scrub_from s k (d # ds) =
     (if dt_start d < k then scrub_from s k ds
      else slice k (dt_start d) s @ REDACTED @ scrub_from s (dt_end d) ds)"

definition scrubSensitive :: "string \<Rightarrow> string" where
  "scrubSensitive s = scrub_from s 0 (detectSensitive s)"

text \<open>The characters no span of \<open>ds\<close> covers, from \<open>k\<close> on.\<close>

definition unflagged :: "string \<Rightarrow> nat \<Rightarrow> detection list \<Rightarrow> string" where
  "unflagged s k ds =
     map ((!) s) (filter (\<lambda>i. \<forall>d \<in> set ds. i < dt_start d \<or> dt_end d \<le> i) [k..<length s])"

text \<open>No span reaches out of an earlier one it starts in.\<close>

definition nested :: "detection list \<Rightarrow> bool" where
  "nested ds = sorted_wrt (\<lambda>a b. dt_start b < dt_end a \<longrightarrow> dt_end b \<le> dt_end a) ds"

lemma unflagged_Nil [simp]: "unflagged s k [] = drop k s"
  by (rule nth_equalityI) (simp_all add: unflagged_def)

lemma unflagged_skip:
  assumes "dt_end d \<le> k" shows "unflagged s k (d # ds) = unflagged s k ds"
  unfolding unflagged_def using assms by (intro arg_cong [where f = "map _"] filter_cong) auto

lemma map_nth_slice: "a \<le> b \<Longrightarrow> b \<le> length s \<Longrightarrow> map ((!) s) [a..<b] = slice a b s"
  by (rule nth_equalityI) (auto simp: slice_def)

lemma unflagged_span:
  assumes "k \<le> dt_start d" "dt_start d < dt_end d" "dt_end d \<le> length s" "\<forall>e \<in> set ds. dt_start d \<le> dt_start e"
  shows "unflagged s k (d # ds) = slice k (dt_start d) s @ unflagged s (dt_end d) ds"
proof -
  let ?P = "\<lambda>i. \<forall>e \<in> set (d # ds). i < dt_start e \<or> dt_end e \<le> i"
  have "[k..<length s] = [k..<dt_start d] @ [dt_start d..<dt_end d] @ [dt_end d..<length s]"
    using assms by (metis le_add_diff_inverse less_imp_le_nat order.trans upt_add_eq_append)
  moreover have "filter ?P [k..<dt_start d] = [k..<dt_start d]"
    using assms(4) by (intro filter_True) fastforce
  moreover have "filter ?P [dt_start d..<dt_end d] = []" by (intro filter_False) auto
  moreover have "filter ?P [dt_end d..<length s]
      = filter (\<lambda>i. \<forall>e \<in> set ds. i < dt_start e \<or> dt_end e \<le> i) [dt_end d..<length s]"
    by (rule filter_cong) auto
  moreover have "map ((!) s) [k..<dt_start d] = slice k (dt_start d) s"
    using assms by (intro map_nth_slice) auto
  ultimately show ?thesis by (simp add: unflagged_def)
qed

lemma scrub_from_parts:
  "sorted_wrt (\<lambda>a b. dt_start a \<le> dt_start b) ds \<Longrightarrow> nested ds \<Longrightarrow>
   \<forall>d \<in> set ds. dt_start d < dt_end d \<and> dt_end d \<le> length s \<and> (dt_start d < k \<longrightarrow> dt_end d \<le> k) \<Longrightarrow>
     \<exists>parts. parts \<noteq> [] \<and> scrub_from s k ds = join_with REDACTED parts \<and> concat parts = unflagged s k ds"
proof (induction s k ds rule: scrub_from.induct)
  case (1 s k)
  then show ?case by (intro exI [of _ "[drop k s]"]) simp
next
  case (2 s k d ds)
  show ?case
  proof (cases "dt_start d < k")
    case True
    with 2(5) have "dt_end d \<le> k" by simp
    with True 2(1) [OF True] 2(3-5) show ?thesis by (simp add: nested_def unflagged_skip)
  next
    case False
    have n: "\<forall>e \<in> set ds. dt_start e < dt_end d \<longrightarrow> dt_end e \<le> dt_end d" using 2(4) by (simp add: nested_def)
    have "\<exists>parts. parts \<noteq> [] \<and> scrub_from s (dt_end d) ds = join_with REDACTED parts
        \<and> concat parts = unflagged s (dt_end d) ds"
      by (rule 2(2) [OF False]) (use 2(3-5) n in \<open>auto simp: nested_def\<close>)
    then obtain parts where p: "parts \<noteq> []" "scrub_from s (dt_end d) ds = join_with REDACTED parts"
      "concat parts = unflagged s (dt_end d) ds" by blast
    have "unflagged s k (d # ds) = slice k (dt_start d) s @ unflagged s (dt_end d) ds"
      by (rule unflagged_span) (use 2(3,5) False in auto)
    with p False show ?thesis
      by (intro exI [of _ "slice k (dt_start d) s # parts"]) (cases parts, auto)
  qed
qed

text \<open>
  C35. What is stored of a text is exactly what no detector flags: in a text with at most fifty flagged
  spans, none of which reaches out of another, the scrubbed text is the characters outside every span a
  detector matches and accepts, with a mark in place of each stretch taken out.  Behind the first fifty
  spans, and in the tail of a span that crosses another, flagged characters stay:
  \<open>span_past_cap_stays\<close> and \<open>crossing_span_left\<close> below.
\<close>

theorem scrub_keeps_only_unflagged:
  assumes "uncut s" and "nested (detectSensitive s)"
  shows "\<exists>parts. scrubSensitive s = join_with REDACTED parts
    \<and> concat parts = map ((!) s) (filter (\<lambda>i. \<not> (\<exists>d. d \<in> set (flagged s) \<and> dt_start d \<le> i \<and> i < dt_end d)) [0..<length s])"
proof -
  have "\<exists>parts. parts \<noteq> [] \<and> scrub_from s 0 (detectSensitive s) = join_with REDACTED parts
      \<and> concat parts = unflagged s 0 (detectSensitive s)"
    by (rule scrub_from_parts [OF detect_sorted assms(2)]) (auto dest: detect_bounds)
  moreover have "filter (\<lambda>i. \<forall>d \<in> set (detectSensitive s). i < dt_start d \<or> dt_end d \<le> i) [0..<length s]
      = filter (\<lambda>i. \<not> (\<exists>d. d \<in> set (flagged s) \<and> dt_start d \<le> i \<and> i < dt_end d)) [0..<length s]"
    unfolding detect_uncut [OF assms(1)] by (rule filter_cong) (auto simp: not_less not_le)
  ultimately show ?thesis unfolding scrubSensitive_def unflagged_def by metis
qed

lemma scrub_from_tail:
  "\<forall>d \<in> set ds. dt_start d \<le> dt_end d \<and> dt_end d \<le> m \<Longrightarrow> k \<le> m \<Longrightarrow> \<exists>out. scrub_from s k ds = out @ drop m s"
proof (induction s k ds rule: scrub_from.induct)
  case (1 s k)
  have "drop k s = take (m - k) (drop k s) @ drop m s"
    using 1(2) by (metis append_take_drop_id drop_drop le_add_diff_inverse2)
  then show ?case by auto
next
  case (2 s k d ds)
  show ?case
  proof (cases "dt_start d < k")
    case True
    with 2 show ?thesis by simp
  next
    case False
    with 2 obtain out where "scrub_from s (dt_end d) ds = out @ drop m s" by auto
    with False show ?thesis by simp
  qed
qed

lemma span_past_cap_stays:
  assumes "d \<in> set (flagged s)" "\<forall>x \<in> set (detectSensitive s). dt_end x \<le> dt_start d"
  shows "\<exists>out. scrubSensitive s = out @ slice (dt_start d) (dt_end d) s @ drop (dt_end d) s"
proof -
  have d: "dt_start d < dt_end d \<and> dt_end d \<le> length s"
    using assms(1) run_detector_bounds by (auto simp: flagged_def)
  have "\<exists>out. scrub_from s 0 (detectSensitive s) = out @ drop (dt_start d) s"
    by (rule scrub_from_tail) (use assms(2) detect_bounds in \<open>auto simp: less_imp_le\<close>)
  moreover have "drop (dt_start d) s = slice (dt_start d) (dt_end d) s @ drop (dt_end d) s"
    using d by (simp add: slice_def) (metis append_take_drop_id drop_drop le_add_diff_inverse2 less_imp_le_nat)
  ultimately show ?thesis by (simp add: scrubSensitive_def)
qed

lemmas detect_eval = detectSensitive_def DETECTORS_def run_detector_def by_offset_def cmp_or_def MAX_DETECTIONS_PER_TEXT_def

definition ssn_text :: string where "ssn_text = ''id 123-45-6789.''"

lemma ssn_text_runs:
  "exec_all private_key_rx ssn_text 0 = []"
  "exec_all (alts TOKEN_PATTERNS) ssn_text 0 = []"
  "exec_all connection_rx ssn_text 0 = []"
  "exec_all card_rx ssn_text 0 = []"
  "exec_all ssn_rx ssn_text 0 = [(3, 14, [(3, 10, 14), (2, 7, 9), (1, 3, 6)])]"
  "exec_all medical_rx ssn_text 0 = []"
  "exec_all birth_rx ssn_text 0 = []"
  by code_simp+

lemma ssn_detected:
  "detectSensitive ssn_text = [\<lparr>dt_kind = UsSsn, dt_severity = High, dt_start = 3, dt_end = 14\<rparr>]"
proof -
  have "ssn_accept (rx_group ssn_text (14, [(3, 10, 14), (2, 7, 9), (1, 3, 6)]) 1)
      (rx_group ssn_text (14, [(3, 10, 14), (2, 7, 9), (1, 3, 6)]) 2)
      (rx_group ssn_text (14, [(3, 10, 14), (2, 7, 9), (1, 3, 6)]) 3)" by code_simp
  then show ?thesis by (simp add: detect_eval ssn_text_runs)
qed

theorem scrub_keeps_only_unflagged_witness:
  "scrubSensitive ssn_text = ''id [redacted].''
   \<and> (\<exists>parts. scrubSensitive ssn_text = join_with REDACTED parts
        \<and> concat parts = map ((!) ssn_text) (filter (\<lambda>i. \<not> (\<exists>d. d \<in> set (flagged ssn_text) \<and> dt_start d \<le> i \<and> i < dt_end d)) [0..<length ssn_text]))"
proof -
  have "scrubSensitive ssn_text = ''id [redacted].''"
    by (simp add: scrubSensitive_def ssn_detected REDACTED_def) (simp add: ssn_text_def slice_def)
  moreover have "uncut ssn_text" by (rule few_uncut) (simp add: ssn_detected MAX_DETECTIONS_PER_TEXT_def)
  moreover have "nested (detectSensitive ssn_text)" unfolding ssn_detected by (simp add: nested_def)
  ultimately show ?thesis using scrub_keeps_only_unflagged [of ssn_text] by blast
qed

text \<open>A span that starts inside an earlier one and reaches out of it keeps its tail.\<close>

definition crossing_text :: string where "crossing_text = ''MRN 41111 11111 111111''"

lemma crossing_text_runs:
  "exec_all private_key_rx crossing_text 0 = []"
  "exec_all (alts TOKEN_PATTERNS) crossing_text 0 = []"
  "exec_all connection_rx crossing_text 0 = []"
  "exec_all ssn_rx crossing_text 0 = []"
  "exec_all medical_rx crossing_text 0 = [(0, 9, [])]"
  "exec_all birth_rx crossing_text 0 = []"
  by code_simp+

lemma crossing_text_card:
  "exec_all card_rx crossing_text 0 = [(4, 22, [])]" "card_accept (slice 4 22 crossing_text)"
  by code_simp+

lemma crossing_span_left: "scrubSensitive crossing_text = ''[redacted] 11111 111111''"
  by (simp add: scrubSensitive_def detect_eval crossing_text_runs crossing_text_card REDACTED_def)
     (simp add: crossing_text_def slice_def)

section \<open>The guard on a write\<close>

datatype policy_mode = PolicyOff | PolicyShadow

record file_write =
  fw_path :: string
  fw_content :: string
  fw_base64 :: bool

text \<open>A detection of a write or of a file, with its path.\<close>

type_synonym write_detection = "string \<times> detection"

definition scanWrites :: "file_write list \<Rightarrow> write_detection list" where
  "scanWrites writes =
     concat (map (\<lambda>w. if fw_base64 w then [] else map (Pair (fw_path w)) (detectSensitive (fw_content w))) writes)"

text \<open>\<open>recordLanded\<close>: the write runs and answers; what was found is recorded only after it landed.\<close>

definition guarded_write ::
  "policy_mode \<Rightarrow> (write_detection list \<Rightarrow> 's \<Rightarrow> 's \<times> ('f + unit)) \<Rightarrow> (file_write list \<Rightarrow> 's \<Rightarrow> 's \<times> ('e + 'r))
     \<Rightarrow> file_write list \<Rightarrow> 's \<Rightarrow> 's \<times> ('e + 'r)" where
  "guarded_write mode record_found write writes s =
     (if mode = PolicyOff then write writes s
      else let found = scanWrites writes in
        case write writes s of
          (s1, Inl e) \<Rightarrow> (s1, Inl e)
        | (s1, Inr r) \<Rightarrow> ((if found \<noteq> [] then fst (record_found found s1) else s1), Inr r))"

lemma guarded_write_answer: "snd (guarded_write mode rec_f write writes s) = snd (write writes s)"
  by (auto simp: guarded_write_def Let_def split: prod.splits sum.splits)

section \<open>The report\<close>

record detection_count =
  dc_path :: string
  dc_kind :: string
  dc_count :: int

record detection_page =
  dp_path :: string
  dp_count :: int
  dp_kinds :: "(string \<times> int) list"

definition MAX_REPORT_PATHS :: nat where "MAX_REPORT_PATHS = 20"

text \<open>One count joined to the pages gathered so far, in the order the paths were first seen.\<close>

fun add_count :: "detection_count \<Rightarrow> detection_page list \<Rightarrow> detection_page list" where
  "add_count c [] = [\<lparr>dp_path = dc_path c, dp_count = dc_count c, dp_kinds = [(dc_kind c, dc_count c)]\<rparr>]"
| "add_count c (p # ps) =
     (if dp_path p = dc_path c
      then p\<lparr>dp_count := dp_count p + dc_count c, dp_kinds := dp_kinds p @ [(dc_kind c, dc_count c)]\<rparr> # ps
      else p # add_count c ps)"

definition groupDetections ::
  "(string \<Rightarrow> string \<Rightarrow> int) \<Rightarrow> detection_count list \<Rightarrow> int \<times> detection_page list" where
  "groupDetections lc counts =
     (let pages = js_sort (\<lambda>a b. cmp_or (dp_count b - dp_count a) (lc (dp_path a) (dp_path b)))
                    (fold add_count counts []);
          sorted = map (\<lambda>p. p\<lparr>dp_kinds := js_sort (\<lambda>a b. cmp_or (snd b - snd a) (lc (fst a) (fst b))) (dp_kinds p)\<rparr>) pages
      in (sum_list (map dp_count sorted), sorted))"

text \<open>\<open>detectionLines\<close>: the pages listed, each with its kinds, and how many are not.\<close>

definition detectionLines :: "detection_page list \<Rightarrow> (string \<times> (string \<times> int) list) list \<times> nat option" where
  "detectionLines pages =
     (let listed = map (\<lambda>p. (dp_path p, dp_kinds p)) (take MAX_REPORT_PATHS pages);
          rest = length pages - length listed
      in (listed, if 0 < rest then Some rest else None))"

lemma add_count_paths:
  "distinct (map dp_path ps) \<Longrightarrow>
     distinct (map dp_path (add_count c ps)) \<and> set (map dp_path (add_count c ps)) = insert (dc_path c) (set (map dp_path ps))"
  by (induction ps) auto

lemma add_count_kinds:
  "distinct (map dp_path ps) \<Longrightarrow> \<forall>p \<in> set ps. dp_kinds p = map (\<lambda>c. (dc_kind c, dc_count c)) (filter (\<lambda>c. dc_path c = dp_path p) cs)
     \<and> dp_count p = sum_list (map dc_count (filter (\<lambda>c. dc_path c = dp_path p) cs)) \<Longrightarrow>
   dc_path c \<notin> set (map dp_path ps) \<longrightarrow> filter (\<lambda>x. dc_path x = dc_path c) cs = [] \<Longrightarrow>
   \<forall>p \<in> set (add_count c ps). dp_kinds p = map (\<lambda>c. (dc_kind c, dc_count c)) (filter (\<lambda>c. dc_path c = dp_path p) (cs @ [c]))
     \<and> dp_count p = sum_list (map dc_count (filter (\<lambda>c. dc_path c = dp_path p) (cs @ [c])))"
  by (induction ps) (auto simp: image_iff split: if_splits)

lemma fold_add_count:
  "distinct (map dp_path (fold add_count cs [])) \<and> set (map dp_path (fold add_count cs [])) = dc_path ` set cs
   \<and> (\<forall>p \<in> set (fold add_count cs []).
        dp_kinds p = map (\<lambda>c. (dc_kind c, dc_count c)) (filter (\<lambda>c. dc_path c = dp_path p) cs)
        \<and> dp_count p = sum_list (map dc_count (filter (\<lambda>c. dc_path c = dp_path p) cs)))"
proof (induction cs rule: rev_induct)
  case Nil
  then show ?case by simp
next
  case (snoc c cs)
  let ?ps = "fold add_count cs []"
  from snoc have d: "distinct (map dp_path ?ps)" and s: "set (map dp_path ?ps) = dc_path ` set cs" by blast+
  from s have e: "dc_path c \<notin> set (map dp_path ?ps) \<longrightarrow> filter (\<lambda>x. dc_path x = dc_path c) cs = []"
    by (auto simp: filter_empty_conv image_iff)
  have k: "\<forall>p \<in> set (add_count c ?ps). dp_kinds p = map (\<lambda>c. (dc_kind c, dc_count c)) (filter (\<lambda>c. dc_path c = dp_path p) (cs @ [c]))
     \<and> dp_count p = sum_list (map dc_count (filter (\<lambda>c. dc_path c = dp_path p) (cs @ [c])))"
    by (rule add_count_kinds [OF d _ e]) (use snoc in blast)
  have "fold add_count (cs @ [c]) [] = add_count c ?ps" by simp
  with add_count_paths [OF d, of c] k s show ?case by (simp del: fold_append filter_append)
qed

lemma add_count_total: "sum_list (map dp_count (add_count c ps)) = dc_count c + sum_list (map dp_count ps)"
  by (induction ps) auto

lemma fold_add_count_total: "sum_list (map dp_count (fold add_count cs [])) = sum_list (map dc_count cs)"
  by (induction cs rule: rev_induct) (simp_all add: add_count_total)

definition busier_page :: "(string \<Rightarrow> string \<Rightarrow> int) \<Rightarrow> detection_page \<Rightarrow> detection_page \<Rightarrow> int" where
  "busier_page lc a b = cmp_or (dp_count b - dp_count a) (lc (dp_path a) (dp_path b))"

definition sort_kinds :: "(string \<Rightarrow> string \<Rightarrow> int) \<Rightarrow> detection_page \<Rightarrow> detection_page" where
  "sort_kinds lc p = p\<lparr>dp_kinds := js_sort (\<lambda>a b. cmp_or (snd b - snd a) (lc (fst a) (fst b))) (dp_kinds p)\<rparr>"

lemma groupDetections_eq:
  "groupDetections lc counts =
     (let sorted = map (sort_kinds lc) (js_sort (busier_page lc) (fold add_count counts []))
      in (sum_list (map dp_count sorted), sorted))"
  by (simp add: groupDetections_def busier_page_def [abs_def] sort_kinds_def [abs_def] Let_def)

lemma sort_kinds_simps [simp]:
  "dp_path (sort_kinds lc p) = dp_path p" "dp_count (sort_kinds lc p) = dp_count p"
  "mset (dp_kinds (sort_kinds lc p)) = mset (dp_kinds p)"
  by (simp_all add: sort_kinds_def sort_simps)

lemma busier_page_comparator: "comparator lc \<Longrightarrow> comparator (busier_page lc)"
  using comparator_cmp_or [OF comparator_int_key_desc [of dp_count] comparator_key [of lc dp_path]]
  by (simp add: busier_page_def [abs_def])

text \<open>
  The report loses and invents no detection: each path with a count is one page, the page holds
  exactly the kinds counted for it and their sum, the total is the sum of every count, and the pages
  run from the busiest down.
\<close>

theorem groupDetections_exact:
  assumes "groupDetections lc counts = (all_found, pages)" "comparator lc"
  shows "all_found = sum_list (map dc_count counts) \<and> distinct (map dp_path pages)
    \<and> set (map dp_path pages) = dc_path ` set counts
    \<and> (\<forall>p. p \<in> set pages \<longrightarrow>
         mset (dp_kinds p) = mset (map (\<lambda>c. (dc_kind c, dc_count c)) (filter (\<lambda>c. dc_path c = dp_path p) counts))
         \<and> dp_count p = sum_list (map dc_count (filter (\<lambda>c. dc_path c = dp_path p) counts)))
    \<and> sorted_wrt (\<lambda>a b. dp_count b \<le> dp_count a) pages"
proof -
  let ?raw = "fold add_count counts []"
  let ?s = "js_sort (busier_page lc) ?raw"
  from assms(1) have pages: "pages = map (sort_kinds lc) ?s" and n: "all_found = sum_list (map dp_count pages)"
    by (auto simp: groupDetections_eq Let_def)
  have paths: "map dp_path pages = map dp_path ?s" and counts: "map dp_count pages = map dp_count ?s"
    by (simp_all add: pages)
  have perm: "mset (map dp_path ?s) = mset (map dp_path ?raw)" "mset (map dp_count ?s) = mset (map dp_count ?raw)"
    by (simp_all add: sort_simps)
  note m = mset_eq_imp_distinct_iff [OF perm(1)] mset_eq_setD [OF perm(1)]
  have "distinct (map dp_path pages)" "set (map dp_path pages) = dc_path ` set counts"
    unfolding paths m using fold_add_count [of counts] by blast+
  moreover have "sum_list (map dp_count ?s) = sum_list (map dp_count ?raw)"
    by (metis perm(2) sum_mset_sum_list)
  then have "all_found = sum_list (map dc_count counts)" by (simp add: n counts fold_add_count_total)
  moreover have "sorted_wrt (\<lambda>a b. dp_count b \<le> dp_count a) pages"
  proof -
    have "sorted_wrt (\<lambda>a b. busier_page lc a b \<le> 0) ?s"
      by (rule comparator.sorted_js_sort [OF busier_page_comparator [OF assms(2)]])
    then show ?thesis unfolding pages sorted_wrt_map
      by (rule sorted_wrt_mono_rel [rotated]) (auto simp: busier_page_def cmp_or_def split: if_splits)
  qed
  moreover have "mset (dp_kinds p) = mset (map (\<lambda>c. (dc_kind c, dc_count c)) (filter (\<lambda>c. dc_path c = dp_path p) counts))
      \<and> dp_count p = sum_list (map dc_count (filter (\<lambda>c. dc_path c = dp_path p) counts))"
    if "p \<in> set pages" for p
  proof -
    from that obtain q where q: "q \<in> set ?raw" "p = sort_kinds lc q" by (auto simp: pages)
    from fold_add_count [of counts] q(1)
    have "dp_kinds q = map (\<lambda>c. (dc_kind c, dc_count c)) (filter (\<lambda>c. dc_path c = dp_path q) counts)"
      "dp_count q = sum_list (map dc_count (filter (\<lambda>c. dc_path c = dp_path q) counts))" by blast+
    with q(2) show ?thesis by simp
  qed
  ultimately show ?thesis by blast
qed

definition two_pages :: "detection_count list" where
  "two_pages = [\<lparr>dc_path = ''a.md'', dc_kind = ''us-ssn'', dc_count = 1\<rparr>, \<lparr>dc_path = ''b.md'', dc_kind = ''api-token'', dc_count = 2\<rparr>,
     \<lparr>dc_path = ''a.md'', dc_kind = ''api-token'', dc_count = 3\<rparr>]"

theorem groupDetections_exact_witness:
  "fst (groupDetections code_unit_cmp two_pages) = 6
   \<and> map dp_path (snd (groupDetections code_unit_cmp two_pages)) = [''a.md'', ''b.md'']
   \<and> sorted_wrt (\<lambda>a b. dp_count b \<le> dp_count a) (snd (groupDetections code_unit_cmp two_pages))"
proof -
  have "map dp_path (snd (groupDetections code_unit_cmp two_pages)) = [''a.md'', ''b.md'']"
    "fst (groupDetections code_unit_cmp two_pages) = 6" by code_simp+
  with groupDetections_exact [OF surjective_pairing cu.comparator_axioms, of two_pages] show ?thesis by blast
qed

end
