(* ===== verification/BrainConfig.thy ===== *)
theory BrainConfig
  imports Json PathPolicy PolicyDetect
begin

text \<open>
  What \<open>.isomorphic.json\<close> makes of a repository (\<open>src/lib/brain-config.ts\<close>): the map of path roles in
  either shape of the file, how writes land, and the settings of the index and of the review.  Reading a
  property of \<open>null\<close> throws, written \<open>None\<close>; what the repository answers about its default branch is an
  argument, \<open>None\<close> where asking fails.
\<close>

section \<open>Values of the file\<close>

definition get_prop :: "js_value \<Rightarrow> string \<Rightarrow> js_value option" where
  "get_prop v k =
     (case v of
        JNull \<Rightarrow> None
      | JUndefined \<Rightarrow> None
      | JObj es \<Rightarrow> Some (case map_of es k of Some x \<Rightarrow> x | None \<Rightarrow> JUndefined)
      | _ \<Rightarrow> Some JUndefined)"

definition nullish :: "js_value \<Rightarrow> bool" where
  "nullish v \<longleftrightarrow> v = JNull \<or> v = JUndefined"

text \<open>\<open>v?.k\<close> and \<open>a ?? b\<close>\<close>

definition opt_prop :: "js_value \<Rightarrow> string \<Rightarrow> js_value" where
  "opt_prop v k = (case get_prop v k of Some x \<Rightarrow> x | None \<Rightarrow> JUndefined)"

definition coalesce :: "js_value \<Rightarrow> js_value \<Rightarrow> js_value" where
  "coalesce a b = (if nullish a then b else a)"

definition stringList :: "js_value \<Rightarrow> string list \<Rightarrow> string list" where
  "stringList v fallback =
     (case v of
        JArr vs \<Rightarrow> List.map_filter (\<lambda>x. case x of JStr s \<Rightarrow> Some s | _ \<Rightarrow> None) vs
      | _ \<Rightarrow> fallback)"

section \<open>The roles of paths\<close>

definition path_role_of :: "string \<Rightarrow> path_role option" where
  "path_role_of s =
     (if s = ''content'' then Some ContentRole else if s = ''source'' then Some SourceRole
      else if s = ''log'' then Some LogRole else if s = ''system'' then Some SystemRole else None)"

definition role_entry :: "path_policy \<Rightarrow> string \<times> js_value \<Rightarrow> path_policy" where
  "role_entry out e =
     (case snd e of
        JStr s \<Rightarrow> (case path_role_of s of Some r \<Rightarrow> obj_set (fst e) r out | None \<Rightarrow> out)
      | _ \<Rightarrow> out)"

definition root_key :: "string \<Rightarrow> string" where
  "root_key r = (if normRoot r = [] then ''.'' else normRoot r)"

definition add_roots :: "path_role \<Rightarrow> string list \<Rightarrow> path_policy \<Rightarrow> path_policy" where
  "add_roots role roots out = foldl (\<lambda>acc r. obj_set (root_key r) role acc) out roots"

text \<open>The legacy fields, read off an object (or off a value that has no properties).\<close>

definition legacy_paths :: "js_value \<Rightarrow> path_policy" where
  "legacy_paths raw =
     (let out = add_roots SystemRole (stringList (opt_prop raw ''ignore'') [])
                  (add_roots SourceRole (stringList (opt_prop raw ''sourceRoots'') [''raw/''])
                     (add_roots ContentRole (stringList (opt_prop raw ''contentRoots'') [''wiki/'']) []));
          log_at = (case opt_prop raw ''logPath'' of JStr s \<Rightarrow> trim s | _ \<Rightarrow> ''wiki/log.md'')
      in if log_at \<noteq> [] then obj_set log_at LogRole out else out)"

definition parsePaths :: "js_value \<Rightarrow> path_policy option" where
  "parsePaths raw =
     (case get_prop raw ''paths'' of
        None \<Rightarrow> None
      | Some (JObj es) \<Rightarrow> Some (foldl role_entry [] es)
      | Some _ \<Rightarrow> Some (legacy_paths raw))"

section \<open>How writes land\<close>

datatype config_write_mode = DirectWrites | PullRequests
datatype merge_method = MergeCommit | SquashMerge | RebaseMerge

record repo_write_policy =
  rp_branch :: string
  rp_protected :: bool
  rp_merge :: merge_method

datatype source_of_truth = AppTruth | SourceTruth

record brain_config =
  bg_paths :: path_policy
  bg_write_mode :: config_write_mode
  bg_branch :: string
  bg_auto_merge :: bool
  bg_merge :: merge_method
  bg_fields :: "string list option"
  bg_truth :: source_of_truth
  bg_policy :: policy_mode
  bg_identity :: "string list"

definition DEFAULT_BRAIN_CONFIG :: brain_config where
  "DEFAULT_BRAIN_CONFIG =
     \<lparr>bg_paths = [(''wiki/'', ContentRole), (''raw/'', SourceRole), (''wiki/log.md'', LogRole)],
      bg_write_mode = DirectWrites, bg_branch = ''main'', bg_auto_merge = True, bg_merge = MergeCommit,
      bg_fields = None, bg_truth = AppTruth, bg_policy = PolicyShadow, bg_identity = [''email'']\<rparr>"

definition explicit_mode :: "js_value \<Rightarrow> config_write_mode option" where
  "explicit_mode v =
     (if v = JStr ''direct'' then Some DirectWrites else if v = JStr ''pull-request'' then Some PullRequests else None)"

definition resolveWritePolicy ::
  "repo_write_policy option \<Rightarrow> js_value \<Rightarrow> config_write_mode \<times> string \<times> merge_method" where
  "resolveWritePolicy asked rawMode =
     (case asked of
        None \<Rightarrow> (case explicit_mode rawMode of Some m \<Rightarrow> m | None \<Rightarrow> DirectWrites,
                 bg_branch DEFAULT_BRAIN_CONFIG, bg_merge DEFAULT_BRAIN_CONFIG)
      | Some p \<Rightarrow>
          (case explicit_mode rawMode of
             Some m \<Rightarrow> m
           | None \<Rightarrow> if rp_protected p then PullRequests else DirectWrites, rp_branch p, rp_merge p))"

section \<open>Loading\<close>

definition parseIdentityFields :: "js_value \<Rightarrow> string list option" where
  "parseIdentityFields raw =
     map_option
       (\<lambda>review. uniq (bg_identity DEFAULT_BRAIN_CONFIG
                 @ filter (\<lambda>f. f \<noteq> []) (map trim (stringList (opt_prop review ''identityFields'') []))))
       (get_prop raw ''review'')"

definition parsePolicyMode :: "js_value \<Rightarrow> policy_mode option" where
  "parsePolicyMode raw =
     map_option
       (\<lambda>review. if opt_prop (opt_prop review ''policy'') ''mode'' = JStr ''off'' then PolicyOff else PolicyShadow)
       (get_prop raw ''review'')"

text \<open>\<open>file\<close> is the content of \<open>.isomorphic.json\<close>, \<open>None\<close> where the repository has none.\<close>

definition raw_config :: "string option \<Rightarrow> js_value" where
  "raw_config file =
     (case file of
        None \<Rightarrow> JObj []
      | Some content \<Rightarrow> (case json_parse content of Some v \<Rightarrow> v | None \<Rightarrow> JObj []))"

definition fields_of :: "js_value \<Rightarrow> string list option" where
  "fields_of rawFields = (case rawFields of JArr _ \<Rightarrow> Some (stringList rawFields []) | _ \<Rightarrow> None)"

definition truth_of :: "js_value \<Rightarrow> source_of_truth" where
  "truth_of v = (if v = JStr ''source'' then SourceTruth else AppTruth)"

definition config_of :: "js_value \<Rightarrow> repo_write_policy option \<Rightarrow> brain_config option" where
  "config_of raw asked =
     (case (get_prop raw ''writes'', get_prop raw ''index'') of
        (Some writes, Some idx) \<Rightarrow>
          (let rawMode = coalesce (opt_prop writes ''mode'') (opt_prop raw ''writeMode'');
               rawAutoMerge = coalesce (opt_prop writes ''autoMerge'') (opt_prop raw ''autoMerge'');
               rawFields = coalesce (opt_prop idx ''fields'') (opt_prop raw ''indexedFields'')
           in case resolveWritePolicy asked rawMode of (writeMode, branch, mergeMethod) \<Rightarrow>
             Option.bind (parsePaths raw) (\<lambda>paths.
               Option.bind (parsePolicyMode raw) (\<lambda>policy.
                 map_option (\<lambda>identity.
                   \<lparr>bg_paths = paths, bg_write_mode = writeMode, bg_branch = branch,
                    bg_auto_merge = (case rawAutoMerge of JBool b \<Rightarrow> b | _ \<Rightarrow> bg_auto_merge DEFAULT_BRAIN_CONFIG),
                    bg_merge = mergeMethod, bg_fields = fields_of rawFields,
                    bg_truth = truth_of (opt_prop raw ''sourceOfTruth''),
                    bg_policy = policy, bg_identity = identity\<rparr>)
                   (parseIdentityFields raw))))
      | _ \<Rightarrow> None)"

definition loadBrainConfig :: "string option \<Rightarrow> repo_write_policy option \<Rightarrow> brain_config option" where
  "loadBrainConfig file asked = config_of (raw_config file) asked"

text \<open>\<open>loadIndexConfig\<close>: \<open>Inl\<close> where reading the file failed, the known configuration then standing.\<close>

definition loadIndexConfig :: "unit + string option \<Rightarrow> brain_config \<Rightarrow> brain_config option" where
  "loadIndexConfig file fallback =
     (case file of
        Inl _ \<Rightarrow> Some fallback
      | Inr content \<Rightarrow>
          (let raw = raw_config content in
           case get_prop raw ''index'' of
             None \<Rightarrow> None
           | Some idx \<Rightarrow>
               map_option
                 (\<lambda>paths. fallback\<lparr>bg_paths := paths,
                    bg_fields := fields_of (coalesce (opt_prop idx ''fields'') (opt_prop raw ''indexedFields'')),
                    bg_truth := truth_of (opt_prop raw ''sourceOfTruth'')\<rparr>)
                 (parsePaths raw)))"

section \<open>The files that are not pages\<close>

definition listNonPagePaths :: "string list \<Rightarrow> path_policy \<Rightarrow> string list \<times> string list" where
  "listNonPagePaths tree cfg =
     (let others = filter (\<lambda>p. \<not> (ends_with p ''.md'' \<and> isContentPath p cfg)) tree
      in (js_sort code_unit_cmp (filter (\<lambda>p. isAssetPath p cfg) others),
          js_sort code_unit_cmp (filter (\<lambda>p. \<not> isAssetPath p cfg) others)))"

section \<open>What a bad file can do\<close>

lemma get_prop_None: "get_prop v k = None \<longleftrightarrow> nullish v"
  by (simp add: get_prop_def nullish_def split: js_value.splits)

lemma config_of_None: "config_of raw asked = None \<longleftrightarrow> nullish raw"
proof (cases "nullish raw")
  case True
  then have "get_prop raw ''writes'' = None" by (simp add: get_prop_None)
  with True show ?thesis by (simp add: config_of_def)
next
  case False
  then have some: "\<exists>x. get_prop raw k = Some x" for k using get_prop_None [of raw k] by auto
  obtain w i where w: "get_prop raw ''writes'' = Some w" "get_prop raw ''index'' = Some i"
    using some by meson
  obtain r where r: "get_prop raw ''review'' = Some r" using some by blast
  obtain q where q: "get_prop raw ''paths'' = Some q" using some by blast
  have "\<exists>ps. parsePaths raw = Some ps" using q by (cases q) (simp_all add: parsePaths_def)
  with False w r show ?thesis
    by (auto simp: config_of_def parsePolicyMode_def parseIdentityFields_def Let_def split: prod.splits)
qed

lemma json_word_value: "json_word w v s = Some (x, r) \<Longrightarrow> x = v"
  by (simp add: json_word_def split: if_splits)

lemma json_value_defined: "json_value n s = Some (v, r) \<Longrightarrow> v \<noteq> JUndefined"
  by (cases n) (auto split: list.splits if_splits dest!: json_word_value)

lemma load_fails_iff:
  "loadBrainConfig file asked = None \<longleftrightarrow> (case file of Some content \<Rightarrow> json_parse content = Some JNull | None \<Rightarrow> False)"
proof -
  have "json_parse s \<noteq> Some JUndefined" for s
    by (auto simp: json_parse_def simp del: json_value.simps split: option.splits if_splits dest: json_value_defined)
  then show ?thesis
    by (auto simp: loadBrainConfig_def config_of_None raw_config_def nullish_def split: option.splits)
qed

lemma null_config_fails: "loadBrainConfig (Some ''null'') asked = None"
proof -
  have "json_parse ''null'' = Some JNull" by code_simp
  then show ?thesis by (simp add: load_fails_iff)
qed

section \<open>Defaults and types\<close>

lemma enumerated_obj_set: "enumerated ob \<Longrightarrow> enumerated (obj_set k v ob)"
  by (simp add: obj_set_def enumerated_define)

lemma add_roots_enumerated: "enumerated ob \<Longrightarrow> enumerated (add_roots r ks ob)"
  unfolding add_roots_def by (induction ks arbitrary: ob) (simp_all add: enumerated_obj_set)

lemma role_entries_enumerated: "enumerated ob \<Longrightarrow> enumerated (foldl role_entry ob es)"
  by (induction es arbitrary: ob)
     (simp_all add: role_entry_def enumerated_obj_set split: js_value.splits option.splits)

lemma parsePaths_enumerated: "parsePaths raw = Some ps \<Longrightarrow> enumerated ps"
  by (auto simp: parsePaths_def legacy_paths_def Let_def enumerated_Nil role_entries_enumerated
        add_roots_enumerated enumerated_obj_set split: option.splits js_value.splits if_splits)

lemma config_fields:
  "config_of raw asked = Some c \<Longrightarrow>
     parsePaths raw = Some (bg_paths c) \<and> parsePolicyMode raw = Some (bg_policy c) \<and> parseIdentityFields raw = Some (bg_identity c)"
  by (auto simp: config_of_def Let_def bind_eq_Some_conv split: option.splits prod.splits)

lemma identity_shape: "parseIdentityFields raw = Some ids \<Longrightarrow> \<exists>fs. ids = uniq (''email'' # fs)"
proof -
  have e: "bg_identity DEFAULT_BRAIN_CONFIG @ fs = ''email'' # fs" for fs by (simp add: DEFAULT_BRAIN_CONFIG_def)
  assume "parseIdentityFields raw = Some ids"
  then show ?thesis unfolding parseIdentityFields_def e
    by (cases "get_prop raw ''review''") (auto simp del: uniq.simps)
qed

text \<open>
  Every configuration that loads is well formed: its map of roles is a JavaScript object without the
  key \<open>__proto__\<close>, the identity fields begin with \<open>email\<close> and repeat none, and the guard is off only where
  the file says the word.
\<close>

theorem loaded_config_typed:
  assumes "loadBrainConfig file asked = Some c"
  shows "js_object (bg_paths c) \<and> distinct (bg_identity c) \<and> take 1 (bg_identity c) = [''email'']
    \<and> (bg_policy c = PolicyOff \<longleftrightarrow> opt_prop (opt_prop (opt_prop (raw_config file) ''review'') ''policy'') ''mode'' = JStr ''off'')"
proof -
  have f: "parsePaths (raw_config file) = Some (bg_paths c)" "parsePolicyMode (raw_config file) = Some (bg_policy c)"
    "parseIdentityFields (raw_config file) = Some (bg_identity c)"
    using config_fields [OF assms [unfolded loadBrainConfig_def]] by blast+
  have "js_object (bg_paths c)" by (rule enumerated_js_object [OF parsePaths_enumerated [OF f(1)]])
  moreover obtain fs where "bg_identity c = uniq (''email'' # fs)"
    using identity_shape [OF f(3)] by blast
  then have "distinct (bg_identity c)" "take 1 (bg_identity c) = [''email'']" by (simp_all only: distinct_uniq) simp
  moreover obtain rv where "get_prop (raw_config file) ''review'' = Some rv"
    "bg_policy c = (if opt_prop (opt_prop rv ''policy'') ''mode'' = JStr ''off'' then PolicyOff else PolicyShadow)"
    using f(2) by (auto simp: parsePolicyMode_def)
  then have "bg_policy c = PolicyOff \<longleftrightarrow> opt_prop (opt_prop (opt_prop (raw_config file) ''review'') ''policy'') ''mode'' = JStr ''off''"
    by (simp add: opt_prop_def [of "raw_config file"])
  ultimately show ?thesis by blast
qed

definition guard_off_file :: string where
  "guard_off_file =
     concat (map (\<lambda>c. [if c = SQUOTE then DQUOTE else c])
       (''{'' @ [SQUOTE] @ ''review'' @ [SQUOTE] @ '': {'' @ [SQUOTE] @ ''policy'' @ [SQUOTE] @ '': {''
        @ [SQUOTE] @ ''mode'' @ [SQUOTE] @ '': '' @ [SQUOTE] @ ''off'' @ [SQUOTE] @ ''}}}''))"

theorem loaded_config_typed_witness:
  "\<exists>c. loadBrainConfig (Some guard_off_file) None = Some c \<and> bg_policy c = PolicyOff \<and> js_object (bg_paths c)"
proof -
  have p: "json_parse guard_off_file = Some (JObj [(''review'', JObj [(''policy'', JObj [(''mode'', JStr ''off'')])])])"
    by code_simp
  then obtain c where c: "loadBrainConfig (Some guard_off_file) None = Some c"
    using load_fails_iff [of "Some guard_off_file" None] by fastforce
  from p have "opt_prop (opt_prop (opt_prop (raw_config (Some guard_off_file)) ''review'') ''policy'') ''mode'' = JStr ''off''"
    by (simp add: raw_config_def opt_prop_def get_prop_def)
  with loaded_config_typed [OF c] c show ?thesis by blast
qed

definition default_config :: "repo_write_policy option \<Rightarrow> brain_config" where
  "default_config asked =
     (case asked of
        None \<Rightarrow> DEFAULT_BRAIN_CONFIG
      | Some p \<Rightarrow> DEFAULT_BRAIN_CONFIG\<lparr>bg_write_mode := (if rp_protected p then PullRequests else DirectWrites),
                    bg_branch := rp_branch p, bg_merge := rp_merge p\<rparr>)"

text \<open>
  A repository without the file, or with one that does not parse, is read under the default
  configuration; only how writes land comes from the repository itself.
\<close>

lemma absent_config_is_default:
  assumes "case file of None \<Rightarrow> True | Some content \<Rightarrow> json_parse content = None"
  shows "loadBrainConfig file asked = Some (default_config asked)"
proof -
  have raw: "raw_config file = JObj []" using assms by (auto simp: raw_config_def split: option.splits)
  have "parsePaths (JObj []) = Some (bg_paths DEFAULT_BRAIN_CONFIG)" by code_simp
  moreover have "parsePolicyMode (JObj []) = Some PolicyShadow" by code_simp
  moreover have "parseIdentityFields (JObj []) = Some [''email'']" by code_simp
  ultimately show ?thesis
    by (cases asked)
       (simp_all add: default_config_def loadBrainConfig_def raw config_of_def get_prop_def opt_prop_def coalesce_def nullish_def
          resolveWritePolicy_def explicit_mode_def fields_of_def truth_of_def Let_def DEFAULT_BRAIN_CONFIG_def)
qed

text \<open>
  C37. Loading the configuration fails on exactly one file: the one whose whole content is \<open>null\<close>.  Any
  other content gives a configuration, and content that is no JSON at all gives the one a repository
  without the file has: the defaults, with what the repository itself says of how writes land.
\<close>

theorem bad_config_never_breaks_but_null:
  "(loadBrainConfig file asked = None \<longleftrightarrow> (case file of Some content \<Rightarrow> json_parse content = Some JNull | None \<Rightarrow> False))
   \<and> ((case file of Some content \<Rightarrow> json_parse content = None | None \<Rightarrow> True)
        \<longrightarrow> loadBrainConfig file asked = Some (default_config asked))"
  by (simp add: load_fails_iff absent_config_is_default split: option.split)

theorem bad_config_never_breaks_but_null_witness:
  "loadBrainConfig (Some ''{oops'') None = Some DEFAULT_BRAIN_CONFIG"
proof -
  have "json_parse ''{oops'' = None" by code_simp
  then show ?thesis
    using bad_config_never_breaks_but_null [of "Some ''{oops''" None] by (simp add: default_config_def)
qed

text \<open>
  The file tree is accounted for: every path of the repository is exactly one of a page, an
  attachment and a hidden file, as often as the tree lists it.
\<close>

theorem file_tree_partitioned:
  "mset tree = mset (filter (\<lambda>p. ends_with p ''.md'' \<and> isContentPath p cfg) tree)
      + mset (fst (listNonPagePaths tree cfg)) + mset (snd (listNonPagePaths tree cfg))
   \<and> set (fst (listNonPagePaths tree cfg)) \<inter> set (snd (listNonPagePaths tree cfg)) = {}
   \<and> sorted (fst (listNonPagePaths tree cfg)) \<and> sorted (snd (listNonPagePaths tree cfg))"
proof -
  have srt: "sorted (js_sort code_unit_cmp xs)" for xs
    using cu.sorted_js_sort [of xs]
    by (rule sorted_wrt_mono_rel [rotated]) (simp add: code_unit_cmp_def split: if_splits)
  have part: "mset (filter Q xs) + mset (filter (\<lambda>p. \<not> Q p) xs) = mset xs" for Q and xs :: "string list"
    by (induction xs) simp_all
  have whole: "mset tree = mset (filter P tree) + mset (filter A (filter (\<lambda>p. \<not> P p) tree))
      + mset (filter (\<lambda>p. \<not> A p) (filter (\<lambda>p. \<not> P p) tree))" for P A
    using part [of P tree] part [of A "filter (\<lambda>p. \<not> P p) tree"] by (metis add.assoc)
  show ?thesis unfolding listNonPagePaths_def Let_def fst_conv snd_conv mset_js_sort
    by (intro conjI srt whole) auto
qed

end
