(* ===== verification/Findings.thy ===== *)
theory Findings
  imports Json
begin

text \<open>
  Findings and the ledger of decisions about them (\<open>src/lib/findings.ts\<close>): keys, the ledger and its file,
  what a report leaves out and what it shows.  A number of the file is the text it is written as; a
  weight is an exact rational.
\<close>

record finding =
  fd_key :: string
  fd_headline :: string
  fd_weight :: rat
  fd_cluster :: "string option"

record dismissal =
  dm_key :: string
  dm_why :: string
  dm_at :: string

record review_ledger =
  rl_version :: string
  rl_dismissed :: "dismissal list"

definition LEDGER_VERSION :: string where "LEDGER_VERSION = ''1''"

definition IMPORT_PREFIX :: string where "IMPORT_PREFIX = ''import:''"

section \<open>Keys\<close>

definition isImportKey :: "string \<Rightarrow> bool" where
  "isImportKey k \<longleftrightarrow> starts_with k IMPORT_PREFIX"

definition parseImportKey :: "string \<Rightarrow> (string \<times> string) option" where
  "parseImportKey k =
     (if \<not> isImportKey k then None
      else let rest = drop (length IMPORT_PREFIX) k in
        case index_of rest '':'' of
          None \<Rightarrow> None
        | Some colon \<Rightarrow>
              if colon = 0 \<or> colon = length rest - 1 then None else Some (take colon rest, drop (colon + 1) rest))"

definition importKey :: "string \<Rightarrow> string \<Rightarrow> string" where
  "importKey source recordKey = IMPORT_PREFIX @ source @ '':'' @ recordKey"

text \<open>The path of a question without one reads \<open>undefined\<close>, as a template prints it.\<close>

datatype question_kind = NeedsDecision | ProposedDeletion

record import_question =
  iq_key :: string
  iq_kind :: question_kind
  iq_path :: "string option"
  iq_reason :: string

definition quoted :: "string \<Rightarrow> string" where
  "quoted s = [DQUOTE] @ s @ [DQUOTE]"

definition importFindings :: "string \<Rightarrow> import_question list \<Rightarrow> finding list" where
  "importFindings source waiting =
     map (\<lambda>q. \<lparr>fd_key = importKey source (iq_key q),
        fd_headline =
          (if iq_kind q = ProposedDeletion
           then ''- '' @ quoted (iq_key q) @ '' ('' @ (case iq_path q of Some p \<Rightarrow> p | None \<Rightarrow> ''undefined'') @ ''): ''
                @ iq_reason q @ ''. Delete it, or keep it and suppress the key.''
           else ''- '' @ quoted (iq_key q) @ '': '' @ iq_reason q),
        fd_weight = 4, fd_cluster = None\<rparr>) waiting"

definition findingKey :: "string \<Rightarrow> string list \<Rightarrow> string" where
  "findingKey kind identity = kind @ '':'' @ join_with ''|'' (js_sort code_unit_cmp identity)"

section \<open>The ledger\<close>

text \<open>\<open>String(v)\<close> of a value read from the file.\<close>

fun js_string :: "js_value \<Rightarrow> string" where
  "js_string JUndefined = ''undefined''"
| "js_string JNull = ''null''"
| "js_string (JBool b) = (if b then ''true'' else ''false'')"
| "js_string (JNum n) = n"
| "js_string (JStr s) = s"
| "js_string (JArr vs) = join_with '','' (map (\<lambda>v. if v = JNull \<or> v = JUndefined then [] else js_string v) vs)"
| "js_string (JObj es) = ''[object Object]''"

definition own :: "js_value \<Rightarrow> string \<Rightarrow> js_value" where
  "own v k = (case v of JObj es \<Rightarrow> (case map_of es k of Some x \<Rightarrow> x | None \<Rightarrow> JUndefined) | _ \<Rightarrow> JUndefined)"

definition or_empty :: "js_value \<Rightarrow> string" where
  "or_empty v = (if v = JNull \<or> v = JUndefined then [] else js_string v)"

definition ledger_entry :: "js_value \<Rightarrow> dismissal option" where
  "ledger_entry d =
     (case own d ''key'' of
        JStr k \<Rightarrow> Some \<lparr>dm_key = k, dm_why = or_empty (own d ''why''), dm_at = or_empty (own d ''at'')\<rparr>
      | _ \<Rightarrow> None)"

datatype ledger_error = NotJson | NotAnObject

definition parseReviewLedger :: "string option \<Rightarrow> ledger_error + review_ledger" where
  "parseReviewLedger raw =
     (case raw of
        None \<Rightarrow> Inr \<lparr>rl_version = LEDGER_VERSION, rl_dismissed = []\<rparr>
      | Some t \<Rightarrow>
          if trim t = [] then Inr \<lparr>rl_version = LEDGER_VERSION, rl_dismissed = []\<rparr>
          else case json_parse t of
            None \<Rightarrow> Inl NotJson
          | Some v \<Rightarrow>
              (case v of
                 JObj _ \<Rightarrow>
                   Inr \<lparr>rl_version = (case own v ''version'' of JNum n \<Rightarrow> n | _ \<Rightarrow> LEDGER_VERSION),
                        rl_dismissed = (case own v ''dismissed'' of JArr ds \<Rightarrow> List.map_filter ledger_entry ds | _ \<Rightarrow> [])\<rparr>
               | JArr _ \<Rightarrow> Inr \<lparr>rl_version = LEDGER_VERSION, rl_dismissed = []\<rparr>
               | _ \<Rightarrow> Inl NotAnObject))"

definition entry_json :: "dismissal \<Rightarrow> js_value" where
  "entry_json d = JObj [(''key'', JStr (dm_key d)), (''why'', JStr (dm_why d)), (''at'', JStr (dm_at d))]"

definition serializeReviewLedger :: "review_ledger \<Rightarrow> string" where
  "serializeReviewLedger l =
     json_pretty (JObj [(''version'', JNum LEDGER_VERSION), (''dismissed'', JArr (map entry_json (rl_dismissed l)))]) @ [NL]"

definition dismissFinding :: "review_ledger \<Rightarrow> string \<Rightarrow> string \<Rightarrow> string \<Rightarrow> review_ledger" where
  "dismissFinding l key why when =
     (if \<exists>d \<in> set (rl_dismissed l). dm_key d = key then l
      else l\<lparr>rl_dismissed := rl_dismissed l @ [\<lparr>dm_key = key, dm_why = why, dm_at = when\<rparr>]\<rparr>)"

definition undismissFinding :: "review_ledger \<Rightarrow> string \<Rightarrow> review_ledger" where
  "undismissFinding l key = l\<lparr>rl_dismissed := filter (\<lambda>d. dm_key d \<noteq> key) (rl_dismissed l)\<rparr>"

definition filterDismissed :: "finding list \<Rightarrow> review_ledger \<Rightarrow> finding list" where
  "filterDismissed findings l = filter (\<lambda>f. fd_key f \<notin> set (map dm_key (rl_dismissed l))) findings"

text \<open>\<open>renderFindings\<close>: the headlines shown with their keys, and how many are not.\<close>

definition by_weight :: "(string \<Rightarrow> string \<Rightarrow> int) \<Rightarrow> finding \<Rightarrow> finding \<Rightarrow> int" where
  "by_weight lc a b =
     (if fd_weight b < fd_weight a then -1 else if fd_weight a < fd_weight b then 1 else lc (fd_key a) (fd_key b))"

definition renderFindings ::
  "(string \<Rightarrow> string \<Rightarrow> int) \<Rightarrow> finding list \<Rightarrow> nat \<Rightarrow> (string \<times> string) list \<times> nat \<times> nat" where
  "renderFindings lc findings limit =
     (let ranked = js_sort (by_weight lc) findings; listed = take limit ranked
      in (map (\<lambda>f. (fd_headline f, fd_key f)) listed, length listed, length ranked - length listed))"

section \<open>The file reads back\<close>

lemma entry_json_wf: "json_wf (entry_json d)"
  by (auto simp: entry_json_def enumerated_def index_before_def is_array_index_def is_digit_def)

lemma ledger_entry_json: "ledger_entry (entry_json d) = Some d"
  by (simp add: ledger_entry_def entry_json_def own_def or_empty_def)

lemma map_filter_entries: "List.map_filter ledger_entry (map entry_json ds) = ds"
  by (induction ds) (simp_all add: List.map_filter_def ledger_entry_json)

lemma ledger_reads_back:
  "parseReviewLedger (Some (serializeReviewLedger l)) = Inr (l\<lparr>rl_version := LEDGER_VERSION\<rparr>)"
proof -
  let ?v = "JObj [(''version'', JNum LEDGER_VERSION), (''dismissed'', JArr (map entry_json (rl_dismissed l)))]"
  have "json_wf ?v"
    by (auto simp: enumerated_def index_before_def is_array_index_def is_digit_def LEDGER_VERSION_def
        json_int_literal_def entry_json_wf)
  then have "json_parse (serializeReviewLedger l) = Some ?v"
    unfolding serializeReviewLedger_def json_pretty_def
    by (intro json_roundtrip) (simp_all add: json_space_def)
  moreover have "CHR ''{'' \<in> set (serializeReviewLedger l)"
    by (simp add: serializeReviewLedger_def json_pretty_def Let_def)
  then have "trim (serializeReviewLedger l) \<noteq> []" unfolding trim_eq_Nil by (force simp: is_space_def)
  ultimately show ?thesis by (simp add: parseReviewLedger_def own_def map_filter_entries)
qed

text \<open>
  C40. The ledger of decisions survives its file: whatever text a reason holds, what is written is read
  back entry for entry, in order, under the current version.
\<close>

theorem review_ledger_roundtrip:
  "parseReviewLedger (Some (serializeReviewLedger l)) = Inr (l\<lparr>rl_version := LEDGER_VERSION\<rparr>)"
  by (rule ledger_reads_back)

section \<open>Decisions stick\<close>

lemma dismissed_keys: "set (map dm_key (rl_dismissed (dismissFinding l k w t))) = insert k (set (map dm_key (rl_dismissed l)))"
  by (auto simp: dismissFinding_def)

lemma dismissFinding_known: "k \<in> set (map dm_key (rl_dismissed l)) \<Longrightarrow> dismissFinding l k w t = l"
  by (auto simp: dismissFinding_def)

text \<open>
  C38. A decision sticks through the file: once a finding is dismissed and the ledger written, every later
  report read from that file leaves it out and keeps every finding nobody decided about; deciding
  again changes nothing, and taking the decision back raises exactly it again.
\<close>

theorem dismissal_sticks:
  "\<exists>l'. parseReviewLedger (Some (serializeReviewLedger (dismissFinding l k w t))) = Inr l'
    \<and> filterDismissed fs l' = filter (\<lambda>f. fd_key f \<noteq> k) (filterDismissed fs l)
    \<and> dismissFinding l' k w2 t2 = l'
    \<and> filterDismissed fs (undismissFinding l' k) = filter (\<lambda>f. \<not> (fd_key f \<noteq> k \<and> fd_key f \<in> set (map dm_key (rl_dismissed l)))) fs"
proof -
  let ?l = "(dismissFinding l k w t)\<lparr>rl_version := LEDGER_VERSION\<rparr>"
  have keys: "set (map dm_key (rl_dismissed ?l)) = insert k (set (map dm_key (rl_dismissed l)))"
    using dismissed_keys [of l k w t] by simp
  then have "filterDismissed fs ?l = filter (\<lambda>f. fd_key f \<noteq> k) (filterDismissed fs l)"
    unfolding filterDismissed_def keys filter_filter by (intro filter_cong) auto
  moreover have "dismissFinding ?l k w2 t2 = ?l" using keys by (intro dismissFinding_known) simp
  moreover have un: "set (map dm_key (rl_dismissed (undismissFinding ?l k))) = insert k (set (map dm_key (rl_dismissed l))) - {k}"
    unfolding keys [symmetric] by (auto simp: undismissFinding_def)
  have "filterDismissed fs (undismissFinding ?l k) = filter (\<lambda>f. \<not> (fd_key f \<noteq> k \<and> fd_key f \<in> set (map dm_key (rl_dismissed l)))) fs"
    unfolding filterDismissed_def un by (intro filter_cong refl) blast
  moreover have "parseReviewLedger (Some (serializeReviewLedger (dismissFinding l k w t))) = Inr ?l"
    by (rule ledger_reads_back)
  ultimately show ?thesis by blast
qed

lemma by_weight_comparator:
  assumes "comparator lc" shows "comparator (by_weight lc)"
proof
  fix x y z :: finding
  show "by_weight lc x y < 0 \<longleftrightarrow> 0 < by_weight lc y x"
    using comparator.cmp_swap [OF assms, of "fd_key x" "fd_key y"] by (auto simp: by_weight_def)
  show "by_weight lc x y \<le> 0 \<Longrightarrow> by_weight lc y z \<le> 0 \<Longrightarrow> by_weight lc x z \<le> 0"
    using comparator.cmp_trans [OF assms, of "fd_key x" "fd_key y" "fd_key z"]
    by (auto simp: by_weight_def split: if_splits)
qed

text \<open>
  A capped report hides only what ranks below what it shows, and says how many it hides.
\<close>

theorem report_shows_the_top:
  assumes "comparator lc" "renderFindings lc findings limit = (listed, shown, hidden)"
  shows "shown = length listed \<and> shown + hidden = length findings \<and> shown \<le> limit
    \<and> (\<exists>above below. mset (above @ below) = mset findings \<and> listed = map (\<lambda>f. (fd_headline f, fd_key f)) above
         \<and> sorted_wrt (\<lambda>a b. fd_weight b \<le> fd_weight a) (above @ below))"
proof -
  let ?up = "take limit (js_sort (by_weight lc) findings)" and ?down = "drop limit (js_sort (by_weight lc) findings)"
  have "sorted_wrt (\<lambda>a b. by_weight lc a b \<le> 0) (js_sort (by_weight lc) findings)"
    by (rule comparator.sorted_js_sort [OF by_weight_comparator [OF assms(1)]])
  then have "sorted_wrt (\<lambda>a b. fd_weight b \<le> fd_weight a) (js_sort (by_weight lc) findings)"
    by (rule sorted_wrt_mono_rel [rotated]) (auto simp: by_weight_def split: if_splits)
  then have srt: "sorted_wrt (\<lambda>a b. fd_weight b \<le> fd_weight a) (?up @ ?down)" by simp
  have "mset (?up @ ?down) = mset findings" unfolding append_take_drop_id by (simp add: sort_simps)
  moreover have "listed = map (\<lambda>f. (fd_headline f, fd_key f)) ?up" and n: "shown = length listed" "hidden = length findings - shown"
    using assms(2) by (auto simp: renderFindings_def Let_def)
  ultimately have "\<exists>above below. mset (above @ below) = mset findings \<and> listed = map (\<lambda>f. (fd_headline f, fd_key f)) above
      \<and> sorted_wrt (\<lambda>a b. fd_weight b \<le> fd_weight a) (above @ below)" using srt by blast
  moreover have "length listed \<le> limit" "length listed \<le> length findings"
    using \<open>listed = _\<close> by simp_all
  ultimately show ?thesis using n by simp
qed

theorem report_shows_the_top_witness:
  "\<exists>above below. mset (above @ below) = mset [\<lparr>fd_key = ''a'', fd_headline = ''x'', fd_weight = 1, fd_cluster = None\<rparr>,
      \<lparr>fd_key = ''b'', fd_headline = ''y'', fd_weight = 4, fd_cluster = None\<rparr>]
     \<and> map (\<lambda>f. (fd_headline f, fd_key f)) above = [(''y'', ''b'')]"
proof -
  let ?fs = "[\<lparr>fd_key = ''a'', fd_headline = ''x'', fd_weight = 1, fd_cluster = None\<rparr>,
      \<lparr>fd_key = ''b'', fd_headline = ''y'', fd_weight = 4, fd_cluster = None\<rparr>]"
  have "renderFindings code_unit_cmp ?fs 1 = ([(''y'', ''b'')], 1, 1)"
    by (simp add: renderFindings_def by_weight_def)
  from report_shows_the_top [OF cu.comparator_axioms this] show ?thesis by metis
qed

lemma import_key_parts:
  assumes "source \<noteq> []" "CHR '':'' \<notin> set source" "recordKey \<noteq> []"
  shows "parseImportKey (importKey source recordKey) = Some (source, recordKey)"
proof -
  have "index_of (source @ '':'' @ recordKey) '':'' = Some (length source)"
    using assms(2) by (induction source) (auto simp: starts_with_def)
  with assms show ?thesis by (simp add: parseImportKey_def importKey_def isImportKey_def starts_with_def IMPORT_PREFIX_def Let_def)
qed

end
