(* ===== verification/ReviewQueue.thy ===== *)
theory ReviewQueue
  imports Findings PolicyDetect OrgTables
begin

text \<open>
  The queue of review findings (\<open>src/lib/review-queue.ts\<close>): keys, the rows of \<open>review_findings\<close> and
  \<open>policy_dismissals\<close> with their JSON columns as text, who sees and decides what, clusters, and the
  check of policy findings against the repository.  HMAC is a parameter; the keys of conflict findings and
  the labels of facts, which need the Unicode normal forms, are left out.  Scores are integers, as the scan
  writes them.
\<close>

record queue_finding =
  qf_key :: string
  qf_kind :: string
  qf_paths :: "string list"
  qf_headline :: string
  qf_evidence :: "string list"
  qf_proposal :: js_value
  qf_scores :: "int obj option"
  qf_shas :: "string obj"
  qf_run :: string
  qf_cluster :: "string option"
  qf_author :: "string option"

definition FINDING_WEIGHT :: rat where "FINDING_WEIGHT = 4"
definition POLICY_WEIGHT :: rat where "POLICY_WEIGHT = 5"
definition POLICY_RESCAN_BUDGET :: nat where "POLICY_RESCAN_BUDGET = 100"
definition POLICY_PREFIX :: string where "POLICY_PREFIX = ''policy:''"

section \<open>Keys\<close>

definition policyKey :: "string \<Rightarrow> string \<Rightarrow> string" where
  "policyKey path kind = POLICY_PREFIX @ path @ '':'' @ kind"

definition isPolicyKey :: "string \<Rightarrow> bool" where
  "isPolicyKey k \<longleftrightarrow> starts_with k POLICY_PREFIX"

definition policyKindOf :: "string \<Rightarrow> string" where
  "policyKindOf k = (case last_index_of k (CHR '':'') of Some i \<Rightarrow> drop (i + 1) k | None \<Rightarrow> k)"

section \<open>The guard as a producer\<close>

definition DETECTIONS :: string where "DETECTIONS = ''detections''"

text \<open>The \<open>Map\<close> of counts, in insertion order.\<close>

definition count_detection :: "(string \<times> string) list \<Rightarrow> string \<times> string \<Rightarrow> (string \<times> string) list" where
  "count_detection keys d = (if d \<in> set keys then keys else keys @ [d])"

definition policyFindings :: "(string \<times> string) list \<Rightarrow> string option \<Rightarrow> string \<Rightarrow> queue_finding list" where
  "policyFindings detections author runId =
     map (\<lambda>(path, kind).
        \<lparr>qf_key = policyKey path kind, qf_kind = ''policy'', qf_paths = [path],
         qf_headline = ''Sensitive data ('' @ kind @ '') in '' @ path @ ''.'',
         qf_evidence = [''Values are not stored, so read the file to review.''],
         qf_proposal = JNull, qf_scores = Some [(DETECTIONS, int (length (filter (\<lambda>d. d = (path, kind)) detections)))],
         qf_shas = [], qf_run = runId, qf_cluster = None, qf_author = author\<rparr>)
       (foldl count_detection [] detections)"

definition kind_count :: "string \<Rightarrow> string \<Rightarrow> nat" where
  "kind_count kind content = length (filter (\<lambda>d. kind_id (dt_kind d) = kind) (detectSensitive content))"

fun first_path :: "queue_finding \<Rightarrow> string option" where
  "first_path f = (case qf_paths f of p # _ \<Rightarrow> Some p | [] \<Rightarrow> None)"

type_synonym tree = "(string \<times> string) list"

definition sha_of :: "tree \<Rightarrow> string option \<Rightarrow> string option" where
  "sha_of entries path = nonempty (Option.bind path (map_of (rev entries)))"

datatype rescan_verdict = Close | Stands | Refresh queue_finding

definition rescan :: "tree \<Rightarrow> (string \<Rightarrow> string option) \<Rightarrow> queue_finding \<Rightarrow> rescan_verdict" where
  "rescan entries contents f =
     (case (first_path f, sha_of entries (first_path f)) of
        (Some path, Some sha) \<Rightarrow>
          if map_of (qf_shas f) path = Some sha then Stands
          else (case contents path of
            None \<Rightarrow> Stands
          | Some content \<Rightarrow>
              let n = kind_count (policyKindOf (qf_key f)) content in
              if n = 0 then Close
              else Refresh (f\<lparr>qf_shas := [(path, sha)], qf_scores := Some [(DETECTIONS, int n)]\<rparr>))
      | _ \<Rightarrow> Close)"

definition decidePolicyRescan ::
  "queue_finding list \<Rightarrow> tree \<Rightarrow> (string \<Rightarrow> string option) \<Rightarrow> string list \<times> queue_finding list" where
  "decidePolicyRescan findings entries contents =
     (map qf_key (filter (\<lambda>f. rescan entries contents f = Close) findings),
      List.map_filter (\<lambda>f. case rescan entries contents f of Refresh g \<Rightarrow> Some g | _ \<Rightarrow> None) findings)"

section \<open>Fingerprints of dismissed values\<close>

definition hex_of :: "string \<Rightarrow> string" where
  "hex_of bytes = concat (map (\<lambda>b. [''0123456789abcdef'' ! (code b div 16), ''0123456789abcdef'' ! (code b mod 16)]) bytes)"

definition policyFingerprintKey :: "(string \<Rightarrow> string \<Rightarrow> string) \<Rightarrow> string \<Rightarrow> string" where
  "policyFingerprintKey hmac secret = hmac secret ''isomorphic/policy-fingerprint/v1''"

definition canonicalValue :: "string \<Rightarrow> string \<Rightarrow> string" where
  "canonicalValue kind v = (if kind = ''us-ssn'' \<or> kind = ''card-number'' then only_digits v else v)"

definition values_of :: "string \<Rightarrow> string \<Rightarrow> string list" where
  "values_of kind content =
     map (\<lambda>d. canonicalValue kind (slice (dt_start d) (dt_end d) content))
       (filter (\<lambda>d. kind_id (dt_kind d) = kind) (detectSensitive content))"

abbreviation NUL :: char where "NUL \<equiv> CHR 0x00"

definition value_message :: "string \<Rightarrow> string \<Rightarrow> string \<Rightarrow> string" where
  "value_message brainId kind v = brainId @ [NUL] @ kind @ [NUL] @ v"

definition valueFingerprints ::
  "(string \<Rightarrow> string \<Rightarrow> string) \<Rightarrow> string \<Rightarrow> string \<Rightarrow> string \<Rightarrow> string \<Rightarrow> string list" where
  "valueFingerprints hmac key brainId kind content =
     js_sort code_unit_cmp (uniq (map (\<lambda>v. hex_of (hmac key (value_message brainId kind v))) (values_of kind content)))"

definition coveredByDismissal :: "string list \<Rightarrow> string list \<Rightarrow> bool" where
  "coveredByDismissal current dismissed \<longleftrightarrow> (\<forall>f \<in> set current. f \<in> set dismissed)"

section \<open>The tables\<close>

record finding_row =
  fr_brain :: string
  fr_key :: string
  fr_kind :: string
  fr_paths :: string
  fr_headline :: string
  fr_evidence :: string
  fr_proposal :: "string option"
  fr_scores :: "string option"
  fr_shas :: string
  fr_run :: string
  fr_cluster :: "string option"
  fr_author :: "string option"
  fr_created :: int
  fr_updated :: int

record dismissal_row =
  pd_brain :: string
  pd_key :: string
  pd_fingerprints :: string
  pd_sha :: string
  pd_why :: string
  pd_by :: "string option"
  pd_at :: int

record review_db =
  rv_findings :: "finding_row list"
  rv_dismissals :: "dismissal_row list"

text \<open>\<open>INSERT ... ON CONFLICT DO UPDATE\<close>: \<open>P\<close> is the conflict, \<open>f\<close> the update, \<open>new\<close> the row inserted.\<close>

definition row_upsert :: "('r \<Rightarrow> bool) \<Rightarrow> ('r \<Rightarrow> 'r) \<Rightarrow> 'r \<Rightarrow> 'r list \<Rightarrow> 'r list" where
  "row_upsert P f new rows = (if \<exists>r \<in> set rows. P r then row_update P f rows else rows @ [new])"

definition json_strings :: "string list \<Rightarrow> string" where
  "json_strings ss = json_stringify (JArr (map JStr ss))"

definition scores_json :: "int obj \<Rightarrow> js_value" where
  "scores_json ob = JObj (map (\<lambda>(k, n). (k, JNum (show_int n))) ob)"

definition shas_json :: "string obj \<Rightarrow> js_value" where
  "shas_json ob = JObj (map (\<lambda>(k, v). (k, JStr v)) ob)"

definition upsert_finding :: "string \<Rightarrow> int \<Rightarrow> queue_finding \<Rightarrow> finding_row list \<Rightarrow> finding_row list" where
  "upsert_finding brainId now f rows =
     (let paths = json_strings (qf_paths f); headline = scrubSensitive (qf_headline f);
          evidence = json_strings (map scrubSensitive (qf_evidence f));
          proposal = (if qf_proposal f \<in> {JNull, JUndefined} then None
                      else Some (scrubSensitive (json_stringify (qf_proposal f))));
          scores = map_option (json_stringify \<circ> scores_json) (qf_scores f);
          shas = json_stringify (shas_json (qf_shas f))
      in row_upsert (\<lambda>r. fr_brain r = brainId \<and> fr_key r = qf_key f)
           (\<lambda>r. r\<lparr>fr_kind := qf_kind f, fr_paths := paths, fr_headline := headline, fr_evidence := evidence,
                 fr_proposal := proposal, fr_scores := scores, fr_shas := shas, fr_run := qf_run f,
                 fr_cluster := qf_cluster f,
                 fr_author := (case qf_author f of Some a \<Rightarrow> Some a | None \<Rightarrow> fr_author r), fr_updated := now\<rparr>)
           \<lparr>fr_brain = brainId, fr_key = qf_key f, fr_kind = qf_kind f, fr_paths = paths, fr_headline = headline,
            fr_evidence = evidence, fr_proposal = proposal, fr_scores = scores, fr_shas = shas, fr_run = qf_run f,
            fr_cluster = qf_cluster f, fr_author = qf_author f, fr_created = now, fr_updated = now\<rparr> rows)"

text \<open>The batches of a statement per finding run one after the other.\<close>

definition upsertFindings :: "string \<Rightarrow> queue_finding list \<Rightarrow> int \<Rightarrow> 'a review_db_scheme \<Rightarrow> 'a review_db_scheme" where
  "upsertFindings brainId findings now db = db\<lparr>rv_findings := fold (upsert_finding brainId now) findings (rv_findings db)\<rparr>"

text \<open>Reading a column back; a value the code never writes there is read as a row that cannot be parsed.\<close>

fun all_some :: "'a option list \<Rightarrow> 'a list option" where
  "all_some [] = Some []"
| "all_some (x # xs) = (case (x, all_some xs) of (Some a, Some as) \<Rightarrow> Some (a # as) | _ \<Rightarrow> None)"

definition string_value :: "js_value \<Rightarrow> string option" where
  "string_value v = (case v of JStr s \<Rightarrow> Some s | _ \<Rightarrow> None)"

definition int_value :: "js_value \<Rightarrow> int option" where
  "int_value v =
     (case v of
        JNum n \<Rightarrow> if json_int_literal n
                  then Some (if hd n = DASH then - int (digits_value (tl n)) else int (digits_value n)) else None
      | _ \<Rightarrow> None)"

definition strings_column :: "string \<Rightarrow> string list option" where
  "strings_column t = (case json_parse t of Some (JArr vs) \<Rightarrow> all_some (map string_value vs) | _ \<Rightarrow> None)"

definition entries_column :: "(js_value \<Rightarrow> 'v option) \<Rightarrow> string \<Rightarrow> 'v obj option" where
  "entries_column f t =
     (case json_parse t of
        Some (JObj es) \<Rightarrow> all_some (map (\<lambda>(k, v). map_option (Pair k) (f v)) es)
      | _ \<Rightarrow> None)"

definition parseRow :: "finding_row \<Rightarrow> queue_finding option" where
  "parseRow r =
     Option.bind (strings_column (fr_paths r)) (\<lambda>paths.
     Option.bind (strings_column (fr_evidence r)) (\<lambda>evidence.
     Option.bind (case fr_proposal r of None \<Rightarrow> Some JNull | Some t \<Rightarrow> json_parse t) (\<lambda>proposal.
     Option.bind (case fr_scores r of None \<Rightarrow> Some None | Some t \<Rightarrow> map_option Some (entries_column int_value t)) (\<lambda>scores.
     map_option (\<lambda>shas.
       \<lparr>qf_key = fr_key r, qf_kind = fr_kind r, qf_paths = paths, qf_headline = fr_headline r, qf_evidence = evidence,
        qf_proposal = proposal, qf_scores = scores, qf_shas = shas, qf_run = fr_run r, qf_cluster = fr_cluster r,
        qf_author = fr_author r\<rparr>)
       (entries_column string_value (fr_shas r))))))"

definition readFindings :: "'a review_db_scheme \<Rightarrow> string \<Rightarrow> queue_finding list" where
  "readFindings db brainId = List.map_filter parseRow (filter (\<lambda>r. fr_brain r = brainId) (rv_findings db))"

definition deleteFindings :: "string \<Rightarrow> string list \<Rightarrow> 'a review_db_scheme \<Rightarrow> 'a review_db_scheme" where
  "deleteFindings brainId keys db =
     db\<lparr>rv_findings := row_delete (\<lambda>r. fr_brain r = brainId \<and> fr_key r \<in> set keys) (rv_findings db)\<rparr>"

definition deletePolicyDismissals :: "string \<Rightarrow> string list \<Rightarrow> 'a review_db_scheme \<Rightarrow> 'a review_db_scheme" where
  "deletePolicyDismissals brainId keys db =
     db\<lparr>rv_dismissals := row_delete (\<lambda>r. pd_brain r = brainId \<and> pd_key r \<in> set keys) (rv_dismissals db)\<rparr>"

text \<open>The dismissals of a brain by key; \<open>None\<close> where a fingerprint column does not parse.\<close>

definition dismissal_entry :: "dismissal_row \<Rightarrow> (string \<times> string list \<times> string) option" where
  "dismissal_entry r = map_option (\<lambda>fs. (pd_key r, fs, pd_sha r)) (strings_column (pd_fingerprints r))"

definition readPolicyDismissals :: "'a review_db_scheme \<Rightarrow> string \<Rightarrow> (string \<times> string list \<times> string) list option" where
  "readPolicyDismissals db brainId =
     all_some (map dismissal_entry (filter (\<lambda>r. pd_brain r = brainId) (rv_dismissals db)))"

section \<open>Dismissing a policy finding\<close>

datatype dismiss_refusal = NoSecret | NotOpen string | FileGone string | CountChanged string nat nat

definition dismiss_row ::
  "(string \<Rightarrow> string \<Rightarrow> string) \<Rightarrow> string \<Rightarrow> string \<Rightarrow> string \<Rightarrow> string \<Rightarrow> string \<Rightarrow> string \<Rightarrow> string \<Rightarrow> string option
     \<Rightarrow> int \<Rightarrow> 'a review_db_scheme \<Rightarrow> 'a review_db_scheme" where
  "dismiss_row hmac secret brainId kind content sha key why who now db =
     (let fps = json_strings (valueFingerprints hmac (policyFingerprintKey hmac secret) brainId kind content)
      in db\<lparr>rv_dismissals :=
           row_upsert (\<lambda>r. pd_brain r = brainId \<and> pd_key r = key)
             (\<lambda>r. r\<lparr>pd_fingerprints := fps, pd_sha := sha, pd_why := why, pd_by := who, pd_at := now\<rparr>)
             \<lparr>pd_brain = brainId, pd_key = key, pd_fingerprints = fps, pd_sha = sha, pd_why = why, pd_by = who, pd_at = now\<rparr>
             (rv_dismissals db)\<rparr>)"

text \<open>\<open>file\<close> is what the repository answers for the path: content and blob.\<close>

definition dismissPolicyFinding ::
  "(string \<Rightarrow> string \<Rightarrow> string) \<Rightarrow> string option \<Rightarrow> string \<Rightarrow> (string \<Rightarrow> (string \<times> string) option) \<Rightarrow> string \<Rightarrow> string
     \<Rightarrow> string option \<Rightarrow> nat option \<Rightarrow> int \<Rightarrow> 'a review_db_scheme \<Rightarrow> 'a review_db_scheme \<times> dismiss_refusal option" where
  "dismissPolicyFinding hmac secret brainId file key why who seen now db =
     (case nonempty secret of
        None \<Rightarrow> (db, Some NoSecret)
      | Some sec \<Rightarrow>
          (case find (\<lambda>f. qf_key f = key) (readFindings db brainId) of
             None \<Rightarrow> (db, Some (NotOpen key))
           | Some f \<Rightarrow>
               (let path = (case first_path f of Some p \<Rightarrow> p | None \<Rightarrow> ''undefined'') in
                case file path of
                  None \<Rightarrow> (db, Some (FileGone path))
                | Some (content, sha) \<Rightarrow>
                    (let kind = policyKindOf key; n = kind_count kind content in
                     case seen of
                       Some k \<Rightarrow> if k \<noteq> n then (db, Some (CountChanged path n k))
                                 else (dismiss_row hmac sec brainId kind content sha key why who now db, None)
                     | None \<Rightarrow> (dismiss_row hmac sec brainId kind content sha key why who now db, None)))))"

section \<open>Reading what was written\<close>

lemma find_filter_conj: "find Q (filter P xs) = find (\<lambda>x. P x \<and> Q x) xs"
  by (induction xs) auto

lemma find_row_upsert:
  assumes "\<And>r. P (f r) = P r" "P new"
  shows "find P (row_upsert P f new rows) = Some (case find P rows of Some r \<Rightarrow> f r | None \<Rightarrow> new)"
proof (cases "\<exists>r \<in> set rows. P r")
  case True
  have "find P (map (\<lambda>r. if P r then f r else r) rows) = map_option f (find P rows)"
    by (induction rows) (auto simp: assms)
  with True show ?thesis by (auto simp: row_upsert_def row_update_def find_None_iff split: option.splits)
next
  case False
  then have "find P rows = None" by (simp add: find_None_iff)
  moreover from this have "find P (rows @ [new]) = Some new" using assms(2) by (induction rows) (auto split: if_splits)
  ultimately show ?thesis using False by (simp add: row_upsert_def)
qed

end
