(* ===== verification/PolicyReview.thy ===== *)
theory PolicyReview
  imports ReviewQueue
begin

text \<open>
  The queue as it stands now (\<open>readReconciledFindings\<close> of \<open>src/lib/review-queue.ts\<close>): policy findings checked
  against the repository, without the dismissed ones; and what that promises an administrator who
  dismissed a finding.
\<close>

section \<open>readReconciledFindings\<close>

text \<open>Whether a path is read again: a finding on it, or a dismissal of one, is about another blob.\<close>

definition path_moved ::
  "queue_finding list \<Rightarrow> (string \<times> string list \<times> string) list \<Rightarrow> string \<Rightarrow> string \<Rightarrow> bool" where
  "path_moved policy dismissals path sha \<longleftrightarrow>
     (\<exists>f \<in> set policy. first_path f = Some path
        \<and> (map_of (qf_shas f) path \<noteq> Some sha
           \<or> (case map_of dismissals (qf_key f) of Some (fps, at_sha) \<Rightarrow> at_sha \<noteq> sha | None \<Rightarrow> False)))"

definition changed_files ::
  "queue_finding list \<Rightarrow> (string \<times> string list \<times> string) list \<Rightarrow> tree \<Rightarrow> (string \<times> string) list" where
  "changed_files policy dismissals entries =
     List.map_filter
       (\<lambda>path. case sha_of entries (Some path) of
          None \<Rightarrow> None
        | Some sha \<Rightarrow> if path_moved policy dismissals path sha then Some (path, sha) else None)
       (uniq (List.map_filter first_path policy))"

text \<open>The text of a blob at a path; \<open>None\<close> where it has none or the read is past the budget.\<close>

definition read_contents :: "(string \<Rightarrow> string \<Rightarrow> string option) \<Rightarrow> (string \<times> string) list \<Rightarrow> string \<Rightarrow> string option" where
  "read_contents blob files path =
     map_of (rev (List.map_filter (\<lambda>(p, sha). map_option (Pair p) (blob p sha)) files)) path"

datatype silence = NotDismissed | Silenced "string option" | Reopened

definition silence_of ::
  "(string \<Rightarrow> string \<Rightarrow> string) \<Rightarrow> string option \<Rightarrow> string \<Rightarrow> tree \<Rightarrow> (string \<Rightarrow> string option)
     \<Rightarrow> (string \<times> string list \<times> string) list \<Rightarrow> string set \<Rightarrow> queue_finding \<Rightarrow> silence" where
  "silence_of hmac secret brainId entries contents dismissals closed_keys f =
     (case map_of dismissals (qf_key f) of
        None \<Rightarrow> NotDismissed
      | Some (fps, at_sha) \<Rightarrow>
          if qf_key f \<in> closed_keys then NotDismissed
          else (case (first_path f, nonempty secret) of
            (Some path, Some sec) \<Rightarrow>
              (case contents path of
                 None \<Rightarrow> Silenced None
               | Some content \<Rightarrow>
                   if sha_of entries (Some path) = Some at_sha then Silenced None
                   else if coveredByDismissal
                             (valueFingerprints hmac (policyFingerprintKey hmac sec) brainId (policyKindOf (qf_key f)) content) fps
                   then Silenced (Some (case sha_of entries (Some path) of Some sha \<Rightarrow> sha | None \<Rightarrow> at_sha))
                   else Reopened)
          | _ \<Rightarrow> Silenced None))"

definition move_dismissal :: "string \<Rightarrow> string \<times> string \<Rightarrow> 'a review_db_scheme \<Rightarrow> 'a review_db_scheme" where
  "move_dismissal brainId ks db =
     db\<lparr>rv_dismissals := row_update (\<lambda>r. pd_brain r = brainId \<and> pd_key r = fst ks) (\<lambda>r. r\<lparr>pd_sha := snd ks\<rparr>) (rv_dismissals db)\<rparr>"

definition NEW_VALUE :: string where "NEW_VALUE = ''A new value appeared since this was dismissed.''"

definition shown_finding ::
  "queue_finding list \<Rightarrow> (string \<Rightarrow> bool) \<Rightarrow> queue_finding \<Rightarrow> queue_finding" where
  "shown_finding refreshed reopened f =
     (let g = (case find (\<lambda>x. qf_key x = qf_key f) (rev refreshed) of Some x \<Rightarrow> x | None \<Rightarrow> f)
      in if reopened (qf_key f) then g\<lparr>qf_evidence := NEW_VALUE # qf_evidence g\<rparr> else g)"

definition readReconciledFindings ::
  "(string \<Rightarrow> string \<Rightarrow> string) \<Rightarrow> string option \<Rightarrow> string \<Rightarrow> tree \<Rightarrow> (string \<Rightarrow> string \<Rightarrow> string option) \<Rightarrow> int
     \<Rightarrow> 'a review_db_scheme \<Rightarrow> ('a review_db_scheme \<times> queue_finding list) option" where
  "readReconciledFindings hmac secret brainId entries blob now db =
     (let rows = readFindings db brainId; policy = filter (\<lambda>f. qf_kind f = ''policy'') rows in
      if policy = [] then Some (db, rows)
      else map_option
        (\<lambda>dismissals.
          (let files = take POLICY_RESCAN_BUDGET (changed_files policy dismissals entries);
               contents = read_contents blob files;
               (gone, refreshed) = decidePolicyRescan policy entries contents;
               db1 = upsertFindings brainId refreshed now (deletePolicyDismissals brainId gone (deleteFindings brainId gone db));
               verdict = silence_of hmac secret brainId entries contents dismissals (set gone);
               db2 = fold (move_dismissal brainId)
                       (List.map_filter (\<lambda>f. case verdict f of Silenced (Some sha) \<Rightarrow> Some (qf_key f, sha) | _ \<Rightarrow> None) policy) db1;
               silenced = set (map qf_key (filter (\<lambda>f. case verdict f of Silenced _ \<Rightarrow> True | _ \<Rightarrow> False) policy));
               reopened = set (map qf_key (filter (\<lambda>f. verdict f = Reopened) policy))
           in (db2, map (shown_finding refreshed (\<lambda>k. k \<in> reopened))
                      (filter (\<lambda>f. qf_key f \<notin> set gone \<and> qf_key f \<notin> silenced) rows))))
        (readPolicyDismissals db brainId))"

section \<open>What a dismissal is read back as\<close>

lemma strings_column_json [simp]: "strings_column (json_strings ss) = Some ss"
proof -
  have "json_parse (json_strings ss) = Some (JArr (map JStr ss))"
    using json_roundtrip [of "JArr (map JStr ss)" "[]" "[]"] by (simp add: json_strings_def json_stringify_def)
  moreover have "all_some (map string_value (map JStr ss)) = Some ss"
    by (induction ss) (auto simp: string_value_def)
  ultimately show ?thesis by (simp add: strings_column_def)
qed

lemma map_of_all_some:
  assumes "all_some (map (\<lambda>r. map_option (\<lambda>v. (k r, g r v)) (h r)) rows) = Some ds"
  shows "map_of ds key = (case find (\<lambda>r. k r = key) rows of None \<Rightarrow> None | Some r \<Rightarrow> map_option (g r) (h r))"
  using assms by (induction rows arbitrary: ds) (auto split: option.splits)

lemma dismissal_read_back:
  assumes "readPolicyDismissals (dismiss_row hmac sec brainId kind content sha key why who now db) brainId = Some ds"
  shows "map_of ds key
    = Some (valueFingerprints hmac (policyFingerprintKey hmac sec) brainId kind content, sha)"
proof -
  let ?db = "dismiss_row hmac sec brainId kind content sha key why who now db"
  have "map_of ds key = (case find (\<lambda>r. pd_key r = key) (filter (\<lambda>r. pd_brain r = brainId) (rv_dismissals ?db)) of None \<Rightarrow> None
      | Some r \<Rightarrow> map_option (\<lambda>fs. (fs, pd_sha r)) (strings_column (pd_fingerprints r)))"
    using assms unfolding readPolicyDismissals_def dismissal_entry_def by (rule map_of_all_some)
  also have "find (\<lambda>r. pd_key r = key) (filter (\<lambda>r. pd_brain r = brainId) (rv_dismissals ?db))
      = find (\<lambda>r. pd_brain r = brainId \<and> pd_key r = key) (rv_dismissals ?db)"
    by (rule find_filter_conj)
  also have "\<dots> = Some (case find (\<lambda>r. pd_brain r = brainId \<and> pd_key r = key) (rv_dismissals db) of
       Some r \<Rightarrow> r\<lparr>pd_fingerprints := json_strings (valueFingerprints hmac (policyFingerprintKey hmac sec) brainId kind content),
                  pd_sha := sha, pd_why := why, pd_by := who, pd_at := now\<rparr>
     | None \<Rightarrow> \<lparr>pd_brain = brainId, pd_key = key,
         pd_fingerprints = json_strings (valueFingerprints hmac (policyFingerprintKey hmac sec) brainId kind content),
         pd_sha = sha, pd_why = why, pd_by = who, pd_at = now\<rparr>)"
    unfolding dismiss_row_def Let_def by (simp add: find_row_upsert)
  finally show ?thesis by (simp split: option.splits)
qed

lemma readFindings_dismiss_row [simp]:
  "readFindings (dismiss_row hmac sec brainId kind content sha key why who now db) = readFindings db"
  by (rule ext) (simp add: readFindings_def dismiss_row_def Let_def)

lemma dismissPolicyFinding_accepts:
  assumes "dismissPolicyFinding hmac (Some sec) brainId file key why who seen now db = (db1, None)"
  obtains f content sha where
    "f \<in> set (readFindings db brainId)" "qf_key f = key"
    "file (case first_path f of Some p \<Rightarrow> p | None \<Rightarrow> ''undefined'') = Some (content, sha)" "sec \<noteq> []"
    "db1 = dismiss_row hmac sec brainId (policyKindOf key) content sha key why who now db"
proof -
  obtain f where f: "find (\<lambda>f. qf_key f = key) (readFindings db brainId) = Some f" and sec: "sec \<noteq> []"
    using assms by (auto simp: dismissPolicyFinding_def nonempty_def split: option.splits if_splits)
  let ?path = "case first_path f of Some p \<Rightarrow> p | None \<Rightarrow> ''undefined''"
  obtain content sha where found: "file ?path = Some (content, sha)"
    using assms f sec by (auto simp: dismissPolicyFinding_def nonempty_def Let_def simp del: first_path.simps split: option.splits)
  have "db1 = dismiss_row hmac sec brainId (policyKindOf key) content sha key why who now db"
    using assms f sec found
    by (simp add: dismissPolicyFinding_def nonempty_def Let_def del: first_path.simps split: option.splits if_splits)
  moreover have "f \<in> set (readFindings db brainId)" "qf_key f = key"
    using f by (auto simp: find_Some_iff)
  ultimately show thesis using that found sec by blast
qed

section \<open>Fingerprints\<close>

lemma hex_digit_inj:
  "i < 16 \<Longrightarrow> j < 16 \<Longrightarrow> ''0123456789abcdef'' ! i = ''0123456789abcdef'' ! j \<Longrightarrow> i = (j::nat)"
  by (rule nth_eq_iff_index_eq [THEN iffD1, of "''0123456789abcdef''"]) auto

lemma inj_hex_of: "hex_of s = hex_of t \<Longrightarrow> s = t"
proof (induction s arbitrary: t)
  case Nil
  then show ?case by (cases t) (auto simp: hex_of_def)
next
  case (Cons a s)
  from Cons.prems obtain b t' where t: "t = b # t'" by (cases t) (auto simp: hex_of_def)
  have 1: "''0123456789abcdef'' ! (code a div 16) = ''0123456789abcdef'' ! (code b div 16)"
    and 2: "''0123456789abcdef'' ! (code a mod 16) = ''0123456789abcdef'' ! (code b mod 16)"
    and 3: "hex_of s = hex_of t'"
    using Cons.prems unfolding t hex_of_def list.map concat.simps append.simps list.inject by blast+
  have lt: "code c div 16 < 16" for c
    using mod_less_divisor [of 256 "code c"] by (simp add: of_char_mod_256 less_mult_imp_div_less del: mod_less_divisor)
  have "code a div 16 = code b div 16" by (rule hex_digit_inj [OF lt lt 1])
  moreover have "code a mod 16 = code b mod 16" by (rule hex_digit_inj [OF _ _ 2]) auto
  ultimately have "code a = code b" by (metis div_mult_mod_eq)
  then show ?case using Cons.IH [OF 3] t by simp
qed

lemma set_valueFingerprints:
  "set (valueFingerprints hmac key brainId kind content)
    = (\<lambda>v. hex_of (hmac key (value_message brainId kind v))) ` set (values_of kind content)"
  by (simp add: valueFingerprints_def)

lemma covered_exact:
  assumes "inj_on (hmac key) (value_message brainId kind ` (set (values_of kind new) \<union> set (values_of kind old)))"
  shows "coveredByDismissal (valueFingerprints hmac key brainId kind new) (valueFingerprints hmac key brainId kind old)
    \<longleftrightarrow> set (values_of kind new) \<subseteq> set (values_of kind old)"
proof -
  let ?A = "set (values_of kind new)" and ?B = "set (values_of kind old)"
  have "inj_on (\<lambda>v. hex_of (hmac key (value_message brainId kind v))) (?A \<union> ?B)"
  proof (rule inj_onI)
    fix u v assume "u \<in> ?A \<union> ?B" "v \<in> ?A \<union> ?B"
      "hex_of (hmac key (value_message brainId kind u)) = hex_of (hmac key (value_message brainId kind v))"
    then have "value_message brainId kind u = value_message brainId kind v"
      using inj_onD [OF assms inj_hex_of] by blast
    then show "u = v" by (simp add: value_message_def)
  qed
  then have "hex_of (hmac key (value_message brainId kind v)) \<in> (\<lambda>v. hex_of (hmac key (value_message brainId kind v))) ` ?B \<longleftrightarrow> v \<in> ?B"
    if "v \<in> ?A" for v
    by (rule inj_on_image_mem_iff [of "\<lambda>v. hex_of (hmac key (value_message brainId kind v))"]) (use that in auto)
  then show ?thesis unfolding coveredByDismissal_def set_valueFingerprints by (simp add: subset_code(1) ball_simps(9))
qed

section \<open>What a reconciliation shows\<close>

lemma set_map_filter: "y \<in> set (List.map_filter g xs) \<longleftrightarrow> (\<exists>x \<in> set xs. g x = Some y)"
  by (auto simp: List.map_filter_def image_iff)

lemma length_map_filter_le: "length (List.map_filter g xs) \<le> length xs"
  by (simp add: List.map_filter_def)

lemma length_uniq_le: "length (uniq xs) \<le> length xs"
  by (metis card_length distinct_card distinct_uniq set_uniq)

lemma changed_files_sha: "(p, s) \<in> set (changed_files policy ds entries) \<Longrightarrow> sha_of entries (Some p) = Some s"
  by (auto simp: changed_files_def set_map_filter split: option.splits if_splits)

lemma changed_files_mem:
  "f \<in> set policy \<Longrightarrow> first_path f = Some p \<Longrightarrow> sha_of entries (Some p) = Some s \<Longrightarrow> path_moved policy ds p s
    \<Longrightarrow> (p, s) \<in> set (changed_files policy ds entries)"
  unfolding changed_files_def set_map_filter set_uniq
  by (rule bexI [of _ p]) (auto simp: set_map_filter simp del: first_path.simps)

lemma read_contents_at:
  assumes "(p, s) \<in> set files" "\<And>s'. (p, s') \<in> set files \<Longrightarrow> s' = s" "blob p s = Some c"
  shows "read_contents blob files p = Some c"
proof -
  let ?l = "rev (List.map_filter (\<lambda>(p, sha). map_option (Pair p) (blob p sha)) files)"
  have mem: "(p, c) \<in> set ?l" using assms(1,3) by (auto simp: set_map_filter intro!: bexI [of _ "(p, s)"])
  have one: "c' = c" if "(p, c') \<in> set ?l" for c'
    using that assms(2,3) by (fastforce simp: set_map_filter)
  obtain c' where "map_of ?l p = Some c'" using weak_map_of_SomeI [OF mem] by blast
  with one [OF map_of_SomeD] show ?thesis by (simp add: read_contents_def)
qed

lemma key_shown_finding [simp]: "qf_key (shown_finding refreshed reopened f) = qf_key f"
  by (auto simp: shown_finding_def Let_def find_Some_iff split: option.splits)

lemma key_of_filter:
  assumes "distinct (map k rows)" "x \<in> set rows"
  shows "k x \<in> set (map k (filter P rows)) \<longleftrightarrow> P x"
  using assms by (auto simp: distinct_map dest: inj_onD)

text \<open>Which of the rows the report shows, by the verdict on each.\<close>

lemma shown_exact:
  assumes "readReconciledFindings hmac secret brainId entries blob now db = Some (db2, shown)"
    and "readPolicyDismissals db brainId = Some ds"
    and f: "f \<in> set (readFindings db brainId)" "qf_kind f = ''policy''"
    and one: "distinct (map qf_key (readFindings db brainId))"
    and contents: "contents = read_contents blob (take POLICY_RESCAN_BUDGET
                     (changed_files (filter (\<lambda>f. qf_kind f = ''policy'') (readFindings db brainId)) ds entries))"
    and gone: "gone = set (map qf_key (filter (\<lambda>f. rescan entries contents f = Close)
                     (filter (\<lambda>f. qf_kind f = ''policy'') (readFindings db brainId))))"
  shows "qf_key f \<in> qf_key ` set shown
    \<longleftrightarrow> rescan entries contents f \<noteq> Close \<and> \<not> (\<exists>s. silence_of hmac secret brainId entries contents ds gone f = Silenced s)"
proof -
  let ?rows = "readFindings db brainId"
  let ?policy = "filter (\<lambda>f. qf_kind f = ''policy'') ?rows"
  let ?v = "silence_of hmac secret brainId entries contents ds gone"
  have same: "g = f" if "g \<in> set ?rows" "qf_key g = qf_key f" for g
    using one that f(1) by (auto simp: distinct_map dest: inj_onD)
  have ne: "?policy \<noteq> []" using f by (auto simp: filter_empty_conv)
  have ro: "shown = map (shown_finding (snd (decidePolicyRescan ?policy entries contents))
        (\<lambda>k. k \<in> set (map qf_key (filter (\<lambda>f. ?v f = Reopened) ?policy))))
      (filter (\<lambda>f. qf_key f \<notin> gone
         \<and> qf_key f \<notin> set (map qf_key (filter (\<lambda>f. case ?v f of Silenced _ \<Rightarrow> True | _ \<Rightarrow> False) ?policy))) ?rows)"
    using assms(1,2) ne unfolding readReconciledFindings_def Let_def contents gone decidePolicyRescan_def by simp
  have "qf_key f \<in> qf_key ` set shown \<longleftrightarrow> (\<exists>g \<in> set ?rows. qf_key g = qf_key f \<and> qf_key g \<notin> gone
      \<and> qf_key g \<notin> set (map qf_key (filter (\<lambda>f. case ?v f of Silenced _ \<Rightarrow> True | _ \<Rightarrow> False) ?policy)))"
    unfolding ro by (auto simp: image_iff)
  also have "\<dots> \<longleftrightarrow> qf_key f \<notin> gone
      \<and> qf_key f \<notin> set (map qf_key (filter (\<lambda>f. case ?v f of Silenced _ \<Rightarrow> True | _ \<Rightarrow> False) ?policy))"
    using f(1) by metis
  also have "qf_key f \<in> gone \<longleftrightarrow> rescan entries contents f = Close"
    unfolding gone filter_filter by (subst key_of_filter [OF one f(1)]) (simp add: f(2))
  also have "qf_key f \<in> set (map qf_key (filter (\<lambda>f. case ?v f of Silenced _ \<Rightarrow> True | _ \<Rightarrow> False) ?policy))
      \<longleftrightarrow> (\<exists>s. ?v f = Silenced s)"
    unfolding filter_filter by (subst key_of_filter [OF one f(1)]) (simp add: f(2) split: silence.split)
  finally show ?thesis .
qed

lemma reconciliation_returns:
  assumes "readPolicyDismissals db brainId \<noteq> None"
  shows "\<exists>db2 shown. readReconciledFindings hmac secret brainId entries blob now db = Some (db2, shown)"
proof (cases "readReconciledFindings hmac secret brainId entries blob now db")
  case None
  with assms show ?thesis by (auto simp: readReconciledFindings_def Let_def split: if_splits)
next
  case (Some r)
  then show ?thesis by (cases r) auto
qed

lemma kind_count_0: "kind_count kind content = 0 \<longleftrightarrow> values_of kind content = []"
  by (simp add: kind_count_def values_of_def)

lemma dismissal_exact:
  assumes dismissed: "dismissPolicyFinding hmac (Some sec) brainId file (qf_key f) why who seen now db = (db1, None)"
    and f: "f \<in> set (readFindings db brainId)" "qf_kind f = ''policy''" "first_path f = Some path"
    and one: "distinct (map qf_key (readFindings db brainId))"
    and old: "file path = Some (content, sha)"
    and read: "readReconciledFindings hmac (Some sec) brainId entries blob later db1 = Some (db2, shown)"
    and new: "sha_of entries (Some path) = Some sha'" "sha' \<noteq> sha" "blob path sha' = Some content'"
    and budget: "length (readFindings db brainId) \<le> POLICY_RESCAN_BUDGET"
    and mac: "inj_on (hmac (policyFingerprintKey hmac sec)) (value_message brainId (policyKindOf (qf_key f))
                ` (set (values_of (policyKindOf (qf_key f)) content') \<union> set (values_of (policyKindOf (qf_key f)) content)))"
  shows "qf_key f \<in> qf_key ` set shown
    \<longleftrightarrow> \<not> set (values_of (policyKindOf (qf_key f)) content') \<subseteq> set (values_of (policyKindOf (qf_key f)) content)"
proof -
  let ?kind = "policyKindOf (qf_key f)"
  let ?policy = "filter (\<lambda>f. qf_kind f = ''policy'') (readFindings db brainId)"
  have same: "g = f" if "g \<in> set (readFindings db brainId)" "qf_key g = qf_key f" for g
    using one that f(1) by (auto simp: distinct_map dest: inj_onD)
  obtain g c s where "g \<in> set (readFindings db brainId)" "qf_key g = qf_key f" and sec: "sec \<noteq> []"
    and "file (case first_path g of Some p \<Rightarrow> p | None \<Rightarrow> ''undefined'') = Some (c, s)"
    and "db1 = dismiss_row hmac sec brainId ?kind c s (qf_key f) why who now db"
    by (rule dismissPolicyFinding_accepts [OF dismissed])
  then have db1: "db1 = dismiss_row hmac sec brainId ?kind content sha (qf_key f) why who now db"
    using same [of g] f(3) old by (simp del: first_path.simps)
  have rows [simp]: "readFindings db1 brainId = readFindings db brainId" by (simp add: db1)
  have "f \<in> set ?policy" using f by simp
  then have "?policy \<noteq> []" by (metis empty_iff empty_set)
  then obtain ds where ds: "readPolicyDismissals db1 brainId = Some ds"
    using read unfolding readReconciledFindings_def Let_def by (cases "readPolicyDismissals db1 brainId") simp_all
  have at: "map_of ds (qf_key f) = Some (valueFingerprints hmac (policyFingerprintKey hmac sec) brainId ?kind content, sha)"
    using ds unfolding db1 by (rule dismissal_read_back)
  define files where "files = changed_files ?policy ds entries"
  have "length files \<le> length ?policy"
    unfolding files_def changed_files_def by (meson length_map_filter_le length_uniq_le order_trans)
  then have "length files \<le> POLICY_RESCAN_BUDGET" using length_filter_le budget by (rule order_trans [OF order_trans])
  then have all: "take POLICY_RESCAN_BUDGET files = files" by simp
  have moved: "path_moved ?policy ds path sha'"
    unfolding path_moved_def using \<open>f \<in> set ?policy\<close> f(3) at new(2) by (intro bexI [of _ f]) auto
  have "(path, sha') \<in> set files" unfolding files_def by (rule changed_files_mem [OF \<open>f \<in> set ?policy\<close> f(3) new(1) moved])
  moreover have "s' = sha'" if "(path, s') \<in> set files" for s'
    using changed_files_sha that new(1) unfolding files_def by fastforce
  ultimately have c: "read_contents blob files path = Some content'" using new(3) by (rule read_contents_at)
  define gone where "gone = set (map qf_key (filter (\<lambda>f. rescan entries (read_contents blob files) f = Close) ?policy))"
  have shown: "qf_key f \<in> qf_key ` set shown \<longleftrightarrow> rescan entries (read_contents blob files) f \<noteq> Close
      \<and> \<not> (\<exists>s. silence_of hmac (Some sec) brainId entries (read_contents blob files) ds gone f = Silenced s)"
    by (rule shown_exact [OF read ds]) (simp_all add: f one files_def [symmetric] all gone_def del: first_path.simps)
  have close: "values_of ?kind content' = []" if "rescan entries (read_contents blob files) f = Close"
    using that f(3) new(1) c by (auto simp: rescan_def Let_def kind_count_0 simp del: first_path.simps split: if_splits)
  have "qf_key f \<in> gone \<longleftrightarrow> rescan entries (read_contents blob files) f = Close"
    unfolding gone_def filter_filter by (subst key_of_filter [OF one f(1)]) (simp add: f(2))
  moreover have "coveredByDismissal (valueFingerprints hmac (policyFingerprintKey hmac sec) brainId ?kind content')
      (valueFingerprints hmac (policyFingerprintKey hmac sec) brainId ?kind content)
      \<longleftrightarrow> set (values_of ?kind content') \<subseteq> set (values_of ?kind content)"
    by (rule covered_exact) (rule mac)
  ultimately have "rescan entries (read_contents blob files) f \<noteq> Close \<Longrightarrow>
      (\<exists>s. silence_of hmac (Some sec) brainId entries (read_contents blob files) ds gone f = Silenced s)
      \<longleftrightarrow> set (values_of ?kind content') \<subseteq> set (values_of ?kind content)"
    using at f(3) new(1,2) c sec
    by (simp add: silence_of_def nonempty_def del: first_path.simps)
  with shown close show ?thesis by fastforce
qed

text \<open>The values of a kind in a text: every accepted match of its detector, in canonical form.\<close>

definition held_values :: "string \<Rightarrow> string \<Rightarrow> string set" where
  "held_values kind content =
     (\<lambda>d. canonicalValue kind (slice (dt_start d) (dt_end d) content)) ` {d \<in> set (flagged content). kind_id (dt_kind d) = kind}"

lemma values_held: "uncut content \<Longrightarrow> set (values_of kind content) = held_values kind content"
  by (simp add: values_of_def held_values_def detect_uncut)

text \<open>
  C36. A dismissal answers for the values its administrator looked at and for nothing else: after it, once the
  file has changed and is read again, the finding is on the report exactly when the file holds a value
  of that kind which was not in it when the finding was dismissed.  Reformatting a number is no new
  value, a removed value takes the finding away.  This is for a brain with at most as many findings as a
  report rescans (a hundred; past them the stored verdict stands until a later report) and for files with
  at most fifty flagged spans before and after (what stands behind the fiftieth is not looked at), and
  HMAC is assumed not to collide on the values at hand.
\<close>

theorem dismissal_covers_what_was_seen:
  assumes dismissed: "dismissPolicyFinding hmac (Some sec) brainId file (qf_key f) why who seen now db = (db1, None)"
    and f: "f \<in> set (readFindings db brainId)" "qf_kind f = ''policy''" "first_path f = Some path"
    and one: "distinct (map qf_key (readFindings db brainId))"
    and old: "file path = Some (content, sha)"
    and read: "readReconciledFindings hmac (Some sec) brainId entries blob later db1 = Some (db2, shown)"
    and new: "sha_of entries (Some path) = Some sha'" "sha' \<noteq> sha" "blob path sha' = Some content'"
    and budget: "length (readFindings db brainId) \<le> POLICY_RESCAN_BUDGET"
    and whole: "uncut content" "uncut content'"
    and mac: "inj_on (hmac (policyFingerprintKey hmac sec)) (value_message brainId (policyKindOf (qf_key f))
                ` (held_values (policyKindOf (qf_key f)) content' \<union> held_values (policyKindOf (qf_key f)) content))"
  shows "qf_key f \<in> qf_key ` set shown
    \<longleftrightarrow> \<not> held_values (policyKindOf (qf_key f)) content' \<subseteq> held_values (policyKindOf (qf_key f)) content"
  unfolding values_held [OF whole(1), symmetric] values_held [OF whole(2), symmetric]
  by (rule dismissal_exact [OF dismissed f one old read new budget
        mac [folded values_held [OF whole(1)] values_held [OF whole(2)]]])

definition ssn_other :: string where "ssn_other = ''id 123-45-6789, 219-09-9999.''"

lemma ssn_other_runs:
  "exec_all private_key_rx ssn_other 0 = []" "exec_all (alts TOKEN_PATTERNS) ssn_other 0 = []"
  "exec_all connection_rx ssn_other 0 = []" "exec_all card_rx ssn_other 0 = []"
  "exec_all medical_rx ssn_other 0 = []" "exec_all birth_rx ssn_other 0 = []"
  by code_simp+

lemma ssn_other_run:
  "exec_all ssn_rx ssn_other 0
    = [(3, 14, [(3, 10, 14), (2, 7, 9), (1, 3, 6)]), (16, 27, [(3, 23, 27), (2, 20, 22), (1, 16, 19)])]"
  by code_simp

lemma ssn_other_detected:
  "detectSensitive ssn_other
    = [\<lparr>dt_kind = UsSsn, dt_severity = High, dt_start = 3, dt_end = 14\<rparr>, \<lparr>dt_kind = UsSsn, dt_severity = High, dt_start = 16, dt_end = 27\<rparr>]"
proof -
  have "ssn_accept (rx_group ssn_other (14, [(3, 10, 14), (2, 7, 9), (1, 3, 6)]) 1)
      (rx_group ssn_other (14, [(3, 10, 14), (2, 7, 9), (1, 3, 6)]) 2)
      (rx_group ssn_other (14, [(3, 10, 14), (2, 7, 9), (1, 3, 6)]) 3)"
    and "ssn_accept (rx_group ssn_other (27, [(3, 23, 27), (2, 20, 22), (1, 16, 19)]) 1)
      (rx_group ssn_other (27, [(3, 23, 27), (2, 20, 22), (1, 16, 19)]) 2)
      (rx_group ssn_other (27, [(3, 23, 27), (2, 20, 22), (1, 16, 19)]) 3)" by code_simp+
  then show ?thesis by (simp add: detect_eval ssn_other_runs ssn_other_run)
qed

definition ssn_row :: finding_row where
  "ssn_row = \<lparr>fr_brain = ''b'', fr_key = ''policy:p:us-ssn'', fr_kind = ''policy'', fr_paths = json_strings [''p''],
     fr_headline = ''Sensitive data'', fr_evidence = json_strings [], fr_proposal = None, fr_scores = None, fr_shas = ''{}'',
     fr_run = ''write'', fr_cluster = None, fr_author = None, fr_created = 0, fr_updated = 0\<rparr>"

definition ssn_db :: review_db where "ssn_db = \<lparr>rv_findings = [ssn_row], rv_dismissals = []\<rparr>"

abbreviation "mac \<equiv> \<lambda>k m. k @ (m :: string)"
abbreviation "ssn_file \<equiv> \<lambda>p. if p = ''p'' then Some (ssn_text, ''old'') else None"
abbreviation "ssn_blob \<equiv> \<lambda>(p::string) (s::string). Some ssn_other"

lemma ssn_row_read:
  "parseRow ssn_row = Some \<lparr>qf_key = ''policy:p:us-ssn'', qf_kind = ''policy'', qf_paths = [''p''],
     qf_headline = ''Sensitive data'', qf_evidence = [], qf_proposal = JNull, qf_scores = None, qf_shas = [],
     qf_run = ''write'', qf_cluster = None, qf_author = None\<rparr>"
proof -
  have "json_parse ''{}'' = Some (JObj [])" by code_simp
  then show ?thesis by (simp add: parseRow_def ssn_row_def entries_column_def)
qed

lemma ssn_values:
  "values_of ''us-ssn'' ssn_text = [''123456789'']" "values_of ''us-ssn'' ssn_other = [''123456789'', ''219099999'']"
proof -
  have "values_of ''us-ssn'' ssn_text = [only_digits (slice 3 14 ssn_text)]"
    "values_of ''us-ssn'' ssn_other = [only_digits (slice 3 14 ssn_other), only_digits (slice 16 27 ssn_other)]"
    by (simp_all add: values_of_def ssn_detected ssn_other_detected canonicalValue_def)
  moreover have "only_digits (slice 3 14 ssn_text) = ''123456789''" "only_digits (slice 3 14 ssn_other) = ''123456789''"
    "only_digits (slice 16 27 ssn_other) = ''219099999''" by code_simp+
  ultimately show "values_of ''us-ssn'' ssn_text = [''123456789'']" "values_of ''us-ssn'' ssn_other = [''123456789'', ''219099999'']" by simp_all
qed

lemma ssn_findings:
  "readFindings ssn_db ''b'' = [the (parseRow ssn_row)]"
  by (simp add: readFindings_def ssn_db_def List.map_filter_def ssn_row_read) (simp add: ssn_row_def)

theorem dismissal_covers_what_was_seen_witness:
  "\<exists>db1. dismissPolicyFinding mac (Some ''s'') ''b'' ssn_file ''policy:p:us-ssn'' ''test value'' None (Some 1) 1 ssn_db = (db1, None)
     \<and> (\<exists>db2 shown. readReconciledFindings mac (Some ''s'') ''b'' [(''p'', ''new'')] ssn_blob 2 db1 = Some (db2, shown)
           \<and> ''policy:p:us-ssn'' \<in> qf_key ` set shown)"
proof -
  let ?f = "the (parseRow ssn_row)"
  have f: "?f \<in> set (readFindings ssn_db ''b'')" "qf_kind ?f = ''policy''" "first_path ?f = Some ''p''"
    "qf_key ?f = ''policy:p:us-ssn''"
    by (simp_all add: ssn_findings ssn_row_read)
  have kind: "policyKindOf ''policy:p:us-ssn'' = ''us-ssn''" by code_simp
  have "kind_count ''us-ssn'' ssn_text = 1" by (simp add: kind_count_def ssn_detected)
  then have d: "dismissPolicyFinding mac (Some ''s'') ''b'' ssn_file ''policy:p:us-ssn'' ''test value'' None (Some 1) 1 ssn_db
      = (dismiss_row mac ''s'' ''b'' ''us-ssn'' ssn_text ''old'' ''policy:p:us-ssn'' ''test value'' None 1 ssn_db, None)"
    by (simp add: dismissPolicyFinding_def nonempty_def ssn_findings ssn_row_read kind Let_def)
  let ?db1 = "dismiss_row mac ''s'' ''b'' ''us-ssn'' ssn_text ''old'' ''policy:p:us-ssn'' ''test value'' None 1 ssn_db"
  have "readPolicyDismissals ?db1 ''b'' \<noteq> None"
    by (simp add: readPolicyDismissals_def dismiss_row_def Let_def ssn_db_def row_upsert_def dismissal_entry_def)
  then obtain db2 shown where r: "readReconciledFindings mac (Some ''s'') ''b'' [(''p'', ''new'')] ssn_blob 2 ?db1 = Some (db2, shown)"
    using reconciliation_returns by blast
  have whole: "uncut ssn_text" "uncut ssn_other"
    by (simp_all add: few_uncut ssn_detected ssn_other_detected MAX_DETECTIONS_PER_TEXT_def)
  have "qf_key ?f \<in> qf_key ` set shown
    \<longleftrightarrow> \<not> held_values (policyKindOf (qf_key ?f)) ssn_other \<subseteq> held_values (policyKindOf (qf_key ?f)) ssn_text"
    by (rule dismissal_covers_what_was_seen [where sha = "''old''" and sha' = "''new''", OF d [folded f(4)] f(1-3) _ _ r [folded f(4)]])
      (simp_all add: ssn_findings sha_of_def nonempty_def POLICY_RESCAN_BUDGET_def inj_on_def whole)
  then show ?thesis using d r unfolding f(4) kind values_held [OF whole(1), symmetric] values_held [OF whole(2), symmetric] ssn_values by auto
qed
end
