(* ===== verification/Spec2Isabelle.thy ===== *)
theory Spec2Isabelle
  imports Governance WriteDedupe Media PageWrite BrainConfig PolicyReview
begin

text \<open>
  A verification library for Isomorphic: a server that gives a person, through tool calls, the
  knowledge bases (\<open>brains\<close>) of the organizations they belong to.  A brain is a Git repository of
  Markdown pages; who reaches it is rows of a platform database.

  \<^bold>\<open>How the parts fit.\<close>  A request opens a session (\<open>src/worker.ts\<close>, \<open>McpSession\<close>): the caller becomes a
  person (every account linked to the signed-in one), pending invitations are claimed, and the brain or the
  organization the call is about is chosen.  The tools then act on the rows (\<open>src/tools/\<close>) or on
  the pages of the brain (\<open>src/lib/wiki.ts\<close>, \<open>page-write.ts\<close>, \<open>page-patch.ts\<close>), every write passing
  a ledger that recognises a repeated call (\<open>write-dedupe.ts\<close>).

  \<^bold>\<open>Theories.\<close>  Each opens with what it holds; the names of definitions are those of the source.

    \<^item> \<open>JsPrelude\<close>, \<open>JsText\<close>, \<open>JsNumber\<close>: what the source uses of JavaScript and of SQL (truthiness of
      strings, trimming and case, splitting and joining, stable sorting with a comparator, objects as ordered
      association lists, the statements over lists of rows), numbers and their text.
    \<^item> \<open>BrainSlug\<close>: \<open>lib/brain-slug.ts\<close>.  \<open>Roles\<close>: the access rule of \<open>lib/orgs.ts\<close>, with the lattice it is a
      refinement of.
    \<^item> \<open>OrgTables\<close>: the tables as a record \<open>odb\<close> of row lists, and every statement of \<open>lib/orgs.ts\<close> over them.
      \<open>OrgSchema\<close>: the constraints of the migrations (keys and references) and that each operation keeps them.
    \<^item> \<open>OrgAccess\<close>: the query behind the brain list, its fold, stewardship.  \<open>BrainSelect\<close>: how a name means a brain
      or an organization.  \<open>Invites\<close>: \<open>lib/invites.ts\<close>.
    \<^item> \<open>Members\<close>, \<open>BrainAccess\<close>: the roster and sharing tools (\<open>tools/members.ts\<close>, \<open>tools/brain-access.ts\<close>).
    \<^item> \<open>BrainMove\<close>: \<open>lib/brain-move.ts\<close>, \<open>lib/brain-forget.ts\<close>, \<open>lib/storage-connections.ts\<close>.  \<open>OrgOnboard\<close>:
      \<open>lib/provision.ts\<close>, \<open>lib/org-connect.ts\<close>, \<open>lib/static-tenant.ts\<close>, \<open>create_org\<close>.
    \<^item> \<open>Session\<close>: \<open>McpSession\<close>, an action being a function of the session to its next state and an error or a result,
      so that what a failing call wrote stays written.  \<open>BrainTools\<close>: \<open>tools/brains.ts\<close>,
      \<open>tools/connected-accounts.ts\<close>.
    \<^item> \<open>RowInvariant\<close>, \<open>Tenancy\<close>, \<open>Governance\<close>: the locale \<open>row_invariant\<close> (a property of the rows each statement
      keeps, hence each tool), its interpretations, the sign-in (\<open>lib/identity.ts\<close>) and the completion of an account
      link (\<open>/link/complete\<close> of \<open>oauth/auth-handler.ts\<close>, with the account it writes and the invitations it claims),
      the callback of a GitHub installation, the step relation \<open>world_step\<close> of a deployment over these and over the
      handler of a request, and what holds in every state it reaches.
    \<^item> \<open>WriteDedupe\<close>: \<open>lib/write-dedupe.ts\<close> over the interface \<open>WriteLedger\<close> and the table behind it; the same function
      cut at its awaits (\<open>call_step\<close>, shown to run to \<open>dedupeWrite\<close>) and every schedule of such calls, of any
      fingerprints and with any ledger statement failing.
    \<^item> \<open>Frontmatter\<close>, \<open>WikiLinks\<close>: \<open>lib/wiki.ts\<close>.  \<open>PathPolicy\<close>: \<open>lib/brain-policy.ts\<close>, \<open>lib/write-target.ts\<close>,
      \<open>lib/links.ts\<close>.  \<open>Media\<close>: \<open>lib/media.ts\<close>.  \<open>ViewDirectives\<close>: \<open>lib/view-directives.ts\<close>.  \<open>PagePatch\<close> and
      \<open>PageWrite\<close>: \<open>lib/page-patch.ts\<close>, \<open>lib/page-write.ts\<close>.
    \<^item> \<open>JsRegex\<close>: the regular expressions of JavaScript by backtracking over positions.  \<open>PolicyDetect\<close>: the detectors of
      sensitive data (\<open>lib/policy-detectors.ts\<close>), the guard around a write and the grouping of its counts
      (\<open>lib/policy-guard.ts\<close>), scrubbing.
    \<^item> \<open>Json\<close>: \<open>JSON.parse\<close> and \<open>JSON.stringify\<close>, with their round trip.  \<open>BrainConfig\<close>: \<open>lib/brain-config.ts\<close>.
      \<open>Findings\<close>: \<open>lib/findings.ts\<close>, the ledger of dismissals and the report.
    \<^item> \<open>ReviewQueue\<close>, \<open>PolicyReview\<close>: \<open>lib/review-queue.ts\<close>, the tables of findings and dismissals, dismissing a policy
      finding and the check of the queue against the repository.

  \<^bold>\<open>Groups of lemmas.\<close>  Who reaches what: the brain list is exactly what the access rule admits, sharing and
  roster tools stay within the caller's authority, a removed member reaches nothing.  What stays true of the rows: keys and
  references, accounts, an owner in every organization.  What a write does: at most once, never over a page the caller did
  not open, fields kept and read back.  What text means: round trips of frontmatter and links, snapshots kept, masks that
  keep offsets, a fetch that never leaves the guard and brings the whole body.  What the review stores: texts without
  what the detectors flag, dismissals that cover what was seen.

  \<^bold>\<open>Interfaces.\<close>  Each locale is interpreted on the model's own definitions in the theory that provides them;
  \<open>row_invariant\<close> twice, for the accounts and for the governed rows.

  \<^bold>\<open>Bounds.\<close>  Recursion is structural or has a termination proof; the one loop that may not end, the
  search of \<open>allIndexesOf\<close>, is a \<open>while_option\<close> with a theorem saying when it returns.  The repository
  loop of \<open>create_brain\<close> tries 25 names and a fetch follows three redirects, as in the code.  The parser of JSON takes
  fuel, twice the length of the text, which is enough (\<open>json_fuel\<close>); no other definition does.  A text has at most
  fifty detections and a report rescans at most a hundred files, as in the code; properties that need the texts and
  the queues below these caps say so.  Times are whole seconds, the resolution of the table.

  \<^bold>\<open>Parameters\<close> (code outside \<open>src/\<close>): \<open>localeCompare\<close>, SHA-256, HMAC, the URL parser, \<open>decodeURIComponent\<close>, the
  network and the GitHub API (what they answer is an argument), random identifiers and the clock.

  \<^bold>\<open>Ranges.\<close>  Strings are Latin-1; of the two questions that need more of Unicode (case and spaces) the code's
  behaviour on that range is modelled; an escape of JSON beyond it is well formed and read
  as a substitute character.  Numbers of JavaScript are exact rationals, installation ids integers.
  A statement on the database fails where a constraint of the schema does; what a database that fails
  elsewhere leaves is modelled in \<open>WriteDedupe\<close>, not between the two statements that make an
  organization (\<open>unowned_between\<close> says what is there).  Requests are taken one at a time by the step relation of \<open>Tenancy\<close>; interleavings are modelled where the code
  handles them, in \<open>WriteDedupe\<close>.  A tool a deployment does not register may be called there all the same: what is
  shown of every request holds of those it serves.

  \<^bold>\<open>Not modelled.\<close>  Input and output: the GitHub, file and SQLite stores, the full-text index and search over it,
  HTTP and MCP plumbing, sign-in by third-party libraries, the web application, scripts and tests.  Rendering of
  text, where a tool's reply is kept as the values it quotes.  The handlers of \<open>tools/librarian.ts\<close> and
  \<open>tools/importer.ts\<close>, which string the modelled parts together over the stores; the language-model passes over a
  brain and the pull requests of the review queue.
\<close>

end
